(* ===== verification/Prelude.thy ===== *)
theory Prelude
  imports Main "HOL-Library.Word" "HOL-Library.While_Combinator"
begin

text \<open>
  What the components share: the machine integers of the C++ sources, the faults that end
  a run of the program, sequential programs over an explicit state, and the fact
  collections that let \<open>simp\<close> execute such programs symbolically.
\<close>

unbundle bit_operations_syntax

type_synonym u8 = "8 word"
type_synonym u16 = "16 word"
type_synonym u32 = "32 word"
type_synonym u64 = "64 word"

named_theorems exec \<open>equations that run a program one step on a given state\<close>
named_theorems stable_intros \<open>introduction rules for frame conditions of programs\<close>

section \<open>Programs\<close>

text \<open>
  A C++ function body is a function from the state to a result and the next state. The
  result is a value or the fault that ended the process: a failed \<open>assert\<close> (the build
  files set no build type, so \<open>NDEBUG\<close> is not defined), a null dereference, a division by
  zero, a read past the end of an object, a loop that never ends. Errors that
  the code reports by its own return values are ordinary values.
\<close>

datatype fault =
    Assertion_failed
  | Null_dereference
  | Division_by_zero
  | Out_of_bounds
  | Diverges

type_synonym ('s, 'a) prog = "'s \<Rightarrow> (fault + 'a) \<times> 's"

definition ret :: "'a \<Rightarrow> ('s, 'a) prog" where
  "ret x s = (Inr x, s)"

definition raise :: "fault \<Rightarrow> ('s, 'a) prog" where
  "raise e s = (Inl e, s)"

definition bind :: "('s, 'a) prog \<Rightarrow> ('a \<Rightarrow> ('s, 'b) prog) \<Rightarrow> ('s, 'b) prog" where
  "bind m k s = (case m s of (Inl e, s') \<Rightarrow> (Inl e, s') | (Inr x, s') \<Rightarrow> k x s')"

definition gets :: "('s \<Rightarrow> 'a) \<Rightarrow> ('s, 'a) prog" where
  "gets f s = (Inr (f s), s)"

definition modify :: "('s \<Rightarrow> 's) \<Rightarrow> ('s, unit) prog" where
  "modify f s = (Inr (), f s)"

definition assert_that :: "bool \<Rightarrow> ('s, unit) prog" where
  "assert_that c = (if c then ret () else raise Assertion_failed)"

text \<open>A pointer that may be null is an option; dereferencing \<open>None\<close> is a fault.\<close>

definition deref :: "'a option \<Rightarrow> ('s, 'a) prog" where
  "deref p = (case p of None \<Rightarrow> raise Null_dereference | Some x \<Rightarrow> ret x)"

text \<open>A \<open>for\<close> loop over a known range runs its body once for each element, in order.\<close>

primrec for_each :: "'a list \<Rightarrow> ('a \<Rightarrow> ('s, unit) prog) \<Rightarrow> ('s, unit) prog" where
  "for_each [] body = ret ()"
| "for_each (x # xs) body = bind (body x) (\<lambda>_. for_each xs body)"

text \<open>The same with local variables of the loop, which the body updates.\<close>

primrec for_fold :: "'a list \<Rightarrow> ('a \<Rightarrow> 'b \<Rightarrow> ('s, 'b) prog) \<Rightarrow> 'b \<Rightarrow> ('s, 'b) prog" where
  "for_fold [] body v = ret v"
| "for_fold (x # xs) body v = bind (body x v) (for_fold xs body)"

text \<open>
  A loop that runs its body until it yields a result; without an end it is the fault
  \<open>Diverges\<close>.
\<close>

definition repeat_until :: "('s, 'a option) prog \<Rightarrow> ('s, 'a) prog" where
  "repeat_until body s =
     (case while_option (\<lambda>(r, t). r = Inr None) (\<lambda>(r, t). body t) (Inr None, s) of
        Some (Inr (Some x), t) \<Rightarrow> (Inr x, t)
      | Some (Inl e, t) \<Rightarrow> (Inl e, t)
      | _ \<Rightarrow> (Inl Diverges, s))"

lemma ret_run [exec]: "ret x s = (Inr x, s)"
  by (rule ret_def)

lemma raise_run [exec]: "raise e s = (Inl e, s)"
  by (rule raise_def)

lemma gets_run [exec]: "gets f s = (Inr (f s), s)"
  by (rule gets_def)

lemma modify_run [exec]: "modify f s = (Inr (), f s)"
  by (rule modify_def)

lemma bind_run [exec]:
  "bind m k s = (case m s of (r, s') \<Rightarrow> case r of Inl e \<Rightarrow> (Inl e, s') | Inr x \<Rightarrow> k x s')"
  by (simp add: bind_def)

lemma bind_ok: "m s = (Inr x, s') \<Longrightarrow> bind m k s = k x s'"
  by (simp add: bind_def)

lemma bind_fault: "m s = (Inl e, s') \<Longrightarrow> bind m k s = (Inl e, s')"
  by (simp add: bind_def)

lemma assert_that_True [exec]: "assert_that True = ret ()"
  by (simp add: assert_that_def)

lemma assert_that_False [exec]: "assert_that False = raise Assertion_failed"
  by (simp add: assert_that_def)

lemma deref_Some [exec]: "deref (Some x) = ret x"
  by (simp add: deref_def)

lemma deref_None [exec]: "deref None = raise Null_dereference"
  by (simp add: deref_def)

lemma bind_ret [simp]: "bind (ret x) k = k x"
  by (rule ext) (simp add: bind_def ret_def)

lemma bind_raise [simp]: "bind (raise e) k = raise e"
  by (rule ext) (simp add: bind_def raise_def)

lemma bind_assoc: "bind (bind m k) l = bind m (\<lambda>x. bind (k x) l)"
  by (rule ext) (simp add: bind_def split: prod.split sum.split)

lemma bind_eq_Inr:
  "bind m k s = (Inr y, t) \<longleftrightarrow> (\<exists>x s'. m s = (Inr x, s') \<and> k x s' = (Inr y, t))"
  by (auto simp: bind_def split: prod.splits sum.splits)

lemma bind_if: "bind (if c then m else n) k = (if c then bind m k else bind n k)"
  by simp

text \<open>A loop whose body always returns and only transforms the state is a \<open>fold\<close>.\<close>

lemma for_each_fold:
  assumes "\<And>x s. x \<in> set xs \<Longrightarrow> body x s = (Inr (), g x s)"
  shows "for_each xs body s = (Inr (), fold g xs s)"
  using assms
proof (induction xs arbitrary: s)
  case Nil
  then show ?case by (simp add: ret_def)
next
  case (Cons x xs)
  then show ?case by (simp add: bind_def)
qed

lemma for_fold_append: "for_fold (xs @ ys) body v = bind (for_fold xs body v) (for_fold ys body)"
proof (induction xs arbitrary: v)
  case (Cons x xs)
  have "for_fold (xs @ ys) body = (\<lambda>v. bind (for_fold xs body v) (for_fold ys body))"
    by (rule ext) (rule Cons.IH)
  then show ?case by (simp add: bind_assoc)
qed simp

lemma repeat_until_done [exec]:
  "body s = (Inr (Some x), t) \<Longrightarrow> repeat_until body s = (Inr x, t)"
  by (simp add: repeat_until_def while_option_unfold)

lemma repeat_until_fault [exec]:
  "body s = (Inl e, t) \<Longrightarrow> repeat_until body s = (Inl e, t)"
  by (simp add: repeat_until_def while_option_unfold)

lemma repeat_until_again:
  assumes "body s = (Inr None, t)" and "repeat_until body t = (Inr x, u)"
  shows "repeat_until body s = (Inr x, u)"
proof -
  have "while_option (\<lambda>(r, t). r = Inr None) (\<lambda>(r, t). body t) (Inr None, s) =
      while_option (\<lambda>(r, t). r = Inr None) (\<lambda>(r, t). body t) (Inr None, t)"
    by (subst while_option_unfold) (simp add: assms(1))
  then show ?thesis using assms(2)
    by (simp add: repeat_until_def split: option.splits sum.splits prod.splits)
qed

text \<open>A loop along a known sequence of states, up to the first round with a result.\<close>

lemma repeat_until_along:
  assumes "\<And>k. k < n \<Longrightarrow> body (st k) = (Inr None, st (Suc k))" and "body (st n) = (Inr (Some x), t)"
  shows "repeat_until body (st 0) = (Inr x, t)"
  using assms
proof (induction n arbitrary: st)
  case (Suc n)
  have "repeat_until body (st (Suc 0)) = (Inr x, t)"
    by (rule Suc.IH [of "\<lambda>k. st (Suc k)"]) (simp_all add: Suc.prems)
  with Suc.prems(1) [OF zero_less_Suc] show ?case by (rule repeat_until_again)
qed (simp add: repeat_until_done)

text \<open>Partial correctness: what the body keeps while it yields no result holds at the last round.\<close>

lemma repeat_until_last:
  assumes "repeat_until body s = (Inr x, u)" and "I s"
    and step: "\<And>t t'. I t \<Longrightarrow> body t = (Inr None, t') \<Longrightarrow> I t'"
  shows "\<exists>t. I t \<and> body t = (Inr (Some x), u)"
proof -
  let ?b = "\<lambda>(r, t). r = Inr None" and ?c = "\<lambda>(r, t). body t"
  have w: "while_option ?b ?c (Inr None, s) = Some (Inr (Some x), u)"
    using assms(1) by (auto simp: repeat_until_def split: option.splits sum.splits prod.splits)
  define J where "J = (\<lambda>(r, t). case r of Inr None \<Rightarrow> I t | _ \<Rightarrow> \<exists>t0. I t0 \<and> body t0 = (r, t))"
  have "J (Inr (Some x), u)"
  proof (rule while_option_rule [OF _ w])
    show "J (Inr None, s)" using assms(2) by (simp add: J_def)
  next
    fix p assume J: "J p" and b: "?b p"
    obtain t where p: "p = (Inr None, t)" using b by (cases p) auto
    have t: "I t" using J by (simp add: p J_def)
    obtain r' t' where body: "body t = (r', t')" by (cases "body t")
    have "r' = Inr None \<Longrightarrow> I t'" using step [OF t] body by simp
    moreover have "\<exists>t0. I t0 \<and> body t0 = (r', t')" using t body by (intro exI conjI)
    ultimately show "J (?c p)"
      by (cases "r' = Inr None") (auto simp: p body J_def split: sum.split option.split)
  qed
  then show ?thesis by (auto simp: J_def)
qed

text \<open>A body that never yields a result nor a fault makes the loop diverge.\<close>

lemma repeat_until_diverges:
  assumes "\<And>t. I t \<Longrightarrow> \<exists>t'. body t = (Inr None, t') \<and> I t'" and "I s"
  shows "repeat_until body s = (Inl Diverges, s)"
proof -
  let ?b = "\<lambda>(r, t). r = Inr None" and ?c = "\<lambda>(r, t). body t"
  have "while_option ?b ?c (Inr None, s) = None"
  proof (rule ccontr)
    assume "while_option ?b ?c (Inr None, s) \<noteq> None"
    then obtain p where p: "while_option ?b ?c (Inr None, s) = Some p" by blast
    have "fst p = Inr None \<and> I (snd p)"
    proof (rule while_option_rule [OF _ p, where P = "\<lambda>p. fst p = Inr None \<and> I (snd p)"])
      fix q assume "fst q = Inr None \<and> I (snd q)" and "?b q"
      then show "fst (?c q) = Inr None \<and> I (snd (?c q))"
        using assms(1) [of "snd q"] by (auto split: prod.split)
    qed (simp add: assms(2))
    moreover have "\<not> ?b p" by (rule while_option_stop [OF p])
    ultimately show False by (simp split: prod.splits)
  qed
  then show ?thesis by (simp add: repeat_until_def)
qed

section \<open>Frame conditions\<close>

text \<open>
  \<open>stable R m\<close>: however \<open>m\<close> ends, by a value or a fault, the state it leaves is related
  by \<open>R\<close> to the state it found. For a preorder \<open>R\<close> the relation is inherited by
  every composition of stable programs; the locale proves this once, and a
  component interprets it for each relation it is interested in.
\<close>

definition stable :: "('s \<Rightarrow> 's \<Rightarrow> bool) \<Rightarrow> ('s, 'a) prog \<Rightarrow> bool" where
  "stable R m \<longleftrightarrow> (\<forall>s. R s (snd (m s)))"

lemma stableD: "stable R m \<Longrightarrow> m s = (x, t) \<Longrightarrow> R s t"
  by (metis stable_def snd_conv)

lemma stable_mono: "stable R m \<Longrightarrow> (\<And>s t. R s t \<Longrightarrow> Q s t) \<Longrightarrow> stable Q m"
  by (simp add: stable_def)

lemma stable_modify: "(\<And>s. R s (f s)) \<Longrightarrow> stable R (modify f)"
  by (simp add: stable_def modify_def)

locale frame =
  fixes R :: "'s \<Rightarrow> 's \<Rightarrow> bool"
  assumes frame_refl: "R s s"
    and frame_trans: "R s t \<Longrightarrow> R t u \<Longrightarrow> R s u"
begin

lemma stable_ret [stable_intros]: "stable R (ret x)"
  by (simp add: stable_def ret_def frame_refl)

lemma stable_raise [stable_intros]: "stable R (raise e)"
  by (simp add: stable_def raise_def frame_refl)

lemma stable_gets [stable_intros]: "stable R (gets f)"
  by (simp add: stable_def gets_def frame_refl)

lemma stable_assert [stable_intros]: "stable R (assert_that c)"
  by (simp add: assert_that_def stable_ret stable_raise)

lemma stable_deref [stable_intros]: "stable R (deref p)"
  by (simp add: deref_def stable_ret stable_raise split: option.split)

lemma stable_bind [stable_intros]:
  assumes "stable R m" and "\<And>x. stable R (k x)"
  shows "stable R (bind m k)"
  unfolding stable_def
proof
  fix s
  obtain x t where m: "m s = (x, t)" by fastforce
  have "R s t" using assms(1) m by (rule stableD)
  moreover have "R t (snd (k y t))" for y
    using assms(2) by (simp add: stable_def)
  ultimately show "R s (snd (bind m k s))"
    by (auto simp: bind_def m split: sum.split intro: frame_trans)
qed

lemma stable_repeat_until [stable_intros]:
  assumes "stable R body"
  shows "stable R (repeat_until body)"
  unfolding stable_def
proof
  fix s
  let ?b = "\<lambda>(r, t). r = Inr None" and ?c = "\<lambda>(r, t). body t"
  have "R s (snd p)" if "while_option ?b ?c (Inr None, s) = Some p" for p
  proof (rule while_option_rule [OF _ that, where P = "\<lambda>p. R s (snd p)"])
    fix p assume "R s (snd p)"
    moreover have "R (snd p) (snd (body (snd p)))" using assms by (simp add: stable_def)
    ultimately show "R s (snd (?c p))" by (auto split: prod.split intro: frame_trans)
  qed (simp add: frame_refl)
  then show "R s (snd (repeat_until body s))"
    by (fastforce simp: repeat_until_def frame_refl split: option.split sum.split prod.split)
qed

lemma stable_if [stable_intros]:
  "stable R m \<Longrightarrow> stable R n \<Longrightarrow> stable R (if c then m else n)"
  by simp

lemma stable_case_prod [stable_intros]:
  "(\<And>a b. stable R (f a b)) \<Longrightarrow> stable R (case p of (a, b) \<Rightarrow> f a b)"
  by (cases p) simp

lemma stable_case_option [stable_intros]:
  "stable R m \<Longrightarrow> (\<And>x. stable R (f x)) \<Longrightarrow> stable R (case p of None \<Rightarrow> m | Some x \<Rightarrow> f x)"
  by (cases p) simp_all

lemma stable_Let [stable_intros]: "(\<And>x. stable R (f x)) \<Longrightarrow> stable R (let x = a in f x)"
  by simp

lemma stable_for_each [stable_intros]:
  assumes "\<And>x. stable R (body x)"
  shows "stable R (for_each xs body)"
  by (induction xs) (auto intro: stable_ret stable_bind assms)

lemma stable_for_fold [stable_intros]:
  assumes "\<And>x v. stable R (body x v)"
  shows "stable R (for_fold xs body v)"
  by (induction xs arbitrary: v) (auto intro: stable_ret stable_bind assms)

end

section \<open>Words\<close>

lemma unat_of_nat_lt [simp]:
  "n < 2 ^ LENGTH('a) \<Longrightarrow> unat (of_nat n :: 'a::len word) = n"
  by (simp add: unat_of_nat take_bit_nat_eq_self_iff)

lemma unat_less_2p: "unat (w :: 'a::len word) < 2 ^ LENGTH('a)"
  by simp

text \<open>Shifts, masks and unions of bit fields, read as arithmetic on natural numbers.\<close>

lemma unat_take_bit: "unat (take_bit n x :: 'a::len word) = unat x mod 2 ^ n"
  by (simp only: unsigned_take_bit_eq) (simp add: take_bit_eq_mod)

lemma unat_drop_bit: "unat (drop_bit n x :: 'a::len word) = unat x div 2 ^ n"
  by (simp only: unat_drop_bit_eq) (simp add: drop_bit_eq_div)

lemma unat_push_bit:
  "unat x * 2 ^ n < 2 ^ LENGTH('a) \<Longrightarrow> unat (push_bit n x :: 'a::len word) = unat x * 2 ^ n"
  by (simp only: unsigned_push_bit_eq) (simp add: push_bit_eq_mult take_bit_nat_eq_self)

lemma unat_ucast_mod: "unat (ucast (w :: 'b::len word) :: 'a::len word) = unat w mod 2 ^ LENGTH('a)"
  by (simp only: unsigned_ucast_eq) (simp add: take_bit_eq_mod)

lemma mod_div_pow2: "a \<le> n \<Longrightarrow> k mod 2 ^ n div 2 ^ a = k div 2 ^ a mod 2 ^ (n - a)" for k :: nat
  using drop_bit_take_bit [of a n k] by (simp add: drop_bit_eq_div take_bit_eq_mod)

lemma and_field:
  "x AND push_bit k (mask n) = push_bit k (take_bit n (drop_bit k (x :: 'a::len word)))"
  by (rule bit_word_eqI) (auto simp: bit_simps)

lemma unat_field:
  assumes "n + k \<le> LENGTH('a)"
  shows "unat (x AND push_bit k (mask n) :: 'a::len word) = unat x div 2 ^ k mod 2 ^ n * 2 ^ k"
proof -
  have "unat x div 2 ^ k mod 2 ^ n * 2 ^ k < 2 ^ n * 2 ^ k" by simp
  also have "\<dots> \<le> 2 ^ LENGTH('a)" using assms by (simp flip: power_add)
  finally show ?thesis
    by (simp add: and_field unat_push_bit unat_take_bit unat_drop_bit)
qed

lemma nat_or_low:
  fixes a b :: nat
  assumes "2 ^ n dvd a" and "b < 2 ^ n"
  shows "a OR b = a + b"
proof (rule disjunctive_add_eq_or [symmetric])
  obtain q where "a = push_bit n q"
    using assms(1) by (auto simp: push_bit_eq_mult mult.commute elim!: dvdE)
  moreover have "b = take_bit n b"
    using assms(2) by (simp add: take_bit_nat_eq_self)
  ultimately show "a AND b = 0"
    by (metis bit_eqI bit_and_iff bit_push_bit_iff bit_take_bit_iff bit_0_eq bot_apply
        bot_bool_def not_less)
qed

lemma unat_or_low:
  assumes "2 ^ n dvd unat x" and "unat y < 2 ^ n"
  shows "unat (x OR y :: 'a::len word) = unat x + unat y"
  using nat_or_low [OF assms] by (simp add: unsigned_or_eq)

section \<open>Text\<close>

abbreviation newline :: string where
  "newline \<equiv> [CHR 0x0A]"

text \<open>A natural number in decimal digits.\<close>

fun decimal :: "nat \<Rightarrow> string" where
  "decimal n = (if n < 10 then [char_of (48 + n)] else decimal (n div 10) @ [char_of (48 + n mod 10)])"

declare decimal.simps [simp del]

end
