(* ===== verification/Memory.thy ===== *)
theory Memory
  imports Prelude
begin

text \<open>
  The byte memory the host program and the device share, the little-endian layout of the
  integers stored in it, and arrays of them: the accesses \<open>Buffer::Data<T>(i)\<close> of
  dispatch.hpp and the \<open>memcpy\<close> of \<open>Dispatch::KernargRaw\<close>.
\<close>

type_synonym addr = u64
type_synonym memory = "addr \<Rightarrow> u8"

section \<open>Block access\<close>

text \<open>
  \<open>store_bytes p bs m\<close> is \<open>memcpy\<close> of the bytes \<open>bs\<close> to the address \<open>p\<close>; addresses wrap
  at 64 bits as pointer arithmetic on the machine does.
\<close>

definition store_bytes :: "addr \<Rightarrow> u8 list \<Rightarrow> memory \<Rightarrow> memory" where
  "store_bytes p bs m = (\<lambda>a. if unat (a - p) < length bs then bs ! unat (a - p) else m a)"

definition load_bytes :: "addr \<Rightarrow> nat \<Rightarrow> memory \<Rightarrow> u8 list" where
  "load_bytes p n m = map (\<lambda>k. m (p + of_nat k)) [0..<n]"

text \<open>The block of \<open>n\<close> bytes at \<open>p\<close> has no byte of the block of \<open>l\<close> bytes at \<open>q\<close>.\<close>

definition apart :: "addr \<Rightarrow> nat \<Rightarrow> addr \<Rightarrow> nat \<Rightarrow> bool" where
  "apart p n q l \<longleftrightarrow> (\<forall>k<n. l \<le> unat (p + of_nat k - q))"

lemma length_load_bytes [simp]: "length (load_bytes p n m) = n"
  by (simp add: load_bytes_def)

lemma load_store_same:
  assumes "length bs \<le> 2 ^ 64"
  shows "load_bytes p (length bs) (store_bytes p bs m) = bs"
  using assms by (auto simp: load_bytes_def store_bytes_def intro!: nth_equalityI)

lemma load_store_apart:
  "apart p n q (length bs) \<Longrightarrow> load_bytes p n (store_bytes q bs m) = load_bytes p n m"
  by (auto simp: load_bytes_def store_bytes_def apart_def)

lemma store_store_apart:
  assumes "apart p (length bs) q (length cs)"
  shows "store_bytes p bs (store_bytes q cs m) = store_bytes q cs (store_bytes p bs m)"
proof
  fix a
  have "length cs \<le> unat (a - q)" if "unat (a - p) < length bs"
    using assms that by (auto simp: apart_def dest!: spec [where x = "unat (a - p)"])
  then show "store_bytes p bs (store_bytes q cs m) a = store_bytes q cs (store_bytes p bs m) a"
    by (auto simp: store_bytes_def)
qed

lemma apart_offsets:
  assumes "a + n \<le> b" and "b + l \<le> 2 ^ 64"
  shows "apart (p + of_nat a) n (p + of_nat b) l"
    and "apart (p + of_nat b) l (p + of_nat a) n"
proof -
  show "apart (p + of_nat b) l (p + of_nat a) n"
    unfolding apart_def
  proof (intro allI impI)
    fix k assume "k < l"
    have eq: "p + of_nat b + of_nat k - (p + of_nat a) = (of_nat (b + k - a) :: addr)"
      using assms(1) by (simp add: of_nat_diff)
    have "b + k - a < 2 ^ 64" using \<open>k < l\<close> assms by arith
    then have "unat (of_nat (b + k - a) :: addr) = b + k - a" by simp
    then show "n \<le> unat (p + of_nat b + of_nat k - (p + of_nat a))"
      unfolding eq using assms(1) by simp
  qed
  show "apart (p + of_nat a) n (p + of_nat b) l"
    unfolding apart_def
  proof (intro allI impI)
    fix k assume "k < n"
    have pos: "0 < b - (a + k)" using assms(1) \<open>k < n\<close> by arith
    show "l \<le> unat (p + of_nat a + of_nat k - (p + of_nat b))"
    proof (cases "l = 0")
      case False
      have lt: "2 ^ 64 + (a + k) - b < 2 ^ 64" and ge: "l \<le> 2 ^ 64 + (a + k) - b"
        and b: "b \<le> 2 ^ 64 + (a + k)"
        using assms pos False by arith+
      have "(of_nat (2 ^ 64 + (a + k) - b) :: addr) = of_nat (2 ^ 64) + of_nat (a + k) - of_nat b"
        using b by (simp only: of_nat_diff of_nat_add)
      also have "of_nat (2 ^ 64) = (0 :: addr)" by simp
      finally have "p + of_nat a + of_nat k - (p + of_nat b)
          = (of_nat (2 ^ 64 + (a + k) - b) :: addr)" by simp
      moreover have "unat (of_nat (2 ^ 64 + (a + k) - b) :: addr) = 2 ^ 64 + (a + k) - b"
        using lt by (intro unat_of_nat_lt) simp
      ultimately show ?thesis using ge by simp
    qed simp
  qed
qed

section \<open>Little-endian integers\<close>

fun bytes_of_nat :: "nat \<Rightarrow> nat \<Rightarrow> u8 list" where
  "bytes_of_nat 0 n = []"
| "bytes_of_nat (Suc w) n = of_nat n # bytes_of_nat w (n div 256)"

fun nat_of_bytes :: "u8 list \<Rightarrow> nat" where
  "nat_of_bytes [] = 0"
| "nat_of_bytes (b # bs) = unat b + 256 * nat_of_bytes bs"

definition enc_u16 :: "u16 \<Rightarrow> u8 list" where "enc_u16 x = bytes_of_nat 2 (unat x)"
definition dec_u16 :: "u8 list \<Rightarrow> u16" where "dec_u16 bs = of_nat (nat_of_bytes bs)"
definition enc_u32 :: "u32 \<Rightarrow> u8 list" where "enc_u32 x = bytes_of_nat 4 (unat x)"
definition dec_u32 :: "u8 list \<Rightarrow> u32" where "dec_u32 bs = of_nat (nat_of_bytes bs)"
definition enc_u64 :: "u64 \<Rightarrow> u8 list" where "enc_u64 x = bytes_of_nat 8 (unat x)"
definition dec_u64 :: "u8 list \<Rightarrow> u64" where "dec_u64 bs = of_nat (nat_of_bytes bs)"

lemma length_bytes_of_nat [simp]: "length (bytes_of_nat w n) = w"
  by (induction w arbitrary: n) auto

lemma nat_of_bytes_of_nat: "nat_of_bytes (bytes_of_nat w n) = n mod 256 ^ w"
proof (induction w arbitrary: n)
  case 0
  then show ?case by simp
next
  case (Suc w)
  have "n mod 256 ^ Suc w = n mod 256 + 256 * (n div 256 mod 256 ^ w)"
    by (simp add: mod_mult2_eq add.commute)
  then show ?case by (simp add: Suc unat_of_nat take_bit_eq_mod)
qed

section \<open>Typed access\<close>

text \<open>
  The contract between a value type and its object representation: every value takes the
  same number of bytes, and reading back what was written gives the value.
\<close>

definition elem_addr :: "nat \<Rightarrow> addr \<Rightarrow> nat \<Rightarrow> addr" where
  "elem_addr w p i = p + of_nat (w * i)"

locale codec =
  fixes width :: nat
    and enc :: "'a \<Rightarrow> u8 list"
    and dec :: "u8 list \<Rightarrow> 'a"
  assumes length_enc: "length (enc x) = width"
    and dec_enc: "dec (enc x) = x"
    and width_small: "width \<le> 16"
begin

lemma load_same: "dec (load_bytes p width (store_bytes p (enc x) m)) = x"
  using load_store_same [of "enc x" p m] width_small by (simp add: length_enc dec_enc)

lemma load_other:
  assumes "i \<noteq> j" and "i < n" and "j < n" and "width * n \<le> 2 ^ 64"
  shows "load_bytes (elem_addr width p i) width (store_bytes (elem_addr width p j) (enc x) m)
    = load_bytes (elem_addr width p i) width m"
proof (rule load_store_apart)
  have end_le: "width * k + width \<le> 2 ^ 64" if "k < n" for k
  proof -
    have "width * k + width = width * Suc k" by simp
    also have "\<dots> \<le> width * n" using that by (intro mult_le_mono2) simp
    finally show ?thesis using assms(4) by simp
  qed
  have step: "width * k + width \<le> width * l" if "k < l" for k l
  proof -
    have "width * k + width = width * Suc k" by simp
    also have "\<dots> \<le> width * l" using that by (intro mult_le_mono2) simp
    finally show ?thesis .
  qed
  show "apart (elem_addr width p i) width (elem_addr width p j) (length (enc x))"
  proof (cases "i < j")
    case True
    then show ?thesis unfolding elem_addr_def length_enc
      using apart_offsets(1) [OF step end_le] assms(3) by blast
  next
    case False
    then have "j < i" using assms(1) by simp
    then show ?thesis unfolding elem_addr_def length_enc
      using apart_offsets(2) [OF step end_le] assms(2) by blast
  qed
qed

text \<open>An array filled element by element reads back the values that were written.\<close>

lemma load_fill:
  assumes "i < n" and "width * n \<le> 2 ^ 64"
  shows "dec (load_bytes (elem_addr width p i) width
    (fold (\<lambda>j. store_bytes (elem_addr width p j) (enc (f j))) [0..<n] m)) = f i"
proof -
  have "dec (load_bytes (elem_addr width p i) width
      (fold (\<lambda>j. store_bytes (elem_addr width p j) (enc (f j))) [0..<k] m)) = f i"
    if "i < k" and "k \<le> n" for k
    using that
  proof (induction k)
    case 0
    then show ?case by simp
  next
    case (Suc k)
    show ?case
    proof (cases "i = k")
      case True
      then show ?thesis by (simp add: load_same)
    next
      case False
      then have "i < k" using Suc.prems by simp
      moreover have "k < n" using Suc.prems by simp
      ultimately show ?thesis using Suc.IH Suc.prems False assms
        by (simp add: load_other [where n = n])
    qed
  qed
  then show ?thesis using assms(1) by simp
qed

end

lemma unat_mod_self [simp]: "unat (x :: 'a::len word) mod 2 ^ LENGTH('a) = unat x"
  by simp

interpretation u16_codec: codec 2 enc_u16 dec_u16
proof
  fix x :: u16
  have "unat x mod 2 ^ 16 = unat x" using unat_mod_self [of x] by simp
  then show "dec_u16 (enc_u16 x) = x"
    by (simp add: enc_u16_def dec_u16_def nat_of_bytes_of_nat)
qed (simp_all add: enc_u16_def)

interpretation u32_codec: codec 4 enc_u32 dec_u32
proof
  fix x :: u32
  have "unat x mod 2 ^ 32 = unat x" using unat_mod_self [of x] by simp
  then show "dec_u32 (enc_u32 x) = x"
    by (simp add: enc_u32_def dec_u32_def nat_of_bytes_of_nat)
qed (simp_all add: enc_u32_def)

interpretation u64_codec: codec 8 enc_u64 dec_u64
proof
  fix x :: u64
  have "unat x mod 2 ^ 64 = unat x" using unat_mod_self [of x] by simp
  then show "dec_u64 (enc_u64 x) = x"
    by (simp add: enc_u64_def dec_u64_def nat_of_bytes_of_nat)
qed (simp_all add: enc_u64_def)

end
