(* ===== verification/Hsa.thy ===== *)
theory Hsa
  imports Memory
begin

text \<open>
  The environment of the dispatch examples: the HSA runtime (hsa.h and libhsa-runtime64,
  which are not part of the repository), the C clock and the file system. Their behaviour is
  a parameter of the model, the record \<open>'r hsa\<close>, over a hidden state of type \<open>'r\<close> (driver,
  runtime and device); only their types and the enumerators the source names are fixed.
  What the source relies on is stated as named predicates, to be used as hypotheses.
\<close>

section \<open>Data of the interface\<close>

text \<open>Enumerations: the enumerators the source names, every other value by its number.\<close>

datatype hsa_status =
    HSA_STATUS_SUCCESS
  | HSA_STATUS_ERROR_INVALID_ARGUMENT
  | HSA_STATUS_OTHER u32

datatype hsa_device_type =
    HSA_DEVICE_TYPE_CPU
  | HSA_DEVICE_TYPE_GPU
  | HSA_DEVICE_TYPE_OTHER u32

datatype hsa_segment =
    HSA_REGION_SEGMENT_GLOBAL
  | HSA_REGION_SEGMENT_OTHER u32

text \<open>The 64-byte kernel dispatch packet, field by field.\<close>

record packet =
  pkt_header :: u16
  pkt_setup :: u16
  workgroup_size_x :: u16
  workgroup_size_y :: u16
  workgroup_size_z :: u16
  reserved0 :: u16
  grid_size_x :: u32
  grid_size_y :: u32
  grid_size_z :: u32
  private_segment_size :: u32
  group_segment_size :: u32
  kernel_object :: u64
  kernarg_address :: addr
  reserved2 :: u64
  completion_signal :: u64

text \<open>
  The packet ring of a queue, by the slot number that pointer arithmetic on
  \<open>queue->base_address\<close> uses.
\<close>

type_synonym ring = "u64 \<Rightarrow> packet"

record hsa_queue =
  q_size :: u32
  q_doorbell :: u64

section \<open>The parameters\<close>

text \<open>
  Output parameters of a C function are results of the model's function. An output parameter
  is meaningful only where the status is \<open>HSA_STATUS_SUCCESS\<close>, except for the three region
  queries, whose status the source ignores: there the result is what the variable holds
  after the call. Arguments that the source always passes as the same constants
  are left out.
\<close>

record hsa_constants =
  REGION_GLOBAL_FLAG_KERNARG :: u32
  REGION_GLOBAL_FLAG_FINE_GRAINED :: u32
  REGION_GLOBAL_FLAG_COARSE_GRAINED :: u32
  PACKET_TYPE_KERNEL_DISPATCH :: u32
  FENCE_SCOPE_SYSTEM :: u32
  PACKET_HEADER_TYPE :: nat
  PACKET_HEADER_BARRIER :: nat
  PACKET_HEADER_ACQUIRE_FENCE_SCOPE :: nat
  PACKET_HEADER_RELEASE_FENCE_SCOPE :: nat
  PACKET_SETUP_DIMENSIONS :: nat
  CLOCKS_PER_SEC :: int

record 'r hsa = hsa_constants +
  api_init :: "'r \<Rightarrow> hsa_status \<times> 'r"
  api_status_string :: "hsa_status \<Rightarrow> string option"
  api_agents :: "'r \<Rightarrow> (u64 list \<times> hsa_status) \<times> 'r"
  api_agent_device :: "u64 \<Rightarrow> 'r \<Rightarrow> hsa_status \<times> hsa_device_type"
  api_agent_name :: "u64 \<Rightarrow> 'r \<Rightarrow> hsa_status \<times> string"
  api_agent_queue_max_size :: "u64 \<Rightarrow> 'r \<Rightarrow> hsa_status \<times> u32"
  api_queue_create :: "u64 \<Rightarrow> u32 \<Rightarrow> 'r \<Rightarrow> (hsa_status \<times> hsa_queue) \<times> 'r"
  api_queue_add_write_index :: "u64 \<Rightarrow> 'r \<Rightarrow> u64 \<times> 'r"
  api_signal_create :: "u64 \<Rightarrow> 'r \<Rightarrow> (hsa_status \<times> u64) \<times> 'r"
  api_regions :: "u64 \<Rightarrow> 'r \<Rightarrow> (u64 list \<times> hsa_status) \<times> 'r"
  api_region_segment :: "u64 \<Rightarrow> 'r \<Rightarrow> hsa_segment"
  api_region_flags :: "u64 \<Rightarrow> 'r \<Rightarrow> u32"
  api_region_host_accessible :: "u64 \<Rightarrow> 'r \<Rightarrow> bool"
  api_memory_allocate :: "u64 \<Rightarrow> u64 \<Rightarrow> 'r \<Rightarrow> (hsa_status \<times> addr) \<times> 'r"
  api_memory_copy :: "addr \<Rightarrow> addr \<Rightarrow> u64 \<Rightarrow> memory \<Rightarrow> 'r \<Rightarrow> (hsa_status \<times> memory) \<times> 'r"
  api_memory_assign_agent :: "addr \<Rightarrow> u64 \<Rightarrow> 'r \<Rightarrow> hsa_status \<times> 'r"
  api_code_object_deserialize :: "addr \<Rightarrow> u64 \<Rightarrow> memory \<Rightarrow> 'r \<Rightarrow> (hsa_status \<times> u64) \<times> 'r"
  api_executable_create :: "'r \<Rightarrow> (hsa_status \<times> u64) \<times> 'r"
  api_executable_load_code_object :: "u64 \<Rightarrow> u64 \<Rightarrow> u64 \<Rightarrow> 'r \<Rightarrow> hsa_status \<times> 'r"
  api_executable_freeze :: "u64 \<Rightarrow> 'r \<Rightarrow> hsa_status \<times> 'r"
  api_executable_get_symbol :: "u64 \<Rightarrow> string \<Rightarrow> u64 \<Rightarrow> 'r \<Rightarrow> hsa_status \<times> u64"
  api_symbol_kernel_object :: "u64 \<Rightarrow> 'r \<Rightarrow> hsa_status \<times> u64"
  api_symbol_group_segment_size :: "u64 \<Rightarrow> 'r \<Rightarrow> hsa_status \<times> u32"
  api_signal_store :: "u64 \<Rightarrow> u64 \<Rightarrow> 'r \<Rightarrow> 'r"
  api_signal_wait :: "u64 \<Rightarrow> ring \<Rightarrow> memory \<Rightarrow> 'r \<Rightarrow> (u64 \<times> ring \<times> memory) \<times> 'r"
  api_timestamp_frequency :: "'r \<Rightarrow> hsa_status \<times> u64"
  api_clock :: "'r \<Rightarrow> int \<times> 'r"
  api_file :: "string \<Rightarrow> 'r \<Rightarrow> u8 list option"

text \<open>
  The values of the constants in the HSA runtime specification 1.0.
\<close>

definition documented_constants :: "'z hsa_constants_scheme \<Rightarrow> bool" where
  "documented_constants H \<longleftrightarrow>
     REGION_GLOBAL_FLAG_KERNARG H = 1 \<and> REGION_GLOBAL_FLAG_FINE_GRAINED H = 2 \<and>
     REGION_GLOBAL_FLAG_COARSE_GRAINED H = 4 \<and>
     PACKET_TYPE_KERNEL_DISPATCH H = 2 \<and> FENCE_SCOPE_SYSTEM H = 2 \<and>
     PACKET_HEADER_TYPE H = 0 \<and> PACKET_HEADER_BARRIER H = 8 \<and>
     PACKET_HEADER_ACQUIRE_FENCE_SCOPE H = 9 \<and> PACKET_HEADER_RELEASE_FENCE_SCOPE H = 11 \<and>
     PACKET_SETUP_DIMENSIONS H = 0"

text \<open>\<open>hsa_memory_copy\<close>: on success the destination block holds the bytes of the source.\<close>

definition copies_faithfully :: "'r hsa \<Rightarrow> bool" where
  "copies_faithfully H \<longleftrightarrow>
     (\<forall>dest src n m r m' r'. api_memory_copy H dest src n m r = ((HSA_STATUS_SUCCESS, m'), r') \<longrightarrow>
        m' = store_bytes dest (load_bytes src (unat n) m) m)"

section \<open>The machine state and the calls\<close>

text \<open>
  What an output stream was given, by operand: text, an unsigned integer, a float, an end of
  line. The events record the calls with an effect on the runtime or the device, and the
  release of memory, in program order.
\<close>

datatype item = Str string | Unsigned nat | Float u32 | Endl

datatype event =
    Ev_init
  | Ev_iterate_agents
  | Ev_queue_create u64 u32
  | Ev_signal_create u64
  | Ev_iterate_regions u64
  | Ev_add_write_index u64
  | Ev_allocate u64 u64 hsa_status addr
  | Ev_free addr
  | Ev_copy addr addr u64
  | Ev_assign_agent addr u64
  | Ev_deserialize addr u64
  | Ev_executable_create
  | Ev_load_code_object u64 u64 u64
  | Ev_freeze u64
  | Ev_header_store u64 u32
  | Ev_doorbell u64 u64
  | Ev_wait u64

record 'r machine =
  rt :: 'r
  mem :: memory
  ring :: ring
  events :: "event list"
  cout :: "item list"

definition hsa_call ::
  "('a \<Rightarrow> event) \<Rightarrow> ('r \<Rightarrow> 'a \<times> 'r) \<Rightarrow> (('r, 'z) machine_scheme, 'a) prog" where
  "hsa_call e f s =
     (Inr (fst (f (rt s))), s\<lparr>rt := snd (f (rt s)), events := events s @ [e (fst (f (rt s)))]\<rparr>)"

definition hsa_query :: "('r \<Rightarrow> 'a) \<Rightarrow> (('r, 'z) machine_scheme, 'a) prog" where
  "hsa_query f = gets (\<lambda>s. f (rt s))"

definition log_event :: "event \<Rightarrow> (('r, 'z) machine_scheme, unit) prog" where
  "log_event e = modify (\<lambda>s. s\<lparr>events := events s @ [e]\<rparr>)"

text \<open>
  A traversal visits its elements in order, stops at the first callback that does not return
  success and returns that status; otherwise it returns its own status.
\<close>

primrec visit :: "('a \<Rightarrow> ('s, hsa_status) prog) \<Rightarrow> 'a list \<Rightarrow> hsa_status \<Rightarrow> ('s, hsa_status) prog" where
  "visit callback [] st = ret st"
| "visit callback (x # xs) st =
     bind (callback x) (\<lambda>r. if r \<noteq> HSA_STATUS_SUCCESS then ret r else visit callback xs st)"

lemma hsa_call_run [exec]:
  "f (rt s) = (x, r) \<Longrightarrow> hsa_call e f s = (Inr x, s\<lparr>rt := r, events := events s @ [e x]\<rparr>)"
  by (simp add: hsa_call_def)

lemma hsa_query_run [exec]: "hsa_query f s = (Inr (f (rt s)), s)"
  by (simp add: hsa_query_def gets_def)

lemma log_event_run [exec]: "log_event e s = (Inr (), s\<lparr>events := events s @ [e]\<rparr>)"
  by (simp add: log_event_def modify_def)

end
