(* ===== verification/Dispatch.thy ===== *)
theory Dispatch
  imports Hsa
begin

text \<open>
  The classes \<open>Buffer\<close> and \<open>Dispatch\<close> of examples/common/dispatch.hpp and dispatch.cpp.
  A \<open>Dispatch\<close> object is the record of its members on top of the machine state; a subclass
  extends the record by its own members, and every operation works on any extension. Raw
  storage is explicit: the constructor writes the members the source initialises and leaves
  the others as they were.
\<close>

section \<open>Buffers\<close>

record buffer =
  buf_size :: u64
  local_ptr :: addr
  system_ptr :: addr

text \<open>The two constructors, \<open>Buffer(size, local, system)\<close> and \<open>Buffer(size, system)\<close>.\<close>

definition Buffer :: "u64 \<Rightarrow> addr \<Rightarrow> addr \<Rightarrow> buffer" where
  "Buffer sz lptr sptr =
     \<lparr>buf_size = sz, local_ptr = lptr, system_ptr = sptr\<rparr>"

definition Buffer_system :: "u64 \<Rightarrow> addr \<Rightarrow> buffer" where
  "Buffer_system sz sptr =
     \<lparr>buf_size = sz, local_ptr = sptr, system_ptr = sptr\<rparr>"

definition IsLocal :: "buffer \<Rightarrow> bool" where
  "IsLocal b \<longleftrightarrow> local_ptr b \<noteq> system_ptr b"

text \<open>\<open>Data<T>(i)\<close>, as the address of element \<open>i\<close> of the given object size.\<close>

definition Data :: "nat \<Rightarrow> buffer \<Rightarrow> nat \<Rightarrow> addr" where
  "Data width b i = elem_addr width (system_ptr b) i"

section \<open>The object\<close>

record 'r Dispatch = "'r machine" +
  agent :: u64
  cpu_agent :: u64
  queue_size :: u32
  queue :: "hsa_queue option"
  signal :: u64
  system_region :: u64
  kernarg_region :: u64
  local_region :: u64
  gpu_local_region :: u64
  aql :: u64
  packet_index :: u64
  group_static_size :: u32
  group_dynamic_size :: u32
  kernarg :: addr
  kernarg_offset :: u64
  code_object :: u64
  executable :: u64
  out_stream :: "item list"

type_synonym ('r, 'z, 'a) operation = "(('r, 'z) Dispatch_scheme, 'a) prog"

text \<open>
  The constructor. The members \<open>aql\<close>, \<open>packet_index\<close>, \<open>group_static_size\<close>,
  \<open>group_dynamic_size\<close>, \<open>kernarg\<close>, \<open>kernarg_offset\<close>, \<open>code_object\<close> and \<open>executable\<close>
  are not initialised and keep what the storage held; the stream is default constructed.
\<close>

definition Dispatch_Dispatch :: "('r, 'z) Dispatch_scheme \<Rightarrow> ('r, 'z) Dispatch_scheme" where
  "Dispatch_Dispatch storage = storage\<lparr>
     queue_size := 0, queue := None,
     agent := 0, cpu_agent := 0, signal := 0, kernarg_region := 0, system_region := 0,
     local_region := 0, gpu_local_region := 0, out_stream := []\<rparr>"

definition put :: "item list \<Rightarrow> ('r, 'z, unit) operation" where
  "put xs = modify (\<lambda>s. s\<lparr>out_stream := out_stream s @ xs\<rparr>)"

definition update_packet :: "(packet \<Rightarrow> packet) \<Rightarrow> ('r, 'z, unit) operation" where
  "update_packet f = modify (\<lambda>s. s\<lparr>ring := (ring s)(aql s := f (ring s (aql s)))\<rparr>)"

lemma put_run [exec]: "put xs s = (Inr (), s\<lparr>out_stream := out_stream s @ xs\<rparr>)"
  by (simp add: put_def modify_def)

lemma update_packet_run [exec]:
  "update_packet f s = (Inr (), s\<lparr>ring := (ring s)(aql s := f (ring s (aql s)))\<rparr>)"
  by (simp add: update_packet_def modify_def)

section \<open>Small members\<close>

definition HasAgent :: "('r, 'z) Dispatch_scheme \<Rightarrow> bool" where
  "HasAgent s \<longleftrightarrow> agent s \<noteq> 0"

definition SetAgent :: "u64 \<Rightarrow> ('r, 'z, unit) operation" where
  "SetAgent a = bind (gets agent) (\<lambda>old.
     bind (assert_that (old = 0)) (\<lambda>_. modify (\<lambda>s. s\<lparr>agent := a\<rparr>)))"

definition HasCpuAgent :: "('r, 'z) Dispatch_scheme \<Rightarrow> bool" where
  "HasCpuAgent s \<longleftrightarrow> cpu_agent s \<noteq> 0"

definition SetCpuAgent :: "u64 \<Rightarrow> ('r, 'z, unit) operation" where
  "SetCpuAgent a = bind (gets cpu_agent) (\<lambda>old.
     bind (assert_that (old = 0)) (\<lambda>_. modify (\<lambda>s. s\<lparr>cpu_agent := a\<rparr>)))"

definition SetSystemRegion :: "u64 \<Rightarrow> ('r, 'z, unit) operation" where
  "SetSystemRegion region = modify (\<lambda>s. s\<lparr>system_region := region\<rparr>)"

definition SetKernargRegion :: "u64 \<Rightarrow> ('r, 'z, unit) operation" where
  "SetKernargRegion region = modify (\<lambda>s. s\<lparr>kernarg_region := region\<rparr>)"

definition SetGPULocalRegion :: "u64 \<Rightarrow> ('r, 'z, unit) operation" where
  "SetGPULocalRegion region = modify (\<lambda>s. s\<lparr>gpu_local_region := region\<rparr>)"

definition SetLocalRegion :: "u64 \<Rightarrow> ('r, 'z, unit) operation" where
  "SetLocalRegion region = modify (\<lambda>s. s\<lparr>local_region := region\<rparr>)"

definition SetDynamicGroupSegmentSize :: "u32 \<Rightarrow> ('r, 'z, unit) operation" where
  "SetDynamicGroupSegmentSize sz = modify (\<lambda>s. s\<lparr>group_dynamic_size := sz\<rparr>)"

definition SetWorkgroupSize :: "u16 \<Rightarrow> u16 \<Rightarrow> u16 \<Rightarrow> ('r, 'z, unit) operation" where
  "SetWorkgroupSize sizeX sizeY sizeZ = update_packet (\<lambda>p. p\<lparr>
     workgroup_size_x := sizeX, workgroup_size_y := sizeY, workgroup_size_z := sizeZ\<rparr>)"

definition SetGridSize :: "u32 \<Rightarrow> u32 \<Rightarrow> u32 \<Rightarrow> ('r, 'z, unit) operation" where
  "SetGridSize sizeX sizeY sizeZ = update_packet (\<lambda>p. p\<lparr>
     grid_size_x := sizeX, grid_size_y := sizeY, grid_size_z := sizeZ\<rparr>)"

text \<open>
  \<open>HsaError\<close> reports a failed call on the object's stream and returns false; the status
  defaults to success, for which the text is "unknown error".
\<close>

definition HsaError :: "'r hsa \<Rightarrow> string \<Rightarrow> hsa_status \<Rightarrow> ('r, 'z, bool) operation" where
  "HsaError H msg status =
     (let err = (if status \<noteq> HSA_STATUS_SUCCESS then api_status_string H status else None)
      in bind (put [Str msg, Str '': '', Str (case err of Some e \<Rightarrow> e | None \<Rightarrow> ''unknown error''), Endl])
           (\<lambda>_. ret False))"

text \<open>The source's idiom \<open>if (status != HSA_STATUS_SUCCESS) { return HsaError(msg, status); }\<close>.\<close>

definition hsa_check ::
  "'r hsa \<Rightarrow> string \<Rightarrow> hsa_status \<Rightarrow> ('r, 'z, bool) operation \<Rightarrow> ('r, 'z, bool) operation" where
  "hsa_check H msg status rest =
     (if status \<noteq> HSA_STATUS_SUCCESS then HsaError H msg status else rest)"

section \<open>Initialisation\<close>

definition find_gpu_device :: "'r hsa \<Rightarrow> bool \<Rightarrow> u64 \<Rightarrow> ('r, 'z, hsa_status) operation" where
  "find_gpu_device H data_is_null a =
     (if data_is_null then ret HSA_STATUS_ERROR_INVALID_ARGUMENT else
      bind (hsa_query (api_agent_device H a)) (\<lambda>(hsa_error_code, hsa_device_type).
      if hsa_error_code \<noteq> HSA_STATUS_SUCCESS then ret hsa_error_code else
      bind (if hsa_device_type = HSA_DEVICE_TYPE_GPU
            then bind (gets HasAgent) (\<lambda>has. if \<not> has then SetAgent a else ret ())
            else ret ()) (\<lambda>_.
      bind (if hsa_device_type = HSA_DEVICE_TYPE_CPU
            then bind (gets HasCpuAgent) (\<lambda>has. if \<not> has then SetCpuAgent a else ret ())
            else ret ()) (\<lambda>_.
      ret HSA_STATUS_SUCCESS))))"

definition FindRegions :: "'r hsa \<Rightarrow> u64 \<Rightarrow> ('r, 'z, hsa_status) operation" where
  "FindRegions H region =
     bind (hsa_query (api_region_segment H region)) (\<lambda>segment_id.
     if segment_id \<noteq> HSA_REGION_SEGMENT_GLOBAL then ret HSA_STATUS_SUCCESS else
     bind (hsa_query (api_region_flags H region)) (\<lambda>flags.
     bind (hsa_query (api_region_host_accessible H region)) (\<lambda>host_accessible_region.
     bind (if flags AND REGION_GLOBAL_FLAG_FINE_GRAINED H \<noteq> 0
           then SetSystemRegion region else ret ()) (\<lambda>_.
     bind (if flags AND REGION_GLOBAL_FLAG_COARSE_GRAINED H \<noteq> 0
           then (if host_accessible_region then SetLocalRegion region else SetGPULocalRegion region)
           else ret ()) (\<lambda>_.
     bind (if flags AND REGION_GLOBAL_FLAG_KERNARG H \<noteq> 0
           then SetKernargRegion region else ret ()) (\<lambda>_.
     ret HSA_STATUS_SUCCESS))))))"

definition Init :: "'r hsa \<Rightarrow> ('r, 'z, bool) operation" where
  "Init H =
     bind (hsa_call (\<lambda>_. Ev_init) (api_init H)) (\<lambda>status.
     hsa_check H ''hsa_init failed'' status (
     bind (hsa_call (\<lambda>_. Ev_iterate_agents) (api_agents H)) (\<lambda>(agents, own_status).
     bind (visit (find_gpu_device H False) agents own_status) (\<lambda>status.
     bind (assert_that (status = HSA_STATUS_SUCCESS)) (\<lambda>_.
     bind (gets agent) (\<lambda>a.
     bind (hsa_query (api_agent_name H a)) (\<lambda>(status, agent_name).
     hsa_check H ''hsa_agent_get_info(HSA_AGENT_INFO_NAME) failed'' status (
     bind (put [Str ''Using agent: '', Str agent_name, Endl]) (\<lambda>_.
     bind (hsa_query (api_agent_queue_max_size H a)) (\<lambda>(status, max_size).
     hsa_check H ''hsa_agent_get_info(HSA_AGENT_INFO_QUEUE_MAX_SIZE) failed'' status (
     bind (modify (\<lambda>s. s\<lparr>queue_size := max_size\<rparr>)) (\<lambda>_.
     bind (hsa_call (\<lambda>_. Ev_queue_create a max_size) (api_queue_create H a max_size)) (\<lambda>(status, q).
     hsa_check H ''hsa_queue_create failed'' status (
     bind (modify (\<lambda>s. s\<lparr>queue := Some q\<rparr>)) (\<lambda>_.
     bind (hsa_call (\<lambda>_. Ev_signal_create 1) (api_signal_create H 1)) (\<lambda>(status, sig).
     hsa_check H ''hsa_signal_create failed'' status (
     bind (modify (\<lambda>s. s\<lparr>signal := sig\<rparr>)) (\<lambda>_.
     bind (hsa_call (\<lambda>_. Ev_iterate_regions a) (api_regions H a)) (\<lambda>(regions, own_status).
     bind (visit (FindRegions H) regions own_status) (\<lambda>status.
     hsa_check H ''Failed to iterate memory regions'' status (
     bind (gets kernarg_region) (\<lambda>kr.
     if kr = 0 then HsaError H ''Failed to find kernarg memory region'' HSA_STATUS_SUCCESS
     else ret True))))))))))))))))))))))"

section \<open>The packet\<close>

text \<open>
  \<open>InitDispatch\<close> claims the next packet of the ring and clears all of it but the first four
  bytes, the header and the setup fields.
\<close>

definition clear_packet :: "packet \<Rightarrow> packet" where
  "clear_packet p = \<lparr>pkt_header = pkt_header p, pkt_setup = pkt_setup p,
     workgroup_size_x = 0, workgroup_size_y = 0, workgroup_size_z = 0, reserved0 = 0,
     grid_size_x = 0, grid_size_y = 0, grid_size_z = 0,
     private_segment_size = 0, group_segment_size = 0,
     kernel_object = 0, kernarg_address = 0, reserved2 = 0, completion_signal = 0\<rparr>"

definition InitDispatch :: "'r hsa \<Rightarrow> ('r, 'z, bool) operation" where
  "InitDispatch H =
     bind (gets queue) (\<lambda>qp.
     bind (deref qp) (\<lambda>q.
     let queue_mask = q_size q - 1 in
     bind (hsa_call (\<lambda>_. Ev_add_write_index 1) (api_queue_add_write_index H 1)) (\<lambda>index.
     bind (modify (\<lambda>s. s\<lparr>packet_index := index, aql := index AND ucast queue_mask\<rparr>)) (\<lambda>_.
     bind (update_packet clear_packet) (\<lambda>_.
     bind (gets signal) (\<lambda>sig.
     bind (update_packet (\<lambda>p. p\<lparr>completion_signal := sig,
       workgroup_size_x := 1, workgroup_size_y := 1, workgroup_size_z := 1,
       grid_size_x := 1, grid_size_y := 1, grid_size_z := 1,
       group_segment_size := 0, private_segment_size := 0\<rparr>)) (\<lambda>_.
     ret True)))))))"

text \<open>The 16-bit header and the number of grid dimensions, as \<open>RunDispatch\<close> computes them.\<close>

definition packet_header :: "'z hsa_constants_scheme \<Rightarrow> u16" where
  "packet_header H = ucast
     (push_bit (PACKET_HEADER_TYPE H) (PACKET_TYPE_KERNEL_DISPATCH H) OR
      push_bit (PACKET_HEADER_BARRIER H) 1 OR
      push_bit (PACKET_HEADER_ACQUIRE_FENCE_SCOPE H) (FENCE_SCOPE_SYSTEM H) OR
      push_bit (PACKET_HEADER_RELEASE_FENCE_SCOPE H) (FENCE_SCOPE_SYSTEM H) :: u32)"

definition packet_dim :: "packet \<Rightarrow> u16" where
  "packet_dim p = (let dim = 1; dim = (if 1 < grid_size_y p then 2 else dim)
     in if 1 < grid_size_z p then 3 else dim)"

text \<open>The atomic store of the first four bytes of the packet.\<close>

definition store_header :: "u32 \<Rightarrow> ('r, 'z, unit) operation" where
  "store_header header32 =
     bind (update_packet (\<lambda>p. p\<lparr>pkt_header := ucast header32, pkt_setup := ucast (drop_bit 16 header32)\<rparr>)) (\<lambda>_.
     bind (gets aql) (\<lambda>slot. log_event (Ev_header_store slot header32)))"

definition RunDispatch :: "'r hsa \<Rightarrow> ('r, 'z, bool) operation" where
  "RunDispatch H =
     bind (gets (\<lambda>s. packet_dim (ring s (aql s)))) (\<lambda>dim.
     bind (gets (\<lambda>s. group_static_size s + group_dynamic_size s)) (\<lambda>group_size.
     bind (update_packet (\<lambda>p. p\<lparr>group_segment_size := group_size\<rparr>)) (\<lambda>_.
     let setup16 = push_bit (PACKET_SETUP_DIMENSIONS H) dim;
         header32 = ucast (packet_header H) OR push_bit 16 (ucast setup16) in
     bind (store_header header32) (\<lambda>_.
     bind (gets queue) (\<lambda>qp.
     bind (deref qp) (\<lambda>q.
     bind (gets packet_index) (\<lambda>index.
     bind (hsa_call (\<lambda>_. Ev_doorbell (q_doorbell q) index)
             (\<lambda>r. ((), api_signal_store H (q_doorbell q) index r))) (\<lambda>_.
     ret True))))))))"

section \<open>Waiting\<close>

definition TIMEOUT :: int where
  "TIMEOUT = 120"

definition read_clock :: "'r hsa \<Rightarrow> ('r, 'z, int) operation" where
  "read_clock H s = (Inr (fst (api_clock H (rt s))), s\<lparr>rt := snd (api_clock H (rt s))\<rparr>)"

definition hsa_signal_wait :: "'r hsa \<Rightarrow> u64 \<Rightarrow> ('r, 'z, u64) operation" where
  "hsa_signal_wait H sig s =
     (case api_signal_wait H sig (ring s) (mem s) (rt s) of ((result, ring', mem'), r) \<Rightarrow>
        (Inr result, s\<lparr>rt := r, ring := ring', mem := mem', events := events s @ [Ev_wait sig]\<rparr>))"

text \<open>One round of the loop of \<open>Wait\<close>: the value to return, if the loop ends here.\<close>

definition wait_round :: "'r hsa \<Rightarrow> int \<Rightarrow> ('r, 'z, bool option) operation" where
  "wait_round H beg =
     bind (gets signal) (\<lambda>sig.
     bind (hsa_signal_wait H sig) (\<lambda>result.
     bind (read_clock H) (\<lambda>now.
     let clocks = now - beg in
     if TIMEOUT * CLOCKS_PER_SEC H < clocks
     then bind (put [Str ''Kernel execution timed out, elapsed time: '', Unsigned (nat clocks), Endl])
            (\<lambda>_. ret (Some False))
     else ret (if result \<noteq> 0 then None else Some True))))"

definition Wait :: "'r hsa \<Rightarrow> ('r, 'z, bool) operation" where
  "Wait H = bind (read_clock H) (\<lambda>beg. repeat_until (wait_round H beg))"

section \<open>Memory\<close>

definition hsa_memory_allocate :: "'r hsa \<Rightarrow> u64 \<Rightarrow> u64 \<Rightarrow> ('r, 'z, hsa_status \<times> addr) operation" where
  "hsa_memory_allocate H region sz =
     hsa_call (\<lambda>(status, p). Ev_allocate region sz status p) (api_memory_allocate H region sz)"

definition hsa_memory_copy :: "'r hsa \<Rightarrow> addr \<Rightarrow> addr \<Rightarrow> u64 \<Rightarrow> ('r, 'z, hsa_status) operation" where
  "hsa_memory_copy H dest src sz s =
     (case api_memory_copy H dest src sz (mem s) (rt s) of ((status, m), r) \<Rightarrow>
        (Inr status, s\<lparr>rt := r, mem := m, events := events s @ [Ev_copy dest src sz]\<rparr>))"

text \<open>\<open>free\<close> of the C library.\<close>

definition free :: "addr \<Rightarrow> ('r, 'z, unit) operation" where
  "free p = log_event (Ev_free p)"

text \<open>
  The three allocators return the null pointer on failure, after reporting it.
\<close>

definition AllocateGPULocalMemory :: "'r hsa \<Rightarrow> u64 \<Rightarrow> ('r, 'z, addr) operation" where
  "AllocateGPULocalMemory H sz =
     bind (gets gpu_local_region) (\<lambda>region.
     bind (assert_that (region \<noteq> 0)) (\<lambda>_.
     bind (hsa_memory_allocate H region sz) (\<lambda>(status, p).
     if status \<noteq> HSA_STATUS_SUCCESS
     then bind (HsaError H ''hsa_memory_allocate(gpu_local_region) failed'' status) (\<lambda>_. ret 0)
     else ret p)))"

definition AllocateLocalMemory :: "'r hsa \<Rightarrow> u64 \<Rightarrow> ('r, 'z, addr) operation" where
  "AllocateLocalMemory H sz =
     bind (gets local_region) (\<lambda>region.
     bind (assert_that (region \<noteq> 0)) (\<lambda>_.
     bind (hsa_memory_allocate H region sz) (\<lambda>(status, p).
     if status \<noteq> HSA_STATUS_SUCCESS
     then bind (HsaError H ''hsa_memory_allocate(local_region) failed'' status) (\<lambda>_. ret 0)
     else ret p)))"

definition AllocateSystemMemory :: "'r hsa \<Rightarrow> u64 \<Rightarrow> ('r, 'z, addr) operation" where
  "AllocateSystemMemory H sz =
     bind (gets system_region) (\<lambda>region.
     bind (hsa_memory_allocate H region sz) (\<lambda>(status, p).
     if status \<noteq> HSA_STATUS_SUCCESS
     then bind (HsaError H ''hsa_memory_allocate(system_region) failed'' status) (\<lambda>_. ret 0)
     else ret p))"

definition CopyToLocal :: "'r hsa \<Rightarrow> addr \<Rightarrow> addr \<Rightarrow> u64 \<Rightarrow> ('r, 'z, bool) operation" where
  "CopyToLocal H dest src sz =
     bind (hsa_memory_copy H dest src sz) (\<lambda>status.
     hsa_check H ''hsa_memory_copy failed'' status (ret True))"

definition CopyFromLocal :: "'r hsa \<Rightarrow> addr \<Rightarrow> addr \<Rightarrow> u64 \<Rightarrow> ('r, 'z, bool) operation" where
  "CopyFromLocal H dest src sz =
     bind (gets cpu_agent) (\<lambda>cpu.
     bind (hsa_call (\<lambda>_. Ev_assign_agent src cpu) (api_memory_assign_agent H src cpu)) (\<lambda>status.
     hsa_check H ''hsa_memory_assign_agent failed'' status (
     bind (hsa_memory_copy H dest src sz) (\<lambda>status.
     hsa_check H ''hsa_memory_copy failed'' status (ret True)))))"

text \<open>The local half of \<open>AllocateBuffer\<close>: on failure the system memory is released.\<close>

definition with_local :: "addr \<Rightarrow> u64 \<Rightarrow> ('r, 'z, addr) operation \<Rightarrow> ('r, 'z, buffer option) operation" where
  "with_local system sz allocate =
     bind allocate (\<lambda>lp.
     if lp = 0 then bind (free system) (\<lambda>_. ret None)
     else ret (Some (Buffer sz lp system)))"

definition AllocateBuffer :: "'r hsa \<Rightarrow> u64 \<Rightarrow> bool \<Rightarrow> ('r, 'z, buffer option) operation" where
  "AllocateBuffer H sz prefer_gpu_local =
     bind (AllocateSystemMemory H sz) (\<lambda>system.
     if system = 0 then ret None else
     bind (gets gpu_local_region) (\<lambda>gpu_local.
     if prefer_gpu_local \<and> gpu_local \<noteq> 0 then with_local system sz (AllocateGPULocalMemory H sz) else
     bind (gets local_region) (\<lambda>lp.
     if lp \<noteq> 0 then with_local system sz (AllocateLocalMemory H sz)
     else if gpu_local \<noteq> 0 then with_local system sz (AllocateGPULocalMemory H sz)
     else ret (Some (Buffer_system sz system)))))"

definition CopyTo :: "'r hsa \<Rightarrow> buffer option \<Rightarrow> ('r, 'z, bool) operation" where
  "CopyTo H bp = bind (deref bp) (\<lambda>b.
     if IsLocal b then CopyToLocal H (local_ptr b) (system_ptr b) (buf_size b) else ret True)"

definition CopyFrom :: "'r hsa \<Rightarrow> buffer option \<Rightarrow> ('r, 'z, bool) operation" where
  "CopyFrom H bp = bind (deref bp) (\<lambda>b.
     if IsLocal b then CopyFromLocal H (system_ptr b) (local_ptr b) (buf_size b) else ret True)"

text \<open>\<open>b->Data<T>(i) = x\<close> and the value of \<open>b->Data<T>(i)\<close>, for \<open>T\<close> of \<open>w\<close> bytes.\<close>

definition write_data :: "nat \<Rightarrow> ('a \<Rightarrow> u8 list) \<Rightarrow> buffer option \<Rightarrow> nat \<Rightarrow> 'a \<Rightarrow> ('r, 'z, unit) operation" where
  "write_data w enc bp i x = bind (deref bp) (\<lambda>b.
     modify (\<lambda>s. s\<lparr>mem := store_bytes (Data w b i) (enc x) (mem s)\<rparr>))"

definition read_data :: "nat \<Rightarrow> (u8 list \<Rightarrow> 'a) \<Rightarrow> buffer option \<Rightarrow> nat \<Rightarrow> ('r, 'z, 'a) operation" where
  "read_data w dec bp i = bind (deref bp) (\<lambda>b. gets (\<lambda>s. dec (load_bytes (Data w b i) w (mem s))))"

section \<open>Kernel arguments\<close>

definition AllocateKernarg :: "'r hsa \<Rightarrow> u32 \<Rightarrow> ('r, 'z, bool) operation" where
  "AllocateKernarg H sz =
     bind (gets kernarg_region) (\<lambda>region.
     bind (hsa_memory_allocate H region (ucast sz)) (\<lambda>(status, p).
     hsa_check H ''Failed to allocate kernarg'' status (
     bind (modify (\<lambda>s. s\<lparr>kernarg := p\<rparr>)) (\<lambda>_.
     bind (update_packet (\<lambda>q. q\<lparr>kernarg_address := p\<rparr>)) (\<lambda>_.
     bind (modify (\<lambda>s. s\<lparr>kernarg_offset := 0\<rparr>)) (\<lambda>_.
     ret True))))))"

text \<open>The next multiple of \<open>align\<close>, in 64-bit arithmetic.\<close>

definition align_up :: "u64 \<Rightarrow> u64 \<Rightarrow> u64" where
  "align_up offset align = ((offset + align - 1) div align) * align"

text \<open>
  \<open>KernargRaw(ptr, size, align)\<close>, where \<open>src\<close> holds the bytes of the object \<open>ptr\<close> points to.
\<close>

definition KernargRaw :: "u8 list \<Rightarrow> u64 \<Rightarrow> u64 \<Rightarrow> ('r, 'z, unit) operation" where
  "KernargRaw src sz align =
     bind (assert_that (align AND (align - 1) = 0)) (\<lambda>_.
     if align = 0 then raise Division_by_zero else
     bind (modify (\<lambda>s. s\<lparr>kernarg_offset := align_up (kernarg_offset s) align\<rparr>)) (\<lambda>_.
     if length src < unat sz then raise Out_of_bounds else
     bind (modify (\<lambda>s. s\<lparr>mem :=
       store_bytes (kernarg s + kernarg_offset s) (take (unat sz) src) (mem s)\<rparr>)) (\<lambda>_.
     modify (\<lambda>s. s\<lparr>kernarg_offset := kernarg_offset s + sz\<rparr>))))"

text \<open>\<open>Kernarg(Buffer*)\<close> passes the eight bytes of the local pointer with their natural alignment.\<close>

definition Kernarg :: "buffer option \<Rightarrow> ('r, 'z, unit) operation" where
  "Kernarg bp = bind (deref bp) (\<lambda>b. KernargRaw (enc_u64 (local_ptr b)) 8 8)"

section \<open>Code objects\<close>

definition LoadCodeObjectFromFile :: "'r hsa \<Rightarrow> string \<Rightarrow> ('r, 'z, bool) operation" where
  "LoadCodeObjectFromFile H filename =
     bind (hsa_query (api_file H filename)) (\<lambda>file.
     case file of
       None \<Rightarrow> bind (put [Str ''Error: failed to load '', Str filename, Endl]) (\<lambda>_. ret False)
     | Some content \<Rightarrow>
         let sz = of_nat (length content) in
         bind (AllocateSystemMemory H sz) (\<lambda>ptr.
         if ptr = 0
         then bind (put [Str ''Error: failed to allocate memory for code object.'', Endl]) (\<lambda>_. ret False)
         else
         bind (modify (\<lambda>s. s\<lparr>mem := store_bytes ptr content (mem s)\<rparr>)) (\<lambda>_.
         bind (gets mem) (\<lambda>m.
         bind (hsa_call (\<lambda>_. Ev_deserialize ptr sz) (api_code_object_deserialize H ptr sz m)) (\<lambda>(status, co).
         hsa_check H ''Failed to deserialize code object'' status (
         bind (modify (\<lambda>s. s\<lparr>code_object := co\<rparr>)) (\<lambda>_. ret True)))))))"

text \<open>The virtual methods of the base class; a subclass overrides the first three.\<close>

definition SetupCodeObject :: "('r, 'z, bool) operation" where
  "SetupCodeObject = ret False"

definition Setup :: "('r, 'z, bool) operation" where
  "Setup = ret True"

definition Verify :: "('r, 'z, bool) operation" where
  "Verify = ret True"

definition SetupExecutable :: "'r hsa \<Rightarrow> ('r, 'z, bool) operation \<Rightarrow> ('r, 'z, bool) operation" where
  "SetupExecutable H vSetupCodeObject =
     bind vSetupCodeObject (\<lambda>ok.
     if \<not> ok then ret False else
     bind (hsa_call (\<lambda>_. Ev_executable_create) (api_executable_create H)) (\<lambda>(status, exe).
     hsa_check H ''hsa_executable_create failed'' status (
     bind (modify (\<lambda>s. s\<lparr>executable := exe\<rparr>)) (\<lambda>_.
     bind (gets agent) (\<lambda>a.
     bind (gets code_object) (\<lambda>co.
     bind (hsa_call (\<lambda>_. Ev_load_code_object exe a co) (api_executable_load_code_object H exe a co)) (\<lambda>status.
     hsa_check H ''hsa_executable_load_code_object failed'' status (
     bind (hsa_call (\<lambda>_. Ev_freeze exe) (api_executable_freeze H exe)) (\<lambda>status.
     hsa_check H ''hsa_executable_freeze failed'' status (
     bind (hsa_query (api_executable_get_symbol H exe ''hello_world'' a)) (\<lambda>(status, kernel_symbol).
     hsa_check H ''hsa_executable_get_symbol failed'' status (
     bind (hsa_query (api_symbol_kernel_object H kernel_symbol)) (\<lambda>(status, code_handle).
     hsa_check H ''hsa_executable_symbol_get_info failed'' status (
     bind (hsa_query (api_symbol_group_segment_size H kernel_symbol)) (\<lambda>(status, group_size).
     hsa_check H ''hsa_executable_symbol_get_info failed'' status (
     bind (modify (\<lambda>s. s\<lparr>group_static_size := group_size\<rparr>)) (\<lambda>_.
     bind (update_packet (\<lambda>p. p\<lparr>kernel_object := code_handle\<rparr>)) (\<lambda>_.
     ret True))))))))))))))))))"

section \<open>The run\<close>

text \<open>The short-circuit conjunction of two calls.\<close>

definition and_then :: "('s, bool) prog \<Rightarrow> ('s, bool) prog \<Rightarrow> ('s, bool) prog" where
  "and_then m n = bind m (\<lambda>ok. if ok then n else ret False)"

text \<open>\<open>Run\<close> on an object whose class gives the three virtual methods.\<close>

definition Run ::
  "'r hsa \<Rightarrow> ('r, 'z, bool) operation \<Rightarrow> ('r, 'z, bool) operation \<Rightarrow> ('r, 'z, bool) operation \<Rightarrow> ('r, 'z, bool) operation" where
  "Run H vSetupExecutable vSetup vVerify =
     bind (and_then (Init H)
          (and_then (InitDispatch H)
          (and_then vSetupExecutable
          (and_then vSetup
          (and_then (RunDispatch H)
          (and_then (Wait H)
                    vVerify)))))) (\<lambda>res.
     bind (gets out_stream) (\<lambda>out.
     bind (if out \<noteq> [] then modify (\<lambda>s. s\<lparr>cout := cout s @ out @ [Endl]\<rparr>) else ret ()) (\<lambda>_.
     bind (modify (\<lambda>s. s\<lparr>cout := cout s @ [Str (if res then ''Success'' else ''Failed''), Endl]\<rparr>)) (\<lambda>_.
     ret res))))"

definition RunMain ::
  "'r hsa \<Rightarrow> ('r, 'z, bool) operation \<Rightarrow> ('r, 'z, bool) operation \<Rightarrow> ('r, 'z, bool) operation \<Rightarrow> ('r, 'z, int) operation" where
  "RunMain H vSetupExecutable vSetup vVerify =
     bind (Run H vSetupExecutable vSetup vVerify) (\<lambda>res. ret (if res then 0 else 1))"

definition GetTimestampFrequency :: "'r hsa \<Rightarrow> ('r, 'z, u64) operation" where
  "GetTimestampFrequency H =
     bind (hsa_query (api_timestamp_frequency H)) (\<lambda>(status, frequency).
     if status \<noteq> HSA_STATUS_SUCCESS
     then bind (HsaError H ''hsa_system_get_info(HSA_SYSTEM_INFO_TIMESTAMP_FREQUENCY) failed'' status) (\<lambda>_. ret 0)
     else ret frequency)"

end
