(* ===== verification/Reference_Runtime.thy ===== *)
theory Reference_Runtime
  imports Dispatch
begin

text \<open>
  A small runtime that satisfies what the examples rely on: one CPU and one GPU agent, a queue of
  four packets, a fine grained region for system memory and kernel arguments and a coarse
  grained region the host cannot access, an allocator that hands out consecutive 4096-byte
  blocks, a clock that advances by one at each reading and each wait, and a device that runs a kernel
  to completion on the packet the doorbell names. It shows that hypotheses about the
  runtime can hold together, and it lets the examples run from end to end. The kernel is
  a parameter, a function of the packet and the memory.
\<close>

record ref_rt =
  next_block :: u64
  ticks :: int
  write_index :: u64
  rung :: "u64 option"

definition ref_start :: ref_rt where
  "ref_start = \<lparr>next_block = 0x1000, ticks = 0, write_index = 0, rung = None\<rparr>"

definition ref_allocate :: "u64 \<Rightarrow> u64 \<Rightarrow> ref_rt \<Rightarrow> (hsa_status \<times> addr) \<times> ref_rt" where
  "ref_allocate region n r =
     (if (region = 10 \<or> region = 11) \<and> n \<le> 0x1000
      then ((HSA_STATUS_SUCCESS, next_block r), r\<lparr>next_block := next_block r + 0x1000\<rparr>)
      else ((HSA_STATUS_ERROR_INVALID_ARGUMENT, 0), r))"

definition ref_wait ::
  "(packet \<Rightarrow> memory \<Rightarrow> memory) \<Rightarrow> u64 \<Rightarrow> ring \<Rightarrow> memory \<Rightarrow> ref_rt \<Rightarrow> (u64 \<times> ring \<times> memory) \<times> ref_rt" where
  "ref_wait exe sig rng m r =
     (case rung r of
        None \<Rightarrow> ((1, rng, m), r\<lparr>ticks := ticks r + 1\<rparr>)
      | Some i \<Rightarrow>
          let slot = i AND 3 in
          ((0, rng(slot := (rng slot)\<lparr>pkt_header := 1\<rparr>), exe (rng slot) m), r\<lparr>ticks := ticks r + 1, rung := None\<rparr>))"

definition ref_hsa :: "(packet \<Rightarrow> memory \<Rightarrow> memory) \<Rightarrow> ref_rt hsa" where
  "ref_hsa exe = \<lparr>
     REGION_GLOBAL_FLAG_KERNARG = 1, REGION_GLOBAL_FLAG_FINE_GRAINED = 2,
     REGION_GLOBAL_FLAG_COARSE_GRAINED = 4,
     PACKET_TYPE_KERNEL_DISPATCH = 2, FENCE_SCOPE_SYSTEM = 2,
     PACKET_HEADER_TYPE = 0, PACKET_HEADER_BARRIER = 8,
     PACKET_HEADER_ACQUIRE_FENCE_SCOPE = 9, PACKET_HEADER_RELEASE_FENCE_SCOPE = 11,
     PACKET_SETUP_DIMENSIONS = 0,
     CLOCKS_PER_SEC = 1000000,
     api_init = (\<lambda>r. (HSA_STATUS_SUCCESS, r)),
     api_status_string = (\<lambda>st. None),
     api_agents = (\<lambda>r. (([1, 2], HSA_STATUS_SUCCESS), r)),
     api_agent_device = (\<lambda>a r. (HSA_STATUS_SUCCESS,
       if a = 1 then HSA_DEVICE_TYPE_CPU else HSA_DEVICE_TYPE_GPU)),
     api_agent_name = (\<lambda>a r. (HSA_STATUS_SUCCESS, ''gfx803'')),
     api_agent_queue_max_size = (\<lambda>a r. (HSA_STATUS_SUCCESS, 4)),
     api_queue_create = (\<lambda>a n r. ((HSA_STATUS_SUCCESS, \<lparr>q_size = n, q_doorbell = 20\<rparr>), r)),
     api_queue_add_write_index = (\<lambda>n r. (write_index r, r\<lparr>write_index := write_index r + n\<rparr>)),
     api_signal_create = (\<lambda>v r. ((HSA_STATUS_SUCCESS, 21), r)),
     api_regions = (\<lambda>a r. (([10, 11], HSA_STATUS_SUCCESS), r)),
     api_region_segment = (\<lambda>g r. HSA_REGION_SEGMENT_GLOBAL),
     api_region_flags = (\<lambda>g r. if g = 10 then 3 else 4),
     api_region_host_accessible = (\<lambda>g r. g = 10),
     api_memory_allocate = ref_allocate,
     api_memory_copy = (\<lambda>dest src n m r.
       ((HSA_STATUS_SUCCESS, store_bytes dest (load_bytes src (unat n) m) m), r)),
     api_memory_assign_agent = (\<lambda>p a r. (HSA_STATUS_SUCCESS, r)),
     api_code_object_deserialize = (\<lambda>p n m r. ((HSA_STATUS_SUCCESS, 30), r)),
     api_executable_create = (\<lambda>r. ((HSA_STATUS_SUCCESS, 31), r)),
     api_executable_load_code_object = (\<lambda>x a c r. (HSA_STATUS_SUCCESS, r)),
     api_executable_freeze = (\<lambda>x r. (HSA_STATUS_SUCCESS, r)),
     api_executable_get_symbol = (\<lambda>x name a r. (HSA_STATUS_SUCCESS, 32)),
     api_symbol_kernel_object = (\<lambda>sym r. (HSA_STATUS_SUCCESS, 33)),
     api_symbol_group_segment_size = (\<lambda>sym r. (HSA_STATUS_SUCCESS, 0)),
     api_signal_store = (\<lambda>sig v r. if sig = 20 then r\<lparr>rung := Some v\<rparr> else r),
     api_signal_wait = ref_wait exe,
     api_timestamp_frequency = (\<lambda>r. (HSA_STATUS_SUCCESS, 27000000)),
     api_clock = (\<lambda>r. (ticks r, r\<lparr>ticks := ticks r + 1\<rparr>)),
     api_file = (\<lambda>name r. Some [0x7f, 0x45, 0x4c, 0x46])\<rparr>"

text \<open>
  Storage for an object on this runtime: the members the constructor leaves alone hold zeros, but for
  the size of dynamic group memory and the members of a subclass, which are given.
\<close>

definition ref_packet :: packet where
  "ref_packet = \<lparr>pkt_header = 1, pkt_setup = 0,
     workgroup_size_x = 0, workgroup_size_y = 0, workgroup_size_z = 0, reserved0 = 0,
     grid_size_x = 0, grid_size_y = 0, grid_size_z = 0,
     private_segment_size = 0, group_segment_size = 0,
     kernel_object = 0, kernarg_address = 0, reserved2 = 0, completion_signal = 0\<rparr>"

definition ref_storage :: "u32 \<Rightarrow> 'z \<Rightarrow> (ref_rt, 'z) Dispatch_scheme" where
  "ref_storage dynamic members = \<lparr>rt = ref_start, mem = (\<lambda>_. 0), ring = (\<lambda>_. ref_packet), events = [], cout = [],
     agent = 0, cpu_agent = 0, queue_size = 0, queue = None, signal = 0,
     system_region = 0, kernarg_region = 0, local_region = 0, gpu_local_region = 0,
     aql = 0, packet_index = 0, group_static_size = 0, group_dynamic_size = dynamic,
     kernarg = 0, kernarg_offset = 0, code_object = 0, executable = 0, out_stream = [], \<dots> = members\<rparr>"

definition ref_queue :: hsa_queue where
  "ref_queue = \<lparr>q_size = 4, q_doorbell = 20\<rparr>"

text \<open>The object after initialisation, with its queue and regions.\<close>

definition ref_object :: "u32 \<Rightarrow> 'z \<Rightarrow> (ref_rt, 'z) Dispatch_scheme" where
  "ref_object dynamic members = (Dispatch_Dispatch (ref_storage dynamic members))\<lparr>
     agent := 2, cpu_agent := 1, queue_size := 4, queue := Some ref_queue, signal := 21,
     system_region := 10, kernarg_region := 10, gpu_local_region := 11\<rparr>"

lemmas ref_defs = ref_hsa_def ref_object_def ref_storage_def Dispatch_Dispatch_def ref_queue_def ref_packet_def
  ref_start_def ref_allocate_def ref_wait_def

lemma ref_constants: "documented_constants (ref_hsa exe)"
  by (simp add: documented_constants_def ref_hsa_def)

lemma ref_copies: "copies_faithfully (ref_hsa exe)"
  by (simp add: copies_faithfully_def ref_hsa_def)

end
