(* ===== verification/Discovery.thy ===== *)
theory Discovery
  imports Reference_Runtime
begin

text \<open>
  What \<open>Dispatch::Init\<close> finds: the agents \<open>find_gpu_device\<close> selects, the regions
  \<open>FindRegions\<close> records, and the ways initialisation fails.
\<close>

section \<open>Agents\<close>

lemma SetAgent_run: "agent s = 0 \<Longrightarrow> SetAgent a s = (Inr (), s\<lparr>agent := a\<rparr>)"
  by (simp add: SetAgent_def exec)

lemma SetCpuAgent_run: "cpu_agent s = 0 \<Longrightarrow> SetCpuAgent a s = (Inr (), s\<lparr>cpu_agent := a\<rparr>)"
  by (simp add: SetCpuAgent_def exec)

text \<open>One callback: the first agent of each kind is kept, nothing else changes.\<close>

definition note_agent :: "hsa_device_type \<Rightarrow> u64 \<Rightarrow> ('r, 'z) Dispatch_scheme \<Rightarrow> ('r, 'z) Dispatch_scheme" where
  "note_agent dev a s = s\<lparr>
     agent := (if agent s = 0 \<and> dev = HSA_DEVICE_TYPE_GPU then a else agent s),
     cpu_agent := (if cpu_agent s = 0 \<and> dev = HSA_DEVICE_TYPE_CPU then a else cpu_agent s)\<rparr>"

lemma find_gpu_device_run:
  assumes "api_agent_device H a (rt s) = (st, dev)"
  shows "find_gpu_device H False a s =
    (if st = HSA_STATUS_SUCCESS then (Inr HSA_STATUS_SUCCESS, note_agent dev a s) else (Inr st, s))"
  using assms
  by (simp add: find_gpu_device_def exec HasAgent_def HasCpuAgent_def note_agent_def
      SetAgent_run SetCpuAgent_run)

lemma rt_note_agent [simp]: "rt (note_agent dev a s) = rt s"
  by (simp add: note_agent_def)

lemma visit_find_gpu_device:
  assumes "\<And>a. a \<in> set as \<Longrightarrow> api_agent_device H a (rt s) = (HSA_STATUS_SUCCESS, dev a)"
  shows "visit (find_gpu_device H False) as st s = (Inr st, fold (\<lambda>a. note_agent (dev a) a) as s)"
  using assms
proof (induction as arbitrary: s)
  case Nil
  then show ?case by (simp add: exec)
next
  case (Cons a as)
  then show ?case by (simp add: exec find_gpu_device_run [where dev = "dev a"])
qed

text \<open>The first element of a list that satisfies a predicate, or a default.\<close>

definition first_or :: "'a \<Rightarrow> ('a \<Rightarrow> bool) \<Rightarrow> 'a list \<Rightarrow> 'a" where
  "first_or d P xs = (case find P xs of None \<Rightarrow> d | Some x \<Rightarrow> x)"

lemma fold_note_agent:
  "fold (\<lambda>a. note_agent (dev a) a) as s = s\<lparr>
     agent := (if agent s = 0 then first_or 0 (\<lambda>a. dev a = HSA_DEVICE_TYPE_GPU \<and> a \<noteq> 0) as else agent s),
     cpu_agent := (if cpu_agent s = 0 then first_or 0 (\<lambda>a. dev a = HSA_DEVICE_TYPE_CPU \<and> a \<noteq> 0) as
       else cpu_agent s)\<rparr>"
proof (induction as arbitrary: s)
  case Nil
  then show ?case by (simp add: first_or_def)
next
  case (Cons a as)
  then show ?case by (auto simp: note_agent_def first_or_def)
qed

text \<open>
  Device discovery. Traversing agents whose device type can be queried never trips an
  assertion of \<open>SetAgent\<close> or \<open>SetCpuAgent\<close>; on a fresh object it selects the first GPU and
  the first CPU in traversal order and changes nothing else.
\<close>

theorem find_gpu_device_selects_first:
  assumes "\<And>a. a \<in> set as \<Longrightarrow> api_agent_device H a (rt s) = (HSA_STATUS_SUCCESS, dev a)"
    and "agent s = 0" and "cpu_agent s = 0"
  shows "visit (find_gpu_device H False) as st s = (Inr st, s\<lparr>
     agent := first_or 0 (\<lambda>a. dev a = HSA_DEVICE_TYPE_GPU \<and> a \<noteq> 0) as,
     cpu_agent := first_or 0 (\<lambda>a. dev a = HSA_DEVICE_TYPE_CPU \<and> a \<noteq> 0) as\<rparr>)"
  using visit_find_gpu_device [OF assms(1)] assms(2,3) by (simp add: fold_note_agent)

theorem find_gpu_device_selects_first_witness:
  "visit (find_gpu_device (ref_hsa (\<lambda>p m. m)) False) [3, 1, 2, 4] HSA_STATUS_SUCCESS (ref_storage 0 ())
    = (Inr HSA_STATUS_SUCCESS, (ref_storage 0 ())\<lparr>agent := 3, cpu_agent := 1\<rparr>)"
  using find_gpu_device_selects_first [where H = "ref_hsa (\<lambda>p m. m)" and s = "(ref_storage 0 ())"
      and dev = "\<lambda>a. if a = 1 then HSA_DEVICE_TYPE_CPU else HSA_DEVICE_TYPE_GPU"
      and as = "[3, 1, 2, 4]" and st = HSA_STATUS_SUCCESS]
  by (simp add: ref_hsa_def ref_storage_def first_or_def)

text \<open>
  A device query that fails ends the traversal with its status, the agents after it are
  not visited, and \<open>Init\<close> then fails its assertion.
\<close>

theorem find_gpu_device_stops:
  assumes "\<And>a. a \<in> set as \<Longrightarrow> api_agent_device H a (rt s) = (HSA_STATUS_SUCCESS, dev a)"
    and "api_agent_device H b (rt s) = (err, d)" and "err \<noteq> HSA_STATUS_SUCCESS"
  shows "visit (find_gpu_device H False) (as @ b # bs) st s
    = (Inr err, fold (\<lambda>a. note_agent (dev a) a) as s)"
  using assms
proof (induction as arbitrary: s)
  case Nil
  then show ?case by (simp add: exec find_gpu_device_run)
next
  case (Cons a as)
  then show ?case by (simp add: exec find_gpu_device_run [where dev = "dev a"])
qed

theorem find_gpu_device_stops_witness:
  "let H = (ref_hsa (\<lambda>p m. m))\<lparr>api_agent_device := \<lambda>a r.
       (if a = 9 then HSA_STATUS_OTHER 4096 else HSA_STATUS_SUCCESS, HSA_DEVICE_TYPE_GPU)\<rparr> in
   visit (find_gpu_device H False) ([2] @ 9 # [1]) HSA_STATUS_SUCCESS (ref_storage 0 ())
    = (Inr (HSA_STATUS_OTHER 4096), (ref_storage 0 ())\<lparr>agent := 2\<rparr>)"
  unfolding Let_def
  by (subst find_gpu_device_stops [where dev = "\<lambda>a. HSA_DEVICE_TYPE_GPU"
        and err = "HSA_STATUS_OTHER 4096" and d = HSA_DEVICE_TYPE_GPU])
     (simp_all add: note_agent_def ref_storage_def)

section \<open>Regions\<close>

text \<open>One callback: the region is recorded under every role its flags give it.\<close>

definition is_global :: "'r hsa \<Rightarrow> 'r \<Rightarrow> u64 \<Rightarrow> bool" where
  "is_global H r g \<longleftrightarrow> api_region_segment H g r = HSA_REGION_SEGMENT_GLOBAL"

definition has_flag :: "'r hsa \<Rightarrow> 'r \<Rightarrow> u32 \<Rightarrow> u64 \<Rightarrow> bool" where
  "has_flag H r flag g \<longleftrightarrow> is_global H r g \<and> api_region_flags H g r AND flag \<noteq> 0"

definition note_region :: "'r hsa \<Rightarrow> u64 \<Rightarrow> ('r, 'z) Dispatch_scheme \<Rightarrow> ('r, 'z) Dispatch_scheme" where
  "note_region H g s =
     (let coarse = has_flag H (rt s) (REGION_GLOBAL_FLAG_COARSE_GRAINED H) g;
          host = api_region_host_accessible H g (rt s) in s\<lparr>
     system_region :=
       (if has_flag H (rt s) (REGION_GLOBAL_FLAG_FINE_GRAINED H) g then g else system_region s),
     local_region := (if coarse \<and> host then g else local_region s),
     gpu_local_region := (if coarse \<and> \<not> host then g else gpu_local_region s),
     kernarg_region :=
       (if has_flag H (rt s) (REGION_GLOBAL_FLAG_KERNARG H) g then g else kernarg_region s)\<rparr>)"

lemma FindRegions_run: "FindRegions H g s = (Inr HSA_STATUS_SUCCESS, note_region H g s)"
  by (simp add: FindRegions_def exec note_region_def is_global_def has_flag_def Let_def
      SetSystemRegion_def SetLocalRegion_def SetGPULocalRegion_def SetKernargRegion_def)

lemma rt_note_region [simp]: "rt (note_region H g s) = rt s"
  by (simp add: note_region_def Let_def)

lemma visit_FindRegions: "visit (FindRegions H) gs st s = (Inr st, fold (note_region H) gs s)"
  by (induction gs arbitrary: s) (simp_all add: exec FindRegions_run)

text \<open>The last element of a list that satisfies a predicate, or a default.\<close>

definition last_or :: "'a \<Rightarrow> ('a \<Rightarrow> bool) \<Rightarrow> 'a list \<Rightarrow> 'a" where
  "last_or d P xs = first_or d P (rev xs)"

lemma last_or_Nil [simp]: "last_or d P [] = d"
  by (simp add: last_or_def first_or_def)

lemma last_or_Cons [simp]: "last_or d P (x # xs) = last_or (if P x then x else d) P xs"
  by (induction xs rule: rev_induct) (auto simp: last_or_def first_or_def)

lemma fold_note_region:
  "fold (note_region H) gs s = s\<lparr>
     system_region := last_or (system_region s) (has_flag H (rt s) (REGION_GLOBAL_FLAG_FINE_GRAINED H)) gs,
     local_region := last_or (local_region s)
       (\<lambda>g. has_flag H (rt s) (REGION_GLOBAL_FLAG_COARSE_GRAINED H) g \<and> api_region_host_accessible H g (rt s)) gs,
     gpu_local_region := last_or (gpu_local_region s)
       (\<lambda>g. has_flag H (rt s) (REGION_GLOBAL_FLAG_COARSE_GRAINED H) g \<and> \<not> api_region_host_accessible H g (rt s)) gs,
     kernarg_region := last_or (kernarg_region s) (has_flag H (rt s) (REGION_GLOBAL_FLAG_KERNARG H)) gs\<rparr>"
proof (induction gs arbitrary: s)
  case Nil
  then show ?case by simp
next
  case (Cons g gs)
  then show ?case by (simp add: note_region_def Let_def)
qed

text \<open>
  Region discovery. \<open>FindRegions\<close> never stops the traversal; after it each role belongs to
  the last region in traversal order with the matching flag in the global segment: fine
  grained for system memory, coarse grained for local memory, host accessible or not, and
  the kernarg flag for kernel arguments. A role without such a region keeps its value.
\<close>

theorem FindRegions_records_last:
  fixes s :: "('r, 'z) Dispatch_scheme"
  defines "r \<equiv> rt s"
  shows "visit (FindRegions H) gs st s = (Inr st, s\<lparr>
     system_region := last_or (system_region s) (has_flag H r (REGION_GLOBAL_FLAG_FINE_GRAINED H)) gs,
     local_region := last_or (local_region s)
       (\<lambda>g. has_flag H r (REGION_GLOBAL_FLAG_COARSE_GRAINED H) g \<and> api_region_host_accessible H g r) gs,
     gpu_local_region := last_or (gpu_local_region s)
       (\<lambda>g. has_flag H r (REGION_GLOBAL_FLAG_COARSE_GRAINED H) g \<and> \<not> api_region_host_accessible H g r) gs,
     kernarg_region := last_or (kernarg_region s) (has_flag H r (REGION_GLOBAL_FLAG_KERNARG H)) gs\<rparr>)"
  unfolding r_def by (simp only: visit_FindRegions fold_note_region)

section \<open>Initialisation\<close>

text \<open>What \<open>HsaError\<close> writes.\<close>

definition error_text :: "'r hsa \<Rightarrow> hsa_status \<Rightarrow> string" where
  "error_text H status =
     (if status = HSA_STATUS_SUCCESS then ''unknown error''
      else case api_status_string H status of None \<Rightarrow> ''unknown error'' | Some e \<Rightarrow> e)"

definition error_report :: "'r hsa \<Rightarrow> string \<Rightarrow> hsa_status \<Rightarrow> item list" where
  "error_report H msg status = [Str msg, Str '': '', Str (error_text H status), Endl]"

lemma HsaError_run [exec]:
  "HsaError H msg status s = (Inr False, s\<lparr>out_stream := out_stream s @ error_report H msg status\<rparr>)"
  by (simp add: HsaError_def Let_def exec error_report_def error_text_def split: option.split)

lemma hsa_check_run [exec]:
  "hsa_check H msg status rest s =
    (if status = HSA_STATUS_SUCCESS then rest s else HsaError H msg status s)"
  by (simp add: hsa_check_def)

text \<open>
  An initialisation that gives up writes an error report; before it there is at most the line that
  names the agent.
\<close>

definition agent_line :: "string \<Rightarrow> item list" where
  "agent_line name = [Str ''Using agent: '', Str name, Endl]"

definition reported :: "'r hsa \<Rightarrow> ('r, 'z) Dispatch_scheme \<Rightarrow> ('r, 'z) Dispatch_scheme \<Rightarrow> bool" where
  "reported H s t \<longleftrightarrow> (\<exists>xs msg st. out_stream t = out_stream s @ xs @ error_report H msg st \<and>
     (xs = [] \<or> (\<exists>name. xs = agent_line name)))"

lemma reported_early:
  "out_stream t = out_stream s @ error_report H msg st \<Longrightarrow> reported H s t"
  unfolding reported_def by (intro exI [of _ "[]"] exI [of _ msg] exI [of _ st]) simp

lemma reported_named:
  "out_stream t = out_stream s @ [Str ''Using agent: '', Str name, Endl] @ error_report H msg st \<Longrightarrow> reported H s t"
  unfolding reported_def agent_line_def
  by (intro exI [of _ "[Str ''Using agent: '', Str name, Endl]"] exI [of _ msg] exI [of _ st]) simp

lemma visit_agents:
  "\<exists>st a c. visit (find_gpu_device H False) as own s = (Inr st, s\<lparr>agent := a, cpu_agent := c\<rparr>)"
proof (induction as arbitrary: s)
  case Nil
  have "visit (find_gpu_device H False) [] own s
      = (Inr own, s\<lparr>agent := agent s, cpu_agent := cpu_agent s\<rparr>)"
    by (simp add: exec)
  then show ?case by blast
next
  case (Cons x as)
  obtain err dev where q: "api_agent_device H x (rt s) = (err, dev)" by fastforce
  show ?case
  proof (cases "err = HSA_STATUS_SUCCESS")
    case True
    obtain st a c where "visit (find_gpu_device H False) as own (note_agent dev x s)
        = (Inr st, (note_agent dev x s)\<lparr>agent := a, cpu_agent := c\<rparr>)"
      using Cons.IH [of "note_agent dev x s"] by (elim exE)
    then have "visit (find_gpu_device H False) (x # as) own s
        = (Inr st, s\<lparr>agent := a, cpu_agent := c\<rparr>)"
      using True by (simp add: exec find_gpu_device_run [OF q] note_agent_def)
    then show ?thesis by (intro exI)
  next
    case False
    then have "visit (find_gpu_device H False) (x # as) own s
        = (Inr err, s\<lparr>agent := agent s, cpu_agent := cpu_agent s\<rparr>)"
      by (simp add: exec find_gpu_device_run [OF q])
    then show ?thesis by (intro exI)
  qed
qed

text \<open>
  \<open>Init\<close> in terms of what its calls return: the first failure decides the result.
\<close>

definition fail :: "'r hsa \<Rightarrow> string \<Rightarrow> hsa_status \<Rightarrow> ('r, 'z) Dispatch_scheme \<Rightarrow> (fault + bool) \<times> ('r, 'z) Dispatch_scheme" where
  "fail H msg st s = (Inr False, s\<lparr>out_stream := out_stream s @ error_report H msg st\<rparr>)"

lemma Init_run:
  assumes init: "api_init H (rt s) = (st1, r1)"
    and agents: "api_agents H r1 = ((as, own), r2)"
    and visit: "visit (find_gpu_device H False) as own (s\<lparr>rt := r2, events := events s @ [Ev_init, Ev_iterate_agents]\<rparr>)
      = (Inr st2, s\<lparr>rt := r2, events := events s @ [Ev_init, Ev_iterate_agents], agent := a, cpu_agent := c\<rparr>)"
    and name: "api_agent_name H a r2 = (st3, name)"
    and max_size: "api_agent_queue_max_size H a r2 = (st4, n)"
    and create: "api_queue_create H a n r2 = ((st5, q), r5)"
    and signal: "api_signal_create H 1 r5 = ((st6, sig), r6)"
    and regions: "api_regions H a r6 = ((gs, st7), r7)"
  defines "s1 \<equiv> s\<lparr>rt := r2, events := events s @ [Ev_init, Ev_iterate_agents], agent := a, cpu_agent := c\<rparr>"
  defines "s2 \<equiv> s1\<lparr>out_stream := out_stream s @ [Str ''Using agent: '', Str name, Endl]\<rparr>"
  defines "s3 \<equiv> s2\<lparr>queue_size := n, rt := r5, events := events s1 @ [Ev_queue_create a n]\<rparr>"
  defines "s4 \<equiv> s3\<lparr>queue := Some q, rt := r6, events := events s3 @ [Ev_signal_create 1]\<rparr>"
  defines "s5 \<equiv> s4\<lparr>signal := sig, rt := r7, events := events s4 @ [Ev_iterate_regions a]\<rparr>"
  defines "s6 \<equiv> fold (note_region H) gs s5"
  shows "Init H s =
    (if st1 \<noteq> HSA_STATUS_SUCCESS
     then fail H ''hsa_init failed'' st1 (s\<lparr>rt := r1, events := events s @ [Ev_init]\<rparr>)
     else if st2 \<noteq> HSA_STATUS_SUCCESS then (Inl Assertion_failed, s1)
     else if st3 \<noteq> HSA_STATUS_SUCCESS
     then fail H ''hsa_agent_get_info(HSA_AGENT_INFO_NAME) failed'' st3 s1
     else if st4 \<noteq> HSA_STATUS_SUCCESS
     then fail H ''hsa_agent_get_info(HSA_AGENT_INFO_QUEUE_MAX_SIZE) failed'' st4 s2
     else if st5 \<noteq> HSA_STATUS_SUCCESS then fail H ''hsa_queue_create failed'' st5 s3
     else if st6 \<noteq> HSA_STATUS_SUCCESS then fail H ''hsa_signal_create failed'' st6 s4
     else if st7 \<noteq> HSA_STATUS_SUCCESS then fail H ''Failed to iterate memory regions'' st7 s6
     else if kernarg_region s6 = 0
     then fail H ''Failed to find kernarg memory region'' HSA_STATUS_SUCCESS s6
     else (Inr True, s6))"
  using init agents visit name max_size create signal regions
  by (simp add: Init_def exec fail_def visit_FindRegions
      s1_def s2_def s3_def s4_def s5_def s6_def)

text \<open>
  What holds after a successful initialisation: every call succeeded, each given what the calls before
  it returned, and the object holds the results.
\<close>

definition init_done :: "'r hsa \<Rightarrow> ('r, 'z) Dispatch_scheme \<Rightarrow> ('r, 'z) Dispatch_scheme \<Rightarrow> bool" where
  "init_done H s t \<longleftrightarrow> (\<exists>r1 as own r2 name size q r3 sig r4 regions.
     api_init H (rt s) = (HSA_STATUS_SUCCESS, r1) \<and>
     api_agents H r1 = ((as, own), r2) \<and>
     api_agent_name H (agent t) r2 = (HSA_STATUS_SUCCESS, name) \<and>
     api_agent_queue_max_size H (agent t) r2 = (HSA_STATUS_SUCCESS, size) \<and> queue_size t = size \<and>
     api_queue_create H (agent t) size r2 = ((HSA_STATUS_SUCCESS, q), r3) \<and> queue t = Some q \<and>
     api_signal_create H 1 r3 = ((HSA_STATUS_SUCCESS, sig), r4) \<and> signal t = sig \<and>
     api_regions H (agent t) r4 = ((regions, HSA_STATUS_SUCCESS), rt t) \<and>
     kernarg_region t = last_or (kernarg_region s) (has_flag H (rt t) (REGION_GLOBAL_FLAG_KERNARG H)) regions \<and>
     kernarg_region t \<noteq> 0 \<and>
     events t = events s @ [Ev_init, Ev_iterate_agents, Ev_queue_create (agent t) size,
       Ev_signal_create 1, Ev_iterate_regions (agent t)] \<and>
     out_stream t = out_stream s @ agent_line name)"

lemma Init_cases:
  "case Init H s of
     (Inr True, t) \<Rightarrow> init_done H s t \<and> Dispatch.more t = Dispatch.more s \<and> ring t = ring s \<and> mem t = mem s \<and> cout t = cout s
   | (Inr False, t) \<Rightarrow> reported H s t \<and> ring t = ring s \<and> mem t = mem s \<and> cout t = cout s
   | (Inl e, t) \<Rightarrow> e = Assertion_failed \<and> events t = events s @ [Ev_init, Ev_iterate_agents] \<and>
       out_stream t = out_stream s \<and> ring t = ring s \<and> mem t = mem s \<and> cout t = cout s"
proof -
  obtain st1 r1 where init: "api_init H (rt s) = (st1, r1)" by fastforce
  obtain as own r2 where agents: "api_agents H r1 = ((as, own), r2)" by (metis surj_pair)
  obtain st2 a c where visit: "visit (find_gpu_device H False) as own
      (s\<lparr>rt := r2, events := events s @ [Ev_init, Ev_iterate_agents]\<rparr>)
    = (Inr st2, s\<lparr>rt := r2, events := events s @ [Ev_init, Ev_iterate_agents], agent := a, cpu_agent := c\<rparr>)"
    using visit_agents by blast
  obtain st3 name where name: "api_agent_name H a r2 = (st3, name)" by fastforce
  obtain st4 n where max_size: "api_agent_queue_max_size H a r2 = (st4, n)" by fastforce
  obtain st5 q r5 where create: "api_queue_create H a n r2 = ((st5, q), r5)" by (metis surj_pair)
  obtain st6 sig r6 where signal: "api_signal_create H 1 r5 = ((st6, sig), r6)" by (metis surj_pair)
  obtain gs st7 r7 where regions: "api_regions H a r6 = ((gs, st7), r7)" by (metis surj_pair)
  show ?thesis
    unfolding Init_run [OF init agents visit name max_size create signal regions]
    using init agents name max_size create signal regions
    by (auto simp: fail_def fold_note_region init_done_def agent_line_def intro: reported_early reported_named)
qed

text \<open>
  C26. \<open>Init\<close> ends in one of three ways. It returns true: every call succeeded, the queue and the
  signal are created by exactly these calls, in this order, on the selected agent and with the queue
  size that agent reported, the object holds what they returned, a kernarg region is known, the last
  one listed that has the flag, one line naming the agent is written, and the members of the
  subclass are as before. It returns false: the last
  thing it wrote is an error report, with at most the agent's line before it. Or the assertion on
  the agent traversal fails, before anything but the two first calls. Memory, the packet ring
  and the standard output are untouched.
\<close>

theorem Init_outcome:
  "case Init H s of
     (Inr True, t) \<Rightarrow> init_done H s t \<and> Dispatch.more t = Dispatch.more s \<and> ring t = ring s \<and> mem t = mem s \<and> cout t = cout s
   | (Inr False, t) \<Rightarrow> reported H s t \<and> ring t = ring s \<and> mem t = mem s \<and> cout t = cout s
   | (Inl e, t) \<Rightarrow> e = Assertion_failed \<and> events t = events s @ [Ev_init, Ev_iterate_agents] \<and>
       out_stream t = out_stream s \<and> ring t = ring s \<and> mem t = mem s \<and> cout t = cout s"
  by (rule Init_cases)

end
