(* ===== verification/Kernargs.thy ===== *)
theory Kernargs
  imports Discovery
begin

text \<open>
  The kernel argument segment: \<open>KernargRaw\<close> lays its arguments out like the members of a C
  structure, and \<open>Kernarg\<close> passes a buffer by its device address. The layout is stated on
  natural numbers; the operations compute it with 64-bit words.
\<close>

section \<open>Alignment\<close>

lemma pow2_less_64: "k < 64 \<Longrightarrow> (2::nat) ^ k < 2 ^ 64"
  by (rule power_strict_increasing) simp_all

text \<open>The least multiple of \<open>a\<close> that is not below \<open>n\<close>.\<close>

definition align_nat :: "nat \<Rightarrow> nat \<Rightarrow> nat" where
  "align_nat n a = (n + a - 1) div a * a"

lemma align_nat_dvd: "a dvd align_nat n a"
  by (simp add: align_nat_def)

lemma align_nat_ge: "0 < a \<Longrightarrow> n \<le> align_nat n a"
  using div_mult_mod_eq [of "n + a - 1" a] mod_less_divisor [of a "n + a - 1"]
  unfolding align_nat_def by linarith

lemma align_nat_less: "0 < a \<Longrightarrow> align_nat n a < n + a"
  using div_times_less_eq_dividend [of "n + a - 1" a] unfolding align_nat_def by linarith

lemma pred_div: "0 < a \<Longrightarrow> (a * q + a - 1) div a = q" for a :: nat
  using div_mult_self2 [of a "a - 1" q] by (simp add: add.commute)

lemma align_nat_id: "0 < a \<Longrightarrow> a dvd n \<Longrightarrow> align_nat n a = n"
  unfolding align_nat_def by (elim dvdE, hypsubst, subst pred_div) simp_all

lemma align_nat_le:
  assumes "0 < a" and "a dvd m" and "n \<le> m"
  shows "align_nat n a \<le> m"
proof -
  obtain q where m: "m = a * q" using assms(2) by (elim dvdE)
  have "(n + a - 1) div a \<le> (m + a - 1) div a" using assms(3) by (intro div_le_mono) simp
  also have "\<dots> = q" unfolding m by (rule pred_div [OF assms(1)])
  finally show ?thesis by (simp add: align_nat_def m mult.commute)
qed

lemma of_nat_div:
  assumes "n < 2 ^ LENGTH('a)" and "m < 2 ^ LENGTH('a)"
  shows "(of_nat n :: 'a::len word) div of_nat m = of_nat (n div m)"
proof (rule word_unat_eq_iff [THEN iffD2])
  have "n div m < 2 ^ LENGTH('a)" by (rule le_less_trans [OF div_le_dividend assms(1)])
  then show "unat ((of_nat n :: 'a word) div of_nat m) = unat (of_nat (n div m) :: 'a word)"
    using assms by (simp add: unat_div)
qed

text \<open>No wrap-around, as long as the aligned offset itself fits in a word.\<close>

lemma align_up_nat:
  assumes "a = 2 ^ k" and "k < 64" and "align_nat n a < 2 ^ 64"
  shows "align_up (of_nat n) (of_nat a) = (of_nat (align_nat n a) :: u64)"
proof -
  have a: "0 < a" using assms(1) by simp
  define q where "q = (n + a - 1) div a"
  have q: "align_nat n a = q * a" by (simp add: align_nat_def q_def)
  have pow: "(2::nat) ^ 64 = 2 ^ (64 - k) * a"
    using assms(1,2) by (simp flip: power_add)
  have "q < 2 ^ (64 - k)" using assms(3) a unfolding q pow by simp
  then have "q * a + a \<le> 2 ^ 64" using mult_le_mono1 [of "Suc q" "2 ^ (64 - k)" a] unfolding pow by simp
  then have lt: "n + a - 1 < 2 ^ 64" using align_nat_ge [OF a, of n] a unfolding q by linarith
  have a_lt: "a < 2 ^ 64" unfolding assms(1) by (rule pow2_less_64 [OF assms(2)])
  have "(of_nat n + of_nat a - 1 :: u64) = of_nat (n + a - 1)" using a by (simp add: of_nat_diff)
  moreover have "(of_nat (n + a - 1) :: u64) div of_nat a = of_nat ((n + a - 1) div a)"
    using lt a_lt by (intro of_nat_div) simp_all
  ultimately show ?thesis
    unfolding align_up_def align_nat_def by (simp only: of_nat_mult)
qed

subsection \<open>The test for a power of two\<close>

lemma and_even_odd: "2 * m AND (1 + 2 * b) = 2 * (m AND b)" for m b :: nat
proof (rule bit_eqI)
  fix n
  show "bit (2 * m AND (1 + 2 * b)) n \<longleftrightarrow> bit (2 * (m AND b)) n"
    unfolding bit_and_iff by (cases n) (simp_all add: bit_0 bit_Suc bit_and_iff)
qed

lemma and_odd_even: "(1 + 2 * m) AND 2 * b = 2 * (m AND b)" for m b :: nat
  using and_even_odd [of b m] by (simp add: and.commute)

lemma nat_and_pred_pow2: "0 < n \<Longrightarrow> n AND (n - 1) = 0 \<Longrightarrow> \<exists>k. n = 2 ^ k" for n :: nat
proof (induction n rule: less_induct)
  case (less n)
  show ?case
  proof (cases "even n")
    case True
    then obtain m where n: "n = 2 * m" and m: "0 < m" using less.prems(1) by (auto elim: evenE)
    then have pred: "n - 1 = 1 + 2 * (m - 1)" by simp
    have "2 * (m AND (m - 1)) = n AND (n - 1)"
      unfolding pred by (simp only: n and_even_odd)
    then have "m AND (m - 1) = 0" using less.prems(2) by simp
    then obtain k where "m = 2 ^ k" using less.IH [of m] n m by auto
    then have "n = 2 ^ Suc k" using n by simp
    then show ?thesis by (rule exI)
  next
    case False
    then obtain m where n: "n = 1 + 2 * m" by (auto elim: oddE)
    then have "n - 1 = 2 * m" by simp
    then have "n AND (n - 1) = 2 * (m AND m)" by (simp only: n and_odd_even)
    then have "n = 2 ^ 0" using less.prems(2) n by simp
    then show ?thesis by (rule exI)
  qed
qed

lemma and_pred_eq_0_iff:
  "(w :: u64) AND (w - 1) = 0 \<longleftrightarrow> w = 0 \<or> (\<exists>k<64. w = 2 ^ k)"
proof
  assume w: "w AND (w - 1) = 0"
  show "w = 0 \<or> (\<exists>k<64. w = 2 ^ k)"
  proof (cases "w = 0")
    case False
    have "unat w AND (unat w - 1) = unat (w AND (w - 1))"
      using False by (simp add: unsigned_and_eq unat_minus_one)
    then obtain k where k: "unat w = 2 ^ k"
      using nat_and_pred_pow2 [of "unat w"] w False by (auto simp: unat_gt_0)
    have "(2::nat) ^ k < 2 ^ 64" using unat_less_2p [of w] by (simp add: k)
    then have "k < 64" by (subst (asm) power_strict_increasing_iff) simp_all
    moreover have "w = 2 ^ k" using arg_cong [OF k, of "of_nat :: nat \<Rightarrow> u64"] by simp
    ultimately show ?thesis by blast
  qed simp
next
  assume "w = 0 \<or> (\<exists>k<64. w = 2 ^ k)"
  then show "w AND (w - 1) = 0"
  proof (elim disjE exE conjE)
    fix k assume "k < (64::nat)" and w: "w = 2 ^ k"
    have "w - 1 = mask k" by (simp add: w mask_eq_exp_minus_1)
    moreover have "w = push_bit k 1" by (simp add: w push_bit_eq_mult)
    ultimately show ?thesis by (simp only:) (rule bit_word_eqI, auto simp: bit_simps)
  qed simp
qed

section \<open>One argument\<close>

lemma KernargRaw_run:
  assumes "a = 2 ^ k" and "k < 64" and "kernarg_offset s = of_nat n" and "align_nat n a < 2 ^ 64"
    and "length src < 2 ^ 64"
  shows "KernargRaw src (of_nat (length src)) (of_nat a) s = (Inr (), s\<lparr>
    kernarg_offset := of_nat (align_nat n a + length src),
    mem := store_bytes (kernarg s + of_nat (align_nat n a)) src (mem s)\<rparr>)"
proof -
  have "(of_nat a :: u64) AND (of_nat a - 1) = 0"
    using assms(1,2) by (simp add: and_pred_eq_0_iff) blast
  moreover have "(of_nat a :: u64) \<noteq> 0"
  proof -
    have "a < 2 ^ LENGTH(64)" using pow2_less_64 [OF assms(2)] assms(1) by simp
    then have "unat (of_nat a :: u64) = a" by (rule unat_of_nat_lt)
    then have "of_nat a = (0 :: u64) \<Longrightarrow> a = 0" by (metis unat_0)
    then show ?thesis using assms(1) by auto
  qed
  moreover have "unat (of_nat (length src) :: u64) = length src"
    using assms(5) by (intro unat_of_nat_lt) simp
  ultimately show ?thesis
    by (simp add: KernargRaw_def exec assms(3) align_up_nat [OF assms(1,2,4)])
qed

text \<open>
  An alignment that is not a power of two fails the assertion of \<open>KernargRaw\<close>, except 0,
  which passes it and divides by zero; every power of two passes. No argument is written
  in the two failing cases.
\<close>

theorem KernargRaw_alignment:
  "KernargRaw src sz al s =
    (if al = 0 then (Inl Division_by_zero, s)
     else if \<exists>k<64. al = 2 ^ k
     then (if length src < unat sz
           then (Inl Out_of_bounds, s\<lparr>kernarg_offset := align_up (kernarg_offset s) al\<rparr>)
           else (Inr (), s\<lparr>kernarg_offset := align_up (kernarg_offset s) al + sz,
             mem := store_bytes (kernarg s + align_up (kernarg_offset s) al) (take (unat sz) src) (mem s)\<rparr>))
     else (Inl Assertion_failed, s))"
  using and_pred_eq_0_iff [of al] by (cases "al AND (al - 1) = 0") (auto simp: KernargRaw_def exec)

section \<open>Argument lists\<close>

text \<open>
  The layout of a list of arguments, each given by its bytes and its alignment: the offset of
  each, and the offset after the last.
\<close>

type_synonym arg = "u8 list \<times> nat"

fun arg_offsets :: "nat \<Rightarrow> arg list \<Rightarrow> nat list" where
  "arg_offsets n [] = []"
| "arg_offsets n ((bs, a) # xs) = align_nat n a # arg_offsets (align_nat n a + length bs) xs"

fun arg_end :: "nat \<Rightarrow> arg list \<Rightarrow> nat" where
  "arg_end n [] = n"
| "arg_end n ((bs, a) # xs) = arg_end (align_nat n a + length bs) xs"

definition valid_arg :: "arg \<Rightarrow> bool" where
  "valid_arg x \<longleftrightarrow> (\<exists>k<64. snd x = 2 ^ k)"

definition push_args :: "arg list \<Rightarrow> ('r, 'z, unit) operation" where
  "push_args xs = for_each xs (\<lambda>(bs, a). KernargRaw bs (of_nat (length bs)) (of_nat a))"

lemma valid_arg_pow2: "a = 2 ^ k \<Longrightarrow> k < 64 \<Longrightarrow> valid_arg (b, a)"
  by (auto simp: valid_arg_def)

lemma length_arg_offsets [simp]: "length (arg_offsets n xs) = length xs"
  by (induction xs arbitrary: n) auto

lemma arg_end_ge: "\<forall>x\<in>set xs. valid_arg x \<Longrightarrow> n \<le> arg_end n xs"
proof (induction xs arbitrary: n)
  case (Cons x xs)
  obtain bs a where x: "x = (bs, a)" by fastforce
  have "0 < a" using Cons.prems by (auto simp: x valid_arg_def)
  then have "n \<le> align_nat n a + length bs" using align_nat_ge [of a n] by simp
  also have "\<dots> \<le> arg_end (align_nat n a + length bs) xs" using Cons by simp
  finally show ?case by (simp add: x)
qed simp

lemma arg_offsets_bounds:
  assumes "\<forall>x\<in>set xs. valid_arg x" and "i < length xs"
  shows "n \<le> arg_offsets n xs ! i"
    and "arg_offsets n xs ! i + length (fst (xs ! i)) \<le> arg_end n xs"
    and "snd (xs ! i) dvd arg_offsets n xs ! i"
proof -
  have "n \<le> arg_offsets n xs ! i \<and> arg_offsets n xs ! i + length (fst (xs ! i)) \<le> arg_end n xs
      \<and> snd (xs ! i) dvd arg_offsets n xs ! i"
    using assms
  proof (induction xs arbitrary: n i)
    case (Cons x xs)
    obtain bs a where x: "x = (bs, a)" by fastforce
    have a: "0 < a" using Cons.prems by (auto simp: x valid_arg_def)
    have e: "align_nat n a + length bs \<le> arg_end (align_nat n a + length bs) xs"
      using Cons.prems by (intro arg_end_ge) simp
    show ?case
    proof (cases i)
      case 0
      then show ?thesis using align_nat_ge [OF a, of n] align_nat_dvd [of a n] e by (simp add: x)
    next
      case (Suc j)
      then show ?thesis
        using Cons.IH [of j "align_nat n a + length bs"] Cons.prems align_nat_ge [OF a, of n]
        by (simp add: x)
    qed
  qed simp
  then show "n \<le> arg_offsets n xs ! i"
    and "arg_offsets n xs ! i + length (fst (xs ! i)) \<le> arg_end n xs"
    and "snd (xs ! i) dvd arg_offsets n xs ! i" by blast+
qed

text \<open>The memory after the arguments are stored one after the other.\<close>

fun store_args :: "addr \<Rightarrow> nat \<Rightarrow> arg list \<Rightarrow> memory \<Rightarrow> memory" where
  "store_args p n [] m = m"
| "store_args p n ((bs, a) # xs) m =
     store_args p (align_nat n a + length bs) xs (store_bytes (p + of_nat (align_nat n a)) bs m)"

lemma push_args_run:
  assumes "\<forall>x\<in>set xs. valid_arg x" and "kernarg_offset s = of_nat n" and "arg_end n xs < 2 ^ 64"
  shows "push_args xs s = (Inr (), s\<lparr>kernarg_offset := of_nat (arg_end n xs),
    mem := store_args (kernarg s) n xs (mem s)\<rparr>)"
  using assms
proof (induction xs arbitrary: n s)
  case Nil
  then show ?case by (simp add: push_args_def exec)
next
  case (Cons x xs)
  obtain bs a where x: "x = (bs, a)" by fastforce
  obtain k where k: "a = 2 ^ k" "k < 64" using Cons.prems by (auto simp: x valid_arg_def)
  have "align_nat n a + length bs \<le> arg_end n (x # xs)"
    using Cons.prems by (simp add: x arg_end_ge)
  then have lt: "align_nat n a < 2 ^ 64" "length bs < 2 ^ 64" using Cons.prems(3) by linarith+
  have "push_args xs (s\<lparr>kernarg_offset := of_nat (align_nat n a + length bs),
      mem := store_bytes (kernarg s + of_nat (align_nat n a)) bs (mem s)\<rparr>)
    = (Inr (), s\<lparr>kernarg_offset := of_nat (arg_end n (x # xs)), mem := store_args (kernarg s) n (x # xs) (mem s)\<rparr>)"
    using Cons.prems by (subst Cons.IH [where n = "align_nat n a + length bs"]) (auto simp: x)
  then show ?case
    unfolding push_args_def
    by (simp add: x bind_run KernargRaw_run [OF k Cons.prems(2) lt] del: of_nat_add)
qed

lemma store_args_before:
  assumes "\<forall>x\<in>set xs. valid_arg x" and "i + l \<le> n" and "arg_end n xs \<le> 2 ^ 64"
  shows "load_bytes (p + of_nat i) l (store_args p n xs m) = load_bytes (p + of_nat i) l m"
  using assms
proof (induction xs arbitrary: n m)
  case (Cons x xs)
  obtain bs a where x: "x = (bs, a)" by fastforce
  have a: "0 < a" using Cons.prems by (auto simp: x valid_arg_def)
  let ?q = "align_nat n a"
  have "i + l \<le> ?q" using align_nat_ge [OF a, of n] Cons.prems(2) by simp
  moreover have "?q + length bs \<le> 2 ^ 64"
    using Cons.prems arg_end_ge [of xs "?q + length bs"] by (simp add: x)
  ultimately have "apart (p + of_nat i) l (p + of_nat ?q) (length bs)" by (intro apart_offsets)
  then show ?case
    using Cons \<open>i + l \<le> ?q\<close> by (simp add: x load_store_apart)
qed simp

lemma store_args_load:
  assumes "\<forall>x\<in>set xs. valid_arg x" and "arg_end n xs \<le> 2 ^ 64" and "i < length xs"
  shows "load_bytes (p + of_nat (arg_offsets n xs ! i)) (length (fst (xs ! i))) (store_args p n xs m)
    = fst (xs ! i)"
  using assms
proof (induction xs arbitrary: n m i)
  case (Cons x xs)
  obtain bs a where x: "x = (bs, a)" by fastforce
  let ?q = "align_nat n a"
  have le: "?q + length bs \<le> 2 ^ 64"
    using Cons.prems arg_end_ge [of xs "?q + length bs"] by (simp add: x)
  show ?case
  proof (cases i)
    case 0
    then show ?thesis
      using Cons.prems le by (simp add: x store_args_before load_store_same)
  next
    case (Suc j)
    then show ?thesis using Cons by (simp add: x)
  qed
qed simp

text \<open>
  C23. A sequence of \<open>KernargRaw\<close> calls lays its arguments out as a C structure does: each
  argument lands at the least multiple of its alignment past the argument before it, all
  of them are intact at the end, and the offset is the end of the last. The
  alignments are powers of two and the layout ends below \<open>2^64\<close>.
\<close>

theorem KernargRaw_layout:
  assumes "\<forall>x\<in>set xs. valid_arg x" and "kernarg_offset s = of_nat n" and "arg_end n xs < 2 ^ 64"
    and "push_args xs s = (res, t)"
  shows "res = Inr () \<and> kernarg_offset t = of_nat (arg_end n xs) \<and> kernarg t = kernarg s \<and>
    (\<forall>i<length xs. load_bytes (kernarg s + of_nat (arg_offsets n xs ! i)) (length (fst (xs ! i))) (mem t)
       = fst (xs ! i) \<and> snd (xs ! i) dvd arg_offsets n xs ! i)"
  using assms(4) push_args_run [OF assms(1-3)] store_args_load [OF assms(1)] assms(3)
    arg_offsets_bounds(3) [OF assms(1)]
  by auto

theorem KernargRaw_layout_witness:
  "\<exists>t. push_args [([1, 2, 3], 1), ([4, 5, 6, 7], 4)] (ref_object 0 ()) = (Inr (), t) \<and>
    kernarg_offset t = 8 \<and> load_bytes 4 4 (mem t) = [4, 5, 6, 7]"
proof -
  let ?s = "ref_object 0 ()"
  have start: "kernarg_offset ?s = of_nat 0" "kernarg ?s = 0"
    by (simp_all add: ref_object_def Dispatch_Dispatch_def ref_storage_def)
  let ?xs = "[([1, 2, 3], 1), ([4, 5, 6, 7], 4)] :: arg list"
  obtain res t where run: "push_args ?xs ?s = (res, t)" by fastforce
  have "valid_arg (b, 1)" "valid_arg (b, 4)" for b
    by (rule valid_arg_pow2 [of _ 0], simp, simp) (rule valid_arg_pow2 [of _ 2], simp, simp)
  then have "\<forall>x\<in>set ?xs. valid_arg x" by simp
  moreover have "arg_end 0 ?xs = 8" and "arg_offsets 0 ?xs = [0, 4]" by (simp_all add: align_nat_def)
  ultimately have r: "res = Inr ()" "kernarg_offset t = of_nat 8"
    and l: "\<forall>i<length ?xs. load_bytes (of_nat ([0, 4] ! i)) (length (fst (?xs ! i))) (mem t) = fst (?xs ! i)"
    using KernargRaw_layout [OF _ start(1) _ run] start(2) by simp_all
  have "load_bytes 4 (length [4, 5, 6, 7 :: u8]) (mem t) = [4, 5, 6, 7]"
    using spec [OF l, of 1] by simp
  moreover have "length [4, 5, 6, 7 :: u8] = 4" by simp
  ultimately show ?thesis using run r by (metis of_nat_numeral)
qed

section \<open>Buffers\<close>

text \<open>Passing a list of buffers, as the \<open>Setup\<close> methods do.\<close>

definition buffer_args :: "buffer list \<Rightarrow> arg list" where
  "buffer_args bs = map (\<lambda>b. (enc_u64 (local_ptr b), 8)) bs"

lemma Kernarg_Some: "Kernarg (Some b) = KernargRaw (enc_u64 (local_ptr b)) 8 8"
  by (simp add: Kernarg_def exec)

lemma for_each_Kernarg: "for_each bs (\<lambda>b. Kernarg (Some b)) = push_args (buffer_args bs)"
  unfolding push_args_def buffer_args_def
  by (induction bs) (simp_all add: Kernarg_Some u64_codec.length_enc)

lemma buffer_args_layout:
  "8 dvd n \<Longrightarrow> arg_offsets n (buffer_args bs) = map (\<lambda>i. n + 8 * i) [0..<length bs]"
  "8 dvd n \<Longrightarrow> arg_end n (buffer_args bs) = n + 8 * length bs"
proof (induction bs arbitrary: n)
  case (Cons b bs)
  { case 1
    have "map (\<lambda>i. n + 8 * i) [0..<length (b # bs)] = n # map (\<lambda>i. (n + 8) + 8 * i) [0..<length bs]"
      by (simp add: map_upt_Suc del: upt_Suc)
    then show ?case
      using 1 Cons.IH(1) [of "n + 8"] by (simp add: buffer_args_def align_nat_id u64_codec.length_enc del: upt_Suc)
  next
    case 2
    then show ?case
      using Cons.IH(2) [of "n + 8"] by (simp add: buffer_args_def align_nat_id u64_codec.length_enc) }
qed (simp_all add: buffer_args_def)

lemma valid_buffer_args: "\<forall>x\<in>set (buffer_args bs). valid_arg x"
proof -
  have "valid_arg (b, 8)" for b by (rule valid_arg_pow2 [of _ 3]) simp_all
  then show ?thesis by (simp add: buffer_args_def)
qed

lemma Kernarg_buffers_run:
  assumes "kernarg_offset s = 0" and "8 * length bs < 2 ^ 64"
  shows "for_each bs (\<lambda>b. Kernarg (Some b)) s = (Inr (), s\<lparr>kernarg_offset := of_nat (8 * length bs),
    mem := store_args (kernarg s) 0 (buffer_args bs) (mem s)\<rparr>)"
  using push_args_run [OF valid_buffer_args, where n = 0] assms
  by (simp add: for_each_Kernarg buffer_args_layout)

lemma store_buffer_args:
  assumes "i < length bs" and "8 * length bs < 2 ^ 64"
  shows "dec_u64 (load_bytes (p + of_nat (8 * i)) 8 (store_args p 0 (buffer_args bs) m)) = local_ptr (bs ! i)"
  using store_args_load [OF valid_buffer_args, of 0 bs i p m] assms
  by (simp add: buffer_args_layout)
     (simp add: buffer_args_def u64_codec.length_enc u64_codec.dec_enc)

text \<open>
  Passing buffers: after \<open>Kernarg\<close> on each of a list of buffers the argument segment is an array
  of their device addresses, the pointer of buffer \<open>i\<close> at byte offset \<open>8*i\<close>.
\<close>

theorem Kernarg_array:
  assumes "kernarg_offset s = 0" and "8 * length bs < 2 ^ 64"
    and "for_each bs (\<lambda>b. Kernarg (Some b)) s = (res, t)"
  shows "res = Inr () \<and> kernarg_offset t = of_nat (8 * length bs) \<and>
    (\<forall>i<length bs. dec_u64 (load_bytes (kernarg s + of_nat (8 * i)) 8 (mem t)) = local_ptr (bs ! i))"
  using assms(3) Kernarg_buffers_run [OF assms(1,2)] store_buffer_args [OF _ assms(2)] by auto

theorem Kernarg_array_witness:
  "\<exists>t. for_each [Buffer 4 100 7, Buffer_system 4 200] (\<lambda>b. Kernarg (Some b)) (ref_object 0 ()) = (Inr (), t) \<and>
    dec_u64 (load_bytes 8 8 (mem t)) = 200"
proof -
  let ?s = "ref_object 0 ()"
  have start: "kernarg_offset ?s = 0" "kernarg ?s = 0"
    by (simp_all add: ref_object_def Dispatch_Dispatch_def ref_storage_def)
  let ?bs = "[Buffer 4 100 7, Buffer_system 4 200]"
  obtain res t where run: "for_each ?bs (\<lambda>b. Kernarg (Some b)) ?s = (res, t)" by fastforce
  show ?thesis
    using Kernarg_array [OF start(1) _ run] run start(2)
    by (auto simp: Buffer_def Buffer_system_def All_less_Suc)
qed

end
