(* ===== verification/Buffers.thy ===== *)
theory Buffers
  imports Kernargs
begin

text \<open>
  Buffers: where \<open>AllocateBuffer\<close> takes the two halves of a buffer from and what it does when an
  allocation fails, what the copies between the halves do, and element access.
\<close>

section \<open>Allocation\<close>

text \<open>The pointer a caller gets: null when the call failed.\<close>

definition alloc_ptr :: "hsa_status \<Rightarrow> addr \<Rightarrow> addr" where
  "alloc_ptr st p = (if st = HSA_STATUS_SUCCESS then p else 0)"

definition allocated ::
  "'r hsa \<Rightarrow> string \<Rightarrow> u64 \<Rightarrow> u64 \<Rightarrow> hsa_status \<Rightarrow> addr \<Rightarrow> 'r \<Rightarrow> ('r, 'z) Dispatch_scheme \<Rightarrow> ('r, 'z) Dispatch_scheme" where
  "allocated H msg region sz st p r s = s\<lparr>rt := r, events := events s @ [Ev_allocate region sz st p],
     out_stream := out_stream s @ (if st = HSA_STATUS_SUCCESS then [] else error_report H msg st)\<rparr>"

lemma AllocateSystemMemory_run:
  assumes "api_memory_allocate H (system_region s) sz (rt s) = ((st, p), r)"
  shows "AllocateSystemMemory H sz s = (Inr (alloc_ptr st p),
    allocated H ''hsa_memory_allocate(system_region) failed'' (system_region s) sz st p r s)"
  using assms by (simp add: AllocateSystemMemory_def hsa_memory_allocate_def exec alloc_ptr_def allocated_def)

lemma AllocateLocalMemory_run:
  assumes "local_region s \<noteq> 0" and "api_memory_allocate H (local_region s) sz (rt s) = ((st, p), r)"
  shows "AllocateLocalMemory H sz s = (Inr (alloc_ptr st p),
    allocated H ''hsa_memory_allocate(local_region) failed'' (local_region s) sz st p r s)"
  using assms by (simp add: AllocateLocalMemory_def hsa_memory_allocate_def exec alloc_ptr_def allocated_def)

lemma AllocateGPULocalMemory_run:
  assumes "gpu_local_region s \<noteq> 0" and "api_memory_allocate H (gpu_local_region s) sz (rt s) = ((st, p), r)"
  shows "AllocateGPULocalMemory H sz s = (Inr (alloc_ptr st p),
    allocated H ''hsa_memory_allocate(gpu_local_region) failed'' (gpu_local_region s) sz st p r s)"
  using assms by (simp add: AllocateGPULocalMemory_def hsa_memory_allocate_def exec alloc_ptr_def allocated_def)

lemma allocated_fields [simp]:
  "system_region (allocated H msg g sz st p r s) = system_region s"
  "local_region (allocated H msg g sz st p r s) = local_region s"
  "gpu_local_region (allocated H msg g sz st p r s) = gpu_local_region s"
  "rt (allocated H msg g sz st p r s) = r"
  "mem (allocated H msg g sz st p r s) = mem s"
  "ring (allocated H msg g sz st p r s) = ring s"
  "events (allocated H msg g sz st p r s) = events s @ [Ev_allocate g sz st p]"
  by (simp_all add: allocated_def)

text \<open>The region of the local half, if the buffer has one of its own.\<close>

definition local_source :: "bool \<Rightarrow> ('r, 'z) Dispatch_scheme \<Rightarrow> u64 option" where
  "local_source prefer_gpu_local s =
     (if prefer_gpu_local \<and> gpu_local_region s \<noteq> 0 then Some (gpu_local_region s)
      else if local_region s \<noteq> 0 then Some (local_region s)
      else if gpu_local_region s \<noteq> 0 then Some (gpu_local_region s)
      else None)"

lemma AllocateBuffer_run:
  assumes sys: "api_memory_allocate H (system_region s) sz (rt s) = ((st, p), r)"
    and loc: "\<And>g. local_source pref s = Some g \<Longrightarrow> api_memory_allocate H g sz r = ((st', p'), r')"
  defines "s1 \<equiv> allocated H ''hsa_memory_allocate(system_region) failed'' (system_region s) sz st p r s"
  shows "\<exists>msg. AllocateBuffer H sz pref s =
    (if alloc_ptr st p = 0 then (Inr None, s1) else
     case local_source pref s of
       None \<Rightarrow> (Inr (Some (Buffer_system sz (alloc_ptr st p))), s1)
     | Some g \<Rightarrow>
         let s2 = allocated H msg g sz st' p' r' s1 in
         if alloc_ptr st' p' = 0 then (Inr None, s2\<lparr>events := events s2 @ [Ev_free (alloc_ptr st p)]\<rparr>)
         else (Inr (Some (Buffer sz (alloc_ptr st' p') (alloc_ptr st p))), s2))"
proof -
  have sys': "AllocateSystemMemory H sz s = (Inr (alloc_ptr st p), s1)"
    unfolding s1_def by (rule AllocateSystemMemory_run [OF sys])
  consider (gpu) "local_source pref s = Some (gpu_local_region s)" "gpu_local_region s \<noteq> 0"
      "pref \<or> local_region s = 0"
    | (host) "local_source pref s = Some (local_region s)" "local_region s \<noteq> 0"
      "\<not> (pref \<and> gpu_local_region s \<noteq> 0)"
    | (none) "local_source pref s = None" "local_region s = 0" "gpu_local_region s = 0"
    unfolding local_source_def
    by (cases "gpu_local_region s = 0"; cases "local_region s = 0"; cases "pref") simp_all
  then show ?thesis
  proof cases
    case gpu
    have "AllocateGPULocalMemory H sz s1 = (Inr (alloc_ptr st' p'),
        allocated H ''hsa_memory_allocate(gpu_local_region) failed'' (gpu_local_region s) sz st' p' r' s1)"
      using gpu(2) AllocateGPULocalMemory_run [of s1 H sz st' p' r'] loc [OF gpu(1)] by (simp add: s1_def)
    then have run: "AllocateBuffer H sz pref s =
      (if alloc_ptr st p = 0 then (Inr None, s1) else
       let s2 = allocated H ''hsa_memory_allocate(gpu_local_region) failed'' (gpu_local_region s) sz st' p' r' s1 in
         if alloc_ptr st' p' = 0 then (Inr None, s2\<lparr>events := events s2 @ [Ev_free (alloc_ptr st p)]\<rparr>)
         else (Inr (Some (Buffer sz (alloc_ptr st' p') (alloc_ptr st p))), s2))"
      using gpu(2,3) by (auto simp: AllocateBuffer_def with_local_def free_def sys' bind_run ret_run gets_run
          log_event_run Let_def s1_def)
    show ?thesis unfolding run gpu(1)
      by (rule exI [of _ "''hsa_memory_allocate(gpu_local_region) failed''"]) simp
  next
    case host
    have "AllocateLocalMemory H sz s1 = (Inr (alloc_ptr st' p'),
        allocated H ''hsa_memory_allocate(local_region) failed'' (local_region s) sz st' p' r' s1)"
      using host(2) AllocateLocalMemory_run [of s1 H sz st' p' r'] loc [OF host(1)] by (simp add: s1_def)
    then have run: "AllocateBuffer H sz pref s =
      (if alloc_ptr st p = 0 then (Inr None, s1) else
       let s2 = allocated H ''hsa_memory_allocate(local_region) failed'' (local_region s) sz st' p' r' s1 in
         if alloc_ptr st' p' = 0 then (Inr None, s2\<lparr>events := events s2 @ [Ev_free (alloc_ptr st p)]\<rparr>)
         else (Inr (Some (Buffer sz (alloc_ptr st' p') (alloc_ptr st p))), s2))"
      using host(2,3) by (auto simp: AllocateBuffer_def with_local_def free_def sys' bind_run ret_run gets_run
          log_event_run Let_def s1_def)
    show ?thesis unfolding run host(1)
      by (rule exI [of _ "''hsa_memory_allocate(local_region) failed''"]) simp
  next
    case none
    then show ?thesis
      by (auto simp: AllocateBuffer_def sys' bind_run ret_run gets_run s1_def)
  qed
qed

text \<open>
  The calls a successful and a failing allocation make.
\<close>

definition buffer_calls :: "u64 \<Rightarrow> u64 option \<Rightarrow> u64 \<Rightarrow> buffer \<Rightarrow> event list" where
  "buffer_calls sys src sz b = Ev_allocate sys sz HSA_STATUS_SUCCESS (system_ptr b) #
     (case src of None \<Rightarrow> [] | Some g \<Rightarrow> [Ev_allocate g sz HSA_STATUS_SUCCESS (local_ptr b)])"

definition failed_buffer_calls :: "u64 \<Rightarrow> u64 option \<Rightarrow> u64 \<Rightarrow> event list \<Rightarrow> bool" where
  "failed_buffer_calls sys src sz es \<longleftrightarrow>
     (\<exists>st p. alloc_ptr st p = 0 \<and> es = [Ev_allocate sys sz st p]) \<or>
     (\<exists>q g st p. src = Some g \<and> q \<noteq> 0 \<and> alloc_ptr st p = 0 \<and>
        es = [Ev_allocate sys sz HSA_STATUS_SUCCESS q, Ev_allocate g sz st p, Ev_free q])"

lemma AllocateBuffer_cases:
  "case AllocateBuffer H sz pref s of
     (Inl e, t) \<Rightarrow> False
   | (Inr (Some b), t) \<Rightarrow> buf_size b = sz \<and> system_ptr b \<noteq> 0 \<and> local_ptr b \<noteq> 0 \<and>
       (local_source pref s = None \<longrightarrow> \<not> IsLocal b) \<and>
       events t = events s @ buffer_calls (system_region s) (local_source pref s) sz b \<and>
       mem t = mem s \<and> ring t = ring s
   | (Inr None, t) \<Rightarrow> (\<exists>es. events t = events s @ es \<and>
         failed_buffer_calls (system_region s) (local_source pref s) sz es) \<and>
       mem t = mem s \<and> ring t = ring s"
proof -
  obtain st p r where sys: "api_memory_allocate H (system_region s) sz (rt s) = ((st, p), r)"
    by (metis surj_pair)
  obtain st' p' r' where loc: "\<And>g. local_source pref s = Some g \<Longrightarrow>
      api_memory_allocate H g sz r = ((st', p'), r')"
    by (cases "local_source pref s") (auto, metis surj_pair)
  obtain msg where run: "AllocateBuffer H sz pref s =
    (let s1 = allocated H ''hsa_memory_allocate(system_region) failed'' (system_region s) sz st p r s in
     if alloc_ptr st p = 0 then (Inr None, s1) else
     case local_source pref s of
       None \<Rightarrow> (Inr (Some (Buffer_system sz (alloc_ptr st p))), s1)
     | Some g \<Rightarrow>
         let s2 = allocated H msg g sz st' p' r' s1 in
         if alloc_ptr st' p' = 0 then (Inr None, s2\<lparr>events := events s2 @ [Ev_free (alloc_ptr st p)]\<rparr>)
         else (Inr (Some (Buffer sz (alloc_ptr st' p') (alloc_ptr st p))), s2))"
    using AllocateBuffer_run [OF sys loc] unfolding Let_def by blast
  have ok: "st = HSA_STATUS_SUCCESS" "alloc_ptr st p = p" if "alloc_ptr st p \<noteq> 0" for st p
    using that by (auto simp: alloc_ptr_def split: if_splits)
  show ?thesis
  proof (cases "alloc_ptr st p = 0")
    case True
    then show ?thesis unfolding run by (auto simp: Let_def failed_buffer_calls_def)
  next
    case sys_ok: False
    show ?thesis
    proof (cases "local_source pref s")
      case None
      then show ?thesis
        unfolding run using sys_ok ok [OF sys_ok]
        by (simp add: Let_def buffer_calls_def Buffer_system_def IsLocal_def)
    next
      case (Some g)
      show ?thesis
      proof (cases "alloc_ptr st' p' = 0")
        case True
        then show ?thesis
          unfolding run using sys_ok ok [OF sys_ok] Some
          by (auto simp: Let_def failed_buffer_calls_def)
      next
        case False
        then show ?thesis
          unfolding run using sys_ok ok [OF sys_ok] ok [OF False] Some
          by (simp add: Let_def buffer_calls_def Buffer_def)
      qed
    qed
  qed
qed

text \<open>
  C24. \<open>AllocateBuffer\<close> never faults and leaves the memory and the packets alone. It returns a buffer of
  the asked size whose two pointers are not null: the host half from the system region and
  the device half from the preferred local region there is, or the host half itself where
  there is none. It returns null exactly when one of the two allocations gave nothing; the
  host half is then handed to the C library's \<open>free\<close>, although it came from the HSA
  allocator.
\<close>

theorem AllocateBuffer_outcome:
  "case AllocateBuffer H sz pref s of
     (Inl e, t) \<Rightarrow> False
   | (Inr (Some b), t) \<Rightarrow> buf_size b = sz \<and> system_ptr b \<noteq> 0 \<and> local_ptr b \<noteq> 0 \<and>
       (case local_source pref s of None \<Rightarrow> \<not> IsLocal b | Some g \<Rightarrow> True) \<and>
       events t = events s @ buffer_calls (system_region s) (local_source pref s) sz b \<and>
       mem t = mem s \<and> ring t = ring s
   | (Inr None, t) \<Rightarrow> (\<exists>es. events t = events s @ es \<and>
         failed_buffer_calls (system_region s) (local_source pref s) sz es) \<and>
       mem t = mem s \<and> ring t = ring s"
  using AllocateBuffer_cases [where H = H and sz = sz and pref = pref and s = s]
  by (cases "local_source pref s") (auto split: prod.splits sum.splits option.splits)

lemma AllocateBuffer_Some:
  "AllocateBuffer H sz pref s = (Inr (Some b), t) \<Longrightarrow> buf_size b = sz \<and> mem t = mem s"
  using AllocateBuffer_cases [where H = H and sz = sz and pref = pref and s = s] by simp

lemma AllocateBuffer_mem: "AllocateBuffer H sz pref s = (r, t) \<Longrightarrow> mem t = mem s \<and> (\<exists>b. r = Inr b)"
  using AllocateBuffer_cases [where H = H and sz = sz and pref = pref and s = s] by (auto split: sum.splits option.splits)

section \<open>Copies\<close>

text \<open>The two views of a buffer: its bytes on the host side and on the device side.\<close>

definition host_view :: "buffer \<Rightarrow> memory \<Rightarrow> u8 list" where
  "host_view b m = load_bytes (system_ptr b) (unat (buf_size b)) m"

definition device_view :: "buffer \<Rightarrow> memory \<Rightarrow> u8 list" where
  "device_view b m = load_bytes (local_ptr b) (unat (buf_size b)) m"

lemma copies_faithfullyD:
  "copies_faithfully H \<Longrightarrow> api_memory_copy H d q n m r = ((HSA_STATUS_SUCCESS, m'), r') \<Longrightarrow>
    m' = store_bytes d (load_bytes q (unat n) m) m"
  unfolding copies_faithfully_def by blast

lemma CopyTo_run:
  assumes "copies_faithfully H" and "CopyTo H (Some b) s = (Inr True, t)"
  shows "mem t = (if IsLocal b then store_bytes (local_ptr b) (host_view b (mem s)) (mem s) else mem s)"
proof -
  obtain st m r where copy: "api_memory_copy H (local_ptr b) (system_ptr b) (buf_size b) (mem s) (rt s) = ((st, m), r)"
    by (metis surj_pair)
  have "st = HSA_STATUS_SUCCESS \<Longrightarrow> m = store_bytes (local_ptr b) (host_view b (mem s)) (mem s)"
    using copies_faithfullyD [OF assms(1)] copy by (simp add: host_view_def)
  then show ?thesis
    using assms(2) copy
    by (auto simp: CopyTo_def CopyToLocal_def hsa_memory_copy_def exec split: if_splits)
qed

lemma CopyFrom_run:
  assumes "copies_faithfully H" and "CopyFrom H (Some b) s = (Inr True, t)"
  shows "mem t = (if IsLocal b then store_bytes (system_ptr b) (device_view b (mem s)) (mem s) else mem s)"
proof -
  obtain st1 r1 where assign: "api_memory_assign_agent H (local_ptr b) (cpu_agent s) (rt s) = (st1, r1)"
    by fastforce
  obtain st m r where copy: "api_memory_copy H (system_ptr b) (local_ptr b) (buf_size b) (mem s) r1 = ((st, m), r)"
    by (metis surj_pair)
  have "st = HSA_STATUS_SUCCESS \<Longrightarrow> m = store_bytes (system_ptr b) (device_view b (mem s)) (mem s)"
    using copies_faithfullyD [OF assms(1)] copy by (simp add: device_view_def)
  then show ?thesis
    using assms(2) copy assign
    by (auto simp: CopyFrom_def CopyFromLocal_def hsa_memory_copy_def hsa_call_def exec split: if_splits)
qed

lemma length_views [simp]:
  "length (host_view b m) = unat (buf_size b)" "length (device_view b m) = unat (buf_size b)"
  by (simp_all add: host_view_def device_view_def)

lemma store_device_view [simp]:
  "length bs = unat (buf_size b) \<Longrightarrow> device_view b (store_bytes (local_ptr b) bs m) = bs"
  using load_store_same [of bs "local_ptr b" m] unat_less_2p [of "buf_size b"]
  by (simp add: device_view_def)

lemma store_host_view [simp]:
  "length bs = unat (buf_size b) \<Longrightarrow> host_view b (store_bytes (system_ptr b) bs m) = bs"
  using load_store_same [of bs "system_ptr b" m] unat_less_2p [of "buf_size b"]
  by (simp add: host_view_def)

lemma views_coincide: "\<not> IsLocal b \<Longrightarrow> device_view b m = host_view b m"
  by (simp add: IsLocal_def device_view_def host_view_def)

text \<open>
  C25. The copies move the contents of a buffer between its views. After a successful \<open>CopyTo\<close> the
  device sees what the host had written, and after a successful \<open>CopyFrom\<close> the host sees what
  the device had written, whether or not the two share their memory.
\<close>

theorem Copy_views:
  assumes "copies_faithfully H"
  shows "(CopyTo H (Some b) s = (Inr True, t) \<longrightarrow> device_view b (mem t) = host_view b (mem s)) \<and>
    (CopyFrom H (Some b) s = (Inr True, t) \<longrightarrow> host_view b (mem t) = device_view b (mem s))"
  using CopyTo_run [OF assms, of b s t] CopyFrom_run [OF assms, of b s t]
  by (cases "IsLocal b") (auto simp: views_coincide)

theorem Copy_views_witness:
  "\<exists>t. CopyTo (ref_hsa (\<lambda>p m. m)) (Some (Buffer 2 0x200 0x100)) ((ref_object 0 ())\<lparr>mem := \<lambda>a. ucast a\<rparr>) = (Inr True, t) \<and>
    device_view (Buffer 2 0x200 0x100) (mem t) = [0, 1]"
proof -
  let ?b = "Buffer 2 0x200 0x100" and ?s = "(ref_object 0 ())\<lparr>mem := \<lambda>a. ucast a\<rparr>"
  obtain t where run: "CopyTo (ref_hsa (\<lambda>p m. m)) (Some ?b) ?s = (Inr True, t)"
    by (simp add: CopyTo_def CopyToLocal_def hsa_memory_copy_def exec IsLocal_def Buffer_def ref_defs)
  have "host_view ?b (mem ?s) = [0, 1]"
    by (simp add: host_view_def Buffer_def load_bytes_def upt_rec)
  then show ?thesis
    using Copy_views [OF ref_copies, of "\<lambda>p m. m" ?b ?s t] run by auto
qed

text \<open>
  Round trip: what \<open>CopyTo\<close> gave to the device comes back by \<open>CopyFrom\<close>, whatever the host writes to
  its half in between, provided that write and the copy stay clear of the device half.
\<close>

theorem Copy_roundtrip:
  assumes "copies_faithfully H" and "IsLocal b"
    and "apart (local_ptr b) (unat (buf_size b)) q (length bs)"
    and "CopyTo H (Some b) s = (Inr True, t)"
    and "CopyFrom H (Some b) (t\<lparr>mem := store_bytes q bs (mem t)\<rparr>) = (Inr True, u)"
  shows "host_view b (mem u) = host_view b (mem s)"
proof -
  have "device_view b (mem t) = host_view b (mem s)"
    using CopyTo_run [OF assms(1,4)] assms(2) by simp
  moreover have "device_view b (store_bytes q bs (mem t)) = device_view b (mem t)"
    using assms(3) by (simp add: device_view_def load_store_apart)
  ultimately show ?thesis
    using CopyFrom_run [OF assms(1,5)] assms(2) by simp
qed

theorem Copy_roundtrip_witness:
  "\<exists>t u. CopyTo (ref_hsa (\<lambda>p m. m)) (Some (Buffer 2 0x200 0x100)) (ref_object 0 ()) = (Inr True, t) \<and>
    CopyFrom (ref_hsa (\<lambda>p m. m)) (Some (Buffer 2 0x200 0x100)) (t\<lparr>mem := store_bytes 0x100 [9, 9] (mem t)\<rparr>)
      = (Inr True, u) \<and>
    host_view (Buffer 2 0x200 0x100) (mem u) = [0, 0]"
proof -
  let ?H = "ref_hsa (\<lambda>p m. m)" and ?b = "Buffer 2 0x200 0x100"
  obtain t where to: "CopyTo ?H (Some ?b) (ref_object 0 ()) = (Inr True, t)"
    by (simp add: CopyTo_def CopyToLocal_def hsa_memory_copy_def exec IsLocal_def Buffer_def ref_defs)
  obtain u where from_: "CopyFrom ?H (Some ?b) (t\<lparr>mem := store_bytes 0x100 [9, 9] (mem t)\<rparr>) = (Inr True, u)"
    by (simp add: CopyFrom_def CopyFromLocal_def hsa_memory_copy_def hsa_call_def exec IsLocal_def Buffer_def ref_defs)
  have two: "length [9, 9 :: u8] = 2" by simp
  have "apart (local_ptr ?b) (unat (buf_size ?b)) 0x100 (length [9, 9 :: u8])"
    unfolding two using apart_offsets(2) [of "0x100" 2 "0x200" 2 0] by (simp add: Buffer_def)
  then have "host_view ?b (mem u) = host_view ?b (mem (ref_object 0 ()))"
    using Copy_roundtrip [OF ref_copies _ _ to from_] by (simp add: Buffer_def IsLocal_def)
  also have "\<dots> = [0, 0]"
    by (simp add: host_view_def Buffer_def load_bytes_def upt_rec ref_defs)
  finally show ?thesis using to from_ by blast
qed

section \<open>Elements\<close>

text \<open>Filling a buffer element by element through \<open>Data\<close>.\<close>

lemma write_data_Some:
  "write_data w enc (Some b) i x s = (Inr (), s\<lparr>mem := store_bytes (Data w b i) (enc x) (mem s)\<rparr>)"
  by (simp add: write_data_def exec)

lemma read_data_Some:
  "read_data w dec (Some b) i s = (Inr (dec (load_bytes (Data w b i) w (mem s))), s)"
  by (simp add: read_data_def exec)

definition fill :: "nat \<Rightarrow> ('a \<Rightarrow> u8 list) \<Rightarrow> addr \<Rightarrow> (nat \<Rightarrow> 'a) \<Rightarrow> nat \<Rightarrow> memory \<Rightarrow> memory" where
  "fill w enc p f n = fold (\<lambda>i. store_bytes (elem_addr w p i) (enc (f i))) [0..<n]"

lemma fold_mem:
  "fold (\<lambda>i s. s\<lparr>mem := g i (mem s)\<rparr>) xs s = s\<lparr>mem := fold g xs (mem s)\<rparr>"
  by (induction xs arbitrary: s) simp_all

lemma write_loop:
  "for_each [0..<n] (\<lambda>i. write_data w enc (Some b) i (f i)) s
    = (Inr (), s\<lparr>mem := fill w enc (system_ptr b) f n (mem s)\<rparr>)"
  by (subst for_each_fold [where g = "\<lambda>i s. s\<lparr>mem := store_bytes (Data w b i) (enc (f i)) (mem s)\<rparr>"])
     (simp_all add: write_data_Some fill_def Data_def
       fold_mem [where g = "\<lambda>i. store_bytes (elem_addr w (system_ptr b) i) (enc (f i))"])

lemma fill_apart:
  assumes "\<And>i. i < n \<Longrightarrow> apart q l (elem_addr w p i) w" and "\<And>x. length (enc x) = w"
  shows "load_bytes q l (fill w enc p f n m) = load_bytes q l m"
  using assms(1)
proof (induction n)
  case 0
  then show ?case by (simp add: fill_def)
next
  case (Suc n)
  have "fill w enc p f (Suc n) m = store_bytes (elem_addr w p n) (enc (f n)) (fill w enc p f n m)"
    by (simp add: fill_def)
  then show ?case using Suc by (simp add: load_store_apart assms(2))
qed

end
