(* ===== verification/Float32.thy ===== *)
theory Float32
  imports Prelude
begin

text \<open>
  The C++ type \<open>float\<close> as its IEEE-754 binary32 bit pattern, with the operations of the
  language that the examples use: conversion from an unsigned integer, addition,
  multiplication and equality, rounding to nearest even. A finite value is an integer
  multiple of \<open>2 ^ -149\<close>, the least positive binary32 number, so that the exact sum and
  product are integers and rounding is integer arithmetic.
\<close>

type_synonym f32 = u32

section \<open>Fields and values\<close>

definition f32_neg :: "f32 \<Rightarrow> bool" where
  "f32_neg x \<longleftrightarrow> bit x 31"

definition f32_mag :: "f32 \<Rightarrow> nat" where
  "f32_mag x = unat (take_bit 31 x)"

definition f32_exp :: "f32 \<Rightarrow> nat" where
  "f32_exp x = f32_mag x div 2 ^ 23"

definition f32_frac :: "f32 \<Rightarrow> nat" where
  "f32_frac x = f32_mag x mod 2 ^ 23"

definition f32_is_nan :: "f32 \<Rightarrow> bool" where
  "f32_is_nan x \<longleftrightarrow> f32_exp x = 255 \<and> f32_frac x \<noteq> 0"

definition f32_is_inf :: "f32 \<Rightarrow> bool" where
  "f32_is_inf x \<longleftrightarrow> f32_exp x = 255 \<and> f32_frac x = 0"

text \<open>The magnitude of the pattern \<open>b\<close> (exponent and fraction), in units of \<open>2 ^ -149\<close>.\<close>

definition mag_units :: "nat \<Rightarrow> nat" where
  "mag_units b = (if b div 2 ^ 23 = 0 then b mod 2 ^ 23
     else (2 ^ 23 + b mod 2 ^ 23) * 2 ^ (b div 2 ^ 23 - 1))"

definition f32_units :: "f32 \<Rightarrow> int" where
  "f32_units x = (if f32_neg x then - int (mag_units (f32_mag x)) else int (mag_units (f32_mag x)))"

section \<open>Rounding\<close>

fun bitlen :: "nat \<Rightarrow> nat" where
  "bitlen n = (if n = 0 then 0 else Suc (bitlen (n div 2)))"

declare bitlen.simps [simp del]

text \<open>\<open>n / 2 ^ s\<close> rounded to the nearest integer, a tie to the even one.\<close>

definition round_shift :: "nat \<Rightarrow> nat \<Rightarrow> nat" where
  "round_shift s n = (let q = n div 2 ^ s; r = n mod 2 ^ s in
     if 2 ^ s < 2 * r \<or> (2 * r = 2 ^ s \<and> odd q) then Suc q else q)"

text \<open>
  The pattern of the magnitude nearest to \<open>n\<close> units of \<open>2 ^ - (149 + k)\<close>: 24 significant
  bits are kept. The hidden bit of the significand and a carry out of it add to the
  exponent field; a value past the largest finite one is infinity.
\<close>

definition f32_pack :: "nat \<Rightarrow> nat \<Rightarrow> nat" where
  "f32_pack k n = (let s = max k (bitlen n - 24) in
     min ((s - k) * 2 ^ 23 + round_shift s n) 0x7f800000)"

definition f32_make :: "bool \<Rightarrow> nat \<Rightarrow> f32" where
  "f32_make neg b = (if neg then 0x80000000 else 0) + of_nat b"

definition f32_nan :: f32 where
  "f32_nan = 0x7fc00000"

section \<open>Operations\<close>

definition f32_of_nat :: "nat \<Rightarrow> f32" where
  "f32_of_nat n = f32_make False (f32_pack 0 (n * 2 ^ 149))"

definition f32_add :: "f32 \<Rightarrow> f32 \<Rightarrow> f32" where
  "f32_add x y =
    (if f32_is_nan x \<or> f32_is_nan y then f32_nan
     else if f32_is_inf x then
       (if f32_is_inf y \<and> f32_neg x \<noteq> f32_neg y then f32_nan else x)
     else if f32_is_inf y then y
     else let v = f32_units x + f32_units y in
       if v = 0 then f32_make (f32_neg x \<and> f32_neg y) 0
       else f32_make (v < 0) (f32_pack 0 (nat \<bar>v\<bar>)))"

definition f32_mul :: "f32 \<Rightarrow> f32 \<Rightarrow> f32" where
  "f32_mul x y =
    (let neg = (f32_neg x \<noteq> f32_neg y) in
     if f32_is_nan x \<or> f32_is_nan y then f32_nan
     else if f32_is_inf x \<or> f32_is_inf y then
       (if f32_units x = 0 \<or> f32_units y = 0 then f32_nan else f32_make neg 0x7f800000)
     else f32_make neg (f32_pack 149 (nat \<bar>f32_units x * f32_units y\<bar>)))"

text \<open>The operator \<open>==\<close>: no NaN equals anything, the two zeros are equal.\<close>

definition f32_eq :: "f32 \<Rightarrow> f32 \<Rightarrow> bool" where
  "f32_eq x y \<longleftrightarrow> \<not> f32_is_nan x \<and> \<not> f32_is_nan y \<and>
     (x = y \<or> (f32_mag x = 0 \<and> f32_mag y = 0))"

section \<open>Exactness\<close>

lemma bitlen_0 [simp]: "bitlen 0 = 0"
  by (simp add: bitlen.simps)

lemma bitlen_bounds: "0 < n \<Longrightarrow> 2 ^ (bitlen n - 1) \<le> n \<and> n < 2 ^ bitlen n"
proof (induction n rule: bitlen.induct)
  case (1 n)
  show ?case
  proof (cases "n div 2 = 0")
    case True
    then have "n = 1" using "1.prems" by simp
    then show ?thesis by (simp add: bitlen.simps)
  next
    case False
    let ?h = "n div 2"
    have IH: "2 ^ (bitlen ?h - 1) \<le> ?h \<and> ?h < 2 ^ bitlen ?h"
      using "1.IH" "1.prems" False by simp
    have b: "bitlen n = Suc (bitlen ?h)"
      using "1.prems" by (simp add: bitlen.simps [of n])
    have "bitlen ?h \<noteq> 0"
      using False by (simp add: bitlen.simps [of ?h])
    then obtain l where l: "bitlen ?h = Suc l" by (cases "bitlen ?h") auto
    have "x \<le> ?h \<Longrightarrow> ?h < 2 * x \<Longrightarrow> 2 * x \<le> n \<and> n < 2 * (2 * x)" for x by arith
    then show ?thesis using IH unfolding b l by simp
  qed
qed

lemma bitlen_le: "n < 2 ^ l \<Longrightarrow> bitlen n \<le> l"
proof (cases "n = 0")
  case False
  assume "n < 2 ^ l"
  then have "(2::nat) ^ (bitlen n - 1) < 2 ^ l"
    using bitlen_bounds [of n] False by linarith
  then show ?thesis by simp
qed simp

lemma bitlen_mult_power: "0 < n \<Longrightarrow> bitlen (n * 2 ^ k) = bitlen n + k"
proof (induction k)
  case (Suc k)
  have "bitlen (n * 2 ^ Suc k) = Suc (bitlen (n * 2 ^ Suc k div 2))"
    using Suc.prems by (subst bitlen.simps) simp
  also have "n * 2 ^ Suc k div 2 = n * 2 ^ k" by simp
  finally show ?case using Suc by simp
qed simp

lemma round_shift_exact: "2 ^ s dvd n \<Longrightarrow> round_shift s n = n div 2 ^ s"
  by (simp add: round_shift_def)

lemma round_shift_scale: "round_shift (k + s) (n * 2 ^ k) = round_shift s n"
proof -
  have q: "n * 2 ^ k div 2 ^ (k + s) = n div 2 ^ s"
    by (simp add: power_add mult.commute)
  have r: "n * 2 ^ k mod 2 ^ (k + s) = (n mod 2 ^ s) * 2 ^ k"
    by (simp add: power_add mult.commute)
  have lt: "(2::nat) ^ (k + s) < 2 * (r * 2 ^ k) \<longleftrightarrow> 2 ^ s < 2 * r"
    and eq: "2 * (r * 2 ^ k) = (2::nat) ^ (k + s) \<longleftrightarrow> 2 * r = 2 ^ s" for r
    by (simp_all add: power_add)
  show ?thesis by (simp add: round_shift_def Let_def q r lt eq)
qed

lemma f32_pack_scale: "f32_pack k (n * 2 ^ k) = f32_pack 0 n"
proof (cases "n = 0")
  case True
  then show ?thesis by (simp add: f32_pack_def round_shift_def Let_def)
next
  case False
  then have "max k (bitlen (n * 2 ^ k) - 24) = k + (bitlen n - 24)"
    by (simp add: bitlen_mult_power)
  then show ?thesis by (simp add: f32_pack_def round_shift_scale Let_def)
qed

text \<open>A magnitude of at most 24 significant bits, within range, is represented exactly.\<close>

lemma mag_units_pack:
  assumes "n = m * 2 ^ j" and "m < 2 ^ 24" and "n < 2 ^ 277"
  shows "mag_units (f32_pack 0 n) = n" and "f32_pack 0 n < 0x7f800000"
proof -
  define s where "s = bitlen n - 24"
  define M where "M = n div 2 ^ s"
  have "n < 2 ^ (24 + j)" using assms(1,2) by (simp add: power_add)
  then have sj: "s \<le> j" unfolding s_def using bitlen_le by fastforce
  then have "(2::nat) ^ s dvd 2 ^ j" by (rule le_imp_power_dvd)
  then have dvd: "2 ^ s dvd n" using assms(1) by simp
  then have n: "n = M * 2 ^ s" by (simp add: M_def)
  have s253: "s \<le> 253" unfolding s_def using bitlen_le [OF assms(3)] by simp
  have M_hi: "M < 2 ^ 24"
  proof (cases "n = 0")
    case False
    then have "n < 2 ^ bitlen n" using bitlen_bounds by simp
    also have "bitlen n \<le> 24 + s" by (simp add: s_def)
    then have "(2::nat) ^ bitlen n \<le> 2 ^ (24 + s)" by simp
    finally have "M * 2 ^ s < 2 ^ 24 * 2 ^ s" using n by (simp add: power_add)
    then show ?thesis by simp
  qed (simp add: M_def)
  have M_lo: "2 ^ 23 \<le> M" if "0 < s"
  proof -
    have l: "bitlen n - 1 = 23 + s" using that by (simp add: s_def)
    have "n \<noteq> 0" using that by (cases "n = 0") (simp_all add: s_def)
    then have "2 ^ (23 + s) \<le> n" using bitlen_bounds [of n] l by simp
    then have "2 ^ 23 * 2 ^ s \<le> M * 2 ^ s" using n by (simp add: power_add)
    then show ?thesis by simp
  qed
  have raw: "s * 2 ^ 23 + M < 0x7f800000"
    using s253 M_hi by simp
  have pack: "f32_pack 0 n = s * 2 ^ 23 + M"
    using raw by (simp add: f32_pack_def s_def [symmetric] round_shift_exact [OF dvd] M_def)
  then show "f32_pack 0 n < 0x7f800000" using raw by simp
  show "mag_units (f32_pack 0 n) = n"
  proof (cases "M < 2 ^ 23")
    case True
    then have "s = 0" using M_lo by fastforce
    then show ?thesis unfolding pack using True n by (simp add: mag_units_def)
  next
    case False
    define f where "f = M - 2 ^ 23"
    have M: "M = 2 ^ 23 + f" and f: "f < 2 ^ 23" using False M_hi by (simp_all add: f_def)
    have eq: "s * 2 ^ 23 + M = Suc s * 2 ^ 23 + f" by (simp add: M)
    have "(Suc s * 2 ^ 23 + f) div 2 ^ 23 = Suc s" and "(Suc s * 2 ^ 23 + f) mod 2 ^ 23 = f"
      using f by (simp_all add: div_mult_self3 del: mult_Suc)
    then have "mag_units (Suc s * 2 ^ 23 + f) = (2 ^ 23 + f) * 2 ^ s"
      unfolding mag_units_def by simp
    then show ?thesis unfolding pack eq using M n by simp
  qed
qed

lemma f32_mag_make:
  assumes "b < 2 ^ 31"
  shows "f32_mag (f32_make neg b) = b" and "f32_neg (f32_make neg b) = neg"
proof -
  have u: "unat (f32_make neg b) = (if neg then 2 ^ 31 else 0) + b"
    using assms by (auto simp: f32_make_def unat_word_ariths unat_of_nat)
  show "f32_mag (f32_make neg b) = b"
    unfolding f32_mag_def unsigned_take_bit_eq u using assms by (simp add: take_bit_eq_mod)
  have "bit (f32_make neg b) 31 \<longleftrightarrow> bit (unat (f32_make neg b)) 31"
    by (simp add: bit_unsigned_iff)
  also have "\<dots> \<longleftrightarrow> odd (unat (f32_make neg b) div 2 ^ 31)"
    by (rule bit_iff_odd)
  finally have "bit (f32_make neg b) 31 \<longleftrightarrow> odd (unat (f32_make neg b) div 2 ^ 31)" .
  moreover have "(2 ^ 31 + b) div 2 ^ 31 = 1" and "b div 2 ^ 31 = 0"
    using assms by simp_all
  ultimately show "f32_neg (f32_make neg b) = neg"
    unfolding f32_neg_def u by simp
qed

text \<open>Small integers convert, add and scale by a short significand without rounding.\<close>

lemma f32_of_nat_fields:
  assumes "n < 2 ^ 24"
  shows "f32_units (f32_of_nat n) = int n * 2 ^ 149" and "\<not> f32_neg (f32_of_nat n)"
    and "\<not> f32_is_nan (f32_of_nat n)" and "\<not> f32_is_inf (f32_of_nat n)"
proof -
  have lt: "n * 2 ^ 149 < (2::nat) ^ 277"
  proof -
    have "n * 2 ^ 149 < 2 ^ 24 * (2::nat) ^ 149" using assms by simp
    then show ?thesis by simp
  qed
  note p = mag_units_pack [OF refl assms lt]
  have b: "f32_pack 0 (n * 2 ^ 149) < 2 ^ 31" using p(2) by simp
  note m = f32_mag_make [OF b, of False]
  show "f32_units (f32_of_nat n) = int n * 2 ^ 149"
    unfolding f32_units_def f32_of_nat_def m p(1) by simp
  show "\<not> f32_neg (f32_of_nat n)" unfolding f32_of_nat_def m by simp
  have "f32_exp (f32_of_nat n) < 255"
    unfolding f32_exp_def f32_of_nat_def m using p(2) by (simp add: less_mult_imp_div_less)
  then show "\<not> f32_is_nan (f32_of_nat n)" and "\<not> f32_is_inf (f32_of_nat n)"
    by (simp_all add: f32_is_nan_def f32_is_inf_def)
qed

lemma f32_of_nat_0 [simp]: "f32_of_nat 0 = 0"
  by (simp add: f32_of_nat_def f32_make_def f32_pack_def round_shift_def Let_def)

lemma f32_add_pos:
  assumes "\<not> f32_is_nan x" "\<not> f32_is_nan y" "\<not> f32_is_inf x" "\<not> f32_is_inf y"
    and "f32_units x + f32_units y = int N" and "0 < N"
  shows "f32_add x y = f32_make False (f32_pack 0 N)"
  using assms by (simp add: f32_add_def Let_def)

lemma f32_mul_pos:
  assumes "\<not> f32_is_nan x" "\<not> f32_is_nan y" "\<not> f32_is_inf x" "\<not> f32_is_inf y"
    and "\<not> f32_neg x" "\<not> f32_neg y" and "f32_units x * f32_units y = int N"
  shows "f32_mul x y = f32_make False (f32_pack 149 N)"
  using assms by (simp add: f32_mul_def Let_def)

lemma f32_add_of_nat:
  assumes "a < 2 ^ 24" and "b < 2 ^ 24"
  shows "f32_add (f32_of_nat a) (f32_of_nat b) = f32_of_nat (a + b)"
proof -
  note A = f32_of_nat_fields [OF assms(1)] and B = f32_of_nat_fields [OF assms(2)]
  have v: "f32_units (f32_of_nat a) + f32_units (f32_of_nat b) = int ((a + b) * 2 ^ 149)"
    by (simp add: A B distrib_right)
  show ?thesis
  proof (cases "a + b = 0")
    case True
    then show ?thesis using A B by (simp add: f32_add_def f32_make_def)
  next
    case False
    then have "f32_add (f32_of_nat a) (f32_of_nat b) = f32_make False (f32_pack 0 ((a + b) * 2 ^ 149))"
      using f32_add_pos [OF A(3) B(3) A(4) B(4) v] by simp
    then show ?thesis by (simp only: f32_of_nat_def)
  qed
qed

lemma f32_eq_of_nat_refl: "n < 2 ^ 24 \<Longrightarrow> f32_eq (f32_of_nat n) (f32_of_nat n)"
  using f32_of_nat_fields(3) by (simp add: f32_eq_def)

lemma f32_eq_0_iff: "f32_eq x 0 \<longleftrightarrow> f32_mag x = 0"
  by (auto simp: f32_eq_def f32_is_nan_def f32_exp_def f32_frac_def f32_mag_def)

section \<open>Positive floats by their value\<close>

text \<open>The float nearest to \<open>n\<close> units, and the values for which it is exact.\<close>

definition f32_pos :: "nat \<Rightarrow> f32" where
  "f32_pos n = f32_make False (f32_pack 0 n)"

definition f32_exact :: "nat \<Rightarrow> bool" where
  "f32_exact n \<longleftrightarrow> (\<exists>m j. n = m * 2 ^ j \<and> m < 2 ^ 24) \<and> n < 2 ^ 277"

lemma f32_exactI: "n = m * 2 ^ j \<Longrightarrow> m < 2 ^ 24 \<Longrightarrow> n < 2 ^ 277 \<Longrightarrow> f32_exact n"
  unfolding f32_exact_def by blast

lemma f32_of_nat_pos: "f32_of_nat n = f32_pos (n * 2 ^ 149)"
  by (simp only: f32_of_nat_def f32_pos_def)

lemma f32_pos_mag:
  assumes "f32_exact n"
  shows "f32_mag (f32_pos n) = f32_pack 0 n" and "mag_units (f32_mag (f32_pos n)) = n"
    and "f32_mag (f32_pos n) < 0x7f800000" and "\<not> f32_neg (f32_pos n)"
proof -
  obtain m j where n: "n = m * 2 ^ j" "m < 2 ^ 24" "n < 2 ^ 277" using assms by (auto simp: f32_exact_def)
  note p = mag_units_pack [OF n]
  have b: "f32_pack 0 n < 2 ^ 31" using p(2) by simp
  note m = f32_mag_make [OF b, of False]
  show "f32_mag (f32_pos n) = f32_pack 0 n" and "mag_units (f32_mag (f32_pos n)) = n"
    and "f32_mag (f32_pos n) < 0x7f800000" and "\<not> f32_neg (f32_pos n)"
    unfolding f32_pos_def m by (simp_all add: p)
qed

lemma f32_finite:
  assumes "f32_mag x < 0x7f800000"
  shows "\<not> f32_is_nan x" and "\<not> f32_is_inf x"
proof -
  have "f32_exp x < 255" unfolding f32_exp_def using assms by (simp add: less_mult_imp_div_less)
  then show "\<not> f32_is_nan x" and "\<not> f32_is_inf x" by (simp_all add: f32_is_nan_def f32_is_inf_def)
qed

lemma f32_pos_fields:
  assumes "f32_exact n"
  shows "f32_units (f32_pos n) = int n" and "\<not> f32_is_nan (f32_pos n)" and "\<not> f32_is_inf (f32_pos n)"
  using f32_pos_mag [OF assms] f32_finite by (simp_all add: f32_units_def)

lemma f32_pos_0 [simp]: "f32_pos 0 = 0"
  using f32_of_nat_pos [of 0] by simp

lemma f32_pos_add:
  assumes "f32_exact a" and "f32_exact b"
  shows "f32_add (f32_pos a) (f32_pos b) = f32_pos (a + b)"
proof (cases "a + b = 0")
  case True
  then show ?thesis using f32_add_of_nat [of 0 0] by simp
next
  case False
  note A = f32_pos_fields [OF assms(1)] and B = f32_pos_fields [OF assms(2)]
  have "f32_units (f32_pos a) + f32_units (f32_pos b) = int (a + b)" by (simp add: A B)
  then show ?thesis
    using f32_add_pos [OF A(2) B(2) A(3) B(3)] False by (simp add: f32_pos_def)
qed

text \<open>The value determines the pattern of a magnitude.\<close>

lemma mag_units_less_Suc: "mag_units b < mag_units (Suc b)"
proof -
  define e f where "e = b div 2 ^ 23" and "f = b mod 2 ^ 23"
  have b: "b = e * 2 ^ 23 + f" and f: "f < 2 ^ 23" by (simp_all add: e_def f_def)
  have val: "mag_units (k * 2 ^ 23 + g) = (if k = 0 then g else (2 ^ 23 + g) * 2 ^ (k - 1))" if "g < 2 ^ 23" for k g
    using that by (simp add: mag_units_def)
  show ?thesis
  proof (cases "Suc f < 2 ^ 23")
    case True
    have "Suc b = e * 2 ^ 23 + Suc f" using b by simp
    then show ?thesis using val [OF f, of e] val [OF True, of e] b by simp
  next
    case False
    then have top: "Suc f = 2 ^ 23" using f by simp
    then have "Suc b = Suc e * 2 ^ 23 + 0" using b by simp
    then have suc: "mag_units (Suc b) = 2 ^ 23 * 2 ^ e" using val [of 0 "Suc e"] by simp
    show ?thesis
    proof (cases e)
      case 0
      then show ?thesis using val [OF f, of e] b f suc by simp
    next
      case (Suc k)
      have "(2 ^ 23 + f) * 2 ^ k < (2 ^ 23 * 2) * (2::nat) ^ k" using f by simp
      then show ?thesis using val [OF f, of e] b suc Suc by (simp add: mult.assoc)
    qed
  qed
qed

lemma mag_units_inj: "mag_units a = mag_units b \<Longrightarrow> a = b"
  using strict_mono_eq [OF strict_mono_Suc_iff [THEN iffD2]] mag_units_less_Suc by blast

lemma mag_units_exact:
  assumes "b < 0x7f800000"
  shows "f32_exact (mag_units b)"
proof -
  define e f where "e = b div 2 ^ 23" and "f = b mod 2 ^ 23"
  have f: "f < 2 ^ 23" by (simp add: f_def)
  have e: "e < 255" using assms by (simp add: e_def less_mult_imp_div_less)
  show ?thesis
  proof (cases e)
    case 0
    then have "mag_units b = f * 2 ^ 0" by (simp add: mag_units_def e_def f_def)
    moreover have "f < 2 ^ 277" using f by (rule less_trans) simp
    ultimately show ?thesis using f by (intro f32_exactI [where m = f and j = 0]) simp_all
  next
    case (Suc k)
    then have m: "mag_units b = (2 ^ 23 + f) * 2 ^ k" unfolding mag_units_def e_def [symmetric] f_def [symmetric] by simp
    have "(2 ^ 23 + f) * 2 ^ k < 2 ^ 24 * (2::nat) ^ k" using f by simp
    also have "\<dots> \<le> 2 ^ 24 * 2 ^ 253" using e Suc by (intro mult_le_mono2 power_increasing) simp_all
    finally have "mag_units b < 2 ^ 277" unfolding m by simp
    then show ?thesis using f m by (intro f32_exactI [where m = "2 ^ 23 + f" and j = k]) simp_all
  qed
qed

lemma f32_pos_units:
  assumes "f32_mag x < 0x7f800000" and "\<not> f32_neg x"
  shows "x = f32_pos (mag_units (f32_mag x))"
proof -
  note E = mag_units_exact [OF assms(1)]
  have "f32_mag (f32_pos (mag_units (f32_mag x))) = f32_mag x"
    by (rule mag_units_inj) (rule f32_pos_mag(2) [OF E])
  then have low: "take_bit 31 x = take_bit 31 (f32_pos (mag_units (f32_mag x)))"
    unfolding f32_mag_def by (simp only: word_unat_eq_iff)
  show ?thesis
  proof (rule bit_word_eqI)
    fix n assume "n < LENGTH(32)"
    then consider "n = 31" | "n < 31" by fastforce
    then show "bit x n \<longleftrightarrow> bit (f32_pos (mag_units (f32_mag x))) n"
    proof cases
      case 1
      then show ?thesis using f32_pos_mag(4) [OF E] assms(2) by (simp add: f32_neg_def)
    next
      case 2
      then show ?thesis using arg_cong [OF low, of "\<lambda>w. bit w n"] by (simp add: bit_take_bit_iff)
    qed
  qed
qed

end
