(* ===== verification/Half.thy ===== *)
theory Half
  imports Float32
begin

text \<open>
  examples/common/half.cpp: the conversions between \<open>float\<close> and the 16-bit half
  precision format, on bit patterns as the source computes them
  (\<open>reinterpret_cast\<close> between \<open>float&\<close> and \<open>uint32_t&\<close>).
\<close>

type_synonym half = u16

section \<open>The two conversions\<close>

definition f2h :: "f32 \<Rightarrow> half" where
  "f2h f =
    (if f32_eq f 0 then 0
     else let t = f;
              t = ((drop_bit 16 t AND 0x8000) OR (drop_bit 13 t AND 0x03ff))
                  OR (drop_bit 13 ((t AND 0x7f800000) - 0x38000000) AND 0x7c00)
          in ucast (t AND 0xffff))"

definition h2f :: "half \<Rightarrow> f32" where
  "h2f h =
    (if h AND 0x7fff = 0 then 0
     else let sign = ucast (h AND 0x8000) :: u32;
              t = ucast h :: u32;
              t = ((t AND 0x7c00) + 0x1c000) OR (t AND 0x3ff)
          in push_bit 16 sign OR push_bit 13 t)"

section \<open>Closed forms\<close>

lemma unat_fields32:
  fixes x :: u32
  shows "unat (x AND 0x3ff) = unat x mod 2 ^ 10"
    and "unat (x AND 0x7c00) = unat x div 2 ^ 10 mod 2 ^ 5 * 2 ^ 10"
    and "unat (x AND 0x8000) = unat x div 2 ^ 15 mod 2 * 2 ^ 15"
    and "unat (x AND 0x7f800000) = unat x div 2 ^ 23 mod 2 ^ 8 * 2 ^ 23"
    and "unat (x AND 0xffff) = unat x mod 2 ^ 16"
proof -
  note field = unat_field [where x = x, unfolded mask_eq_exp_minus_1]
  show "unat (x AND 0x3ff) = unat x mod 2 ^ 10" using field [of 10 0] by simp
  show "unat (x AND 0x7c00) = unat x div 2 ^ 10 mod 2 ^ 5 * 2 ^ 10" using field [of 5 10] by simp
  show "unat (x AND 0x8000) = unat x div 2 ^ 15 mod 2 * 2 ^ 15" using field [of 1 15] by simp
  show "unat (x AND 0x7f800000) = unat x div 2 ^ 23 mod 2 ^ 8 * 2 ^ 23" using field [of 8 23] by simp
  show "unat (x AND 0xffff) = unat x mod 2 ^ 16" using field [of 16 0] by simp
qed

lemma unat_fields16:
  fixes h :: u16
  shows "unat (h AND 0x8000) = unat h div 2 ^ 15 mod 2 * 2 ^ 15"
    and "unat (h AND 0x7fff) = unat h mod 2 ^ 15"
proof -
  note field = unat_field [where x = h, unfolded mask_eq_exp_minus_1]
  show "unat (h AND 0x8000) = unat h div 2 ^ 15 mod 2 * 2 ^ 15" using field [of 1 15] by simp
  show "unat (h AND 0x7fff) = unat h mod 2 ^ 15" using field [of 15 0] by simp
qed

text \<open>
  For a nonzero half: the sign is moved up, the exponent field grows by 112 (the difference
  of the two biases), the fraction is padded with zeros. Nothing depends on the class of the
  number, so the exponent fields 0 and 31 are treated like any other.
\<close>

lemma unat_h2f:
  assumes "unat h mod 2 ^ 15 \<noteq> 0"
  shows "unat (h2f h) =
    unat h div 2 ^ 15 * 2 ^ 31 + (unat h div 2 ^ 10 mod 2 ^ 5 + 112) * 2 ^ 23 + unat h mod 2 ^ 10 * 2 ^ 13"
proof -
  have H: "unat h < 2 ^ 16" using unat_less_2p [of h] by simp
  define x where "x = (ucast h :: u32)"
  define sg where "sg = (ucast (h AND 0x8000) :: u32)"
  define e f where "e = unat h div 2 ^ 10 mod 2 ^ 5" and "f = unat h mod 2 ^ 10"
  have bounds: "e < 2 ^ 5" "f < 2 ^ 10" by (simp_all add: e_def f_def)
  have ux: "unat x = unat h" using H by (simp add: x_def unat_ucast_mod)
  have hi: "unat ((x AND 0x7c00) + 0x1c000) = (e + 112) * 2 ^ 10"
    using bounds(1) by (simp add: unat_word_ariths unat_fields32 ux e_def)
  have lo: "unat (x AND 0x3ff) = f" by (simp add: unat_fields32 ux f_def)
  have t: "unat (((x AND 0x7c00) + 0x1c000) OR (x AND 0x3ff)) = (e + 112) * 2 ^ 10 + f"
    unfolding hi [symmetric] lo [symmetric]
    by (rule unat_or_low [of 10]) (simp_all only: hi lo bounds dvd_triv_right)
  have t13: "unat (push_bit 13 (((x AND 0x7c00) + 0x1c000) OR (x AND 0x3ff)))
      = ((e + 112) * 2 ^ 10 + f) * 2 ^ 13"
    using bounds by (subst unat_push_bit) (simp_all add: t)
  have sg: "unat sg = unat h div 2 ^ 15 * 2 ^ 15"
    using H by (simp add: sg_def unat_ucast_mod unat_fields16)
  have "unat (push_bit 16 sg) = unat h div 2 ^ 15 * 2 ^ 31"
    using H by (subst unat_push_bit) (simp_all add: sg)
  moreover have "((e + 112) * 2 ^ 10 + f) * 2 ^ 13 < 2 ^ 31" using bounds by simp
  ultimately have "unat (push_bit 16 sg OR push_bit 13 (((x AND 0x7c00) + 0x1c000) OR (x AND 0x3ff)))
      = unat h div 2 ^ 15 * 2 ^ 31 + ((e + 112) * 2 ^ 10 + f) * 2 ^ 13"
    by (subst unat_or_low [of 31]) (simp_all only: t13 dvd_triv_right)
  moreover have "h AND 0x7fff \<noteq> 0"
    using assms unat_fields16(2) [of h] by (metis unat_0)
  ultimately show ?thesis
    by (simp add: h2f_def Let_def x_def sg_def e_def f_def algebra_simps)
qed

text \<open>
  For a nonzero float: the exponent field is lowered by 112 modulo 32 and the fraction is cut
  to its ten high bits. An exponent outside the range of half precision wraps around.
\<close>

lemma unat_f2h:
  assumes "f32_mag x \<noteq> 0"
  shows "unat (f2h x) = unat x div 2 ^ 31 * 2 ^ 15 + (f32_exp x + 16) mod 2 ^ 5 * 2 ^ 10 + f32_frac x div 2 ^ 13"
proof -
  define T where "T = unat x"
  have T: "T < 2 ^ 32" using unat_less_2p [of x] by (simp add: T_def)
  have mag: "f32_mag x = T mod 2 ^ 31" by (simp add: f32_mag_def unat_take_bit T_def)
  have E: "f32_exp x = T div 2 ^ 23 mod 2 ^ 8"
    unfolding f32_exp_def mag using mod_div_pow2 [of 23 31 T] by simp
  have F: "f32_frac x div 2 ^ 13 = T div 2 ^ 13 mod 2 ^ 10"
    unfolding f32_frac_def mag using mod_div_pow2 [of 13 23 "T mod 2 ^ 31"] mod_div_pow2 [of 13 31 T]
    by (simp add: mod_mod_cancel)
  let ?s = "drop_bit 16 x AND 0x8000" and ?f = "drop_bit 13 x AND 0x03ff"
  let ?e = "drop_bit 13 ((x AND 0x7f800000) - 0x38000000) AND 0x7c00"
  have s: "unat ?s = T div 2 ^ 31 * 2 ^ 15"
  proof -
    have "T div 2 ^ 16 div 2 ^ 15 = T div 2 ^ 31" by (simp add: div_mult2_eq [symmetric])
    moreover have "T div 2 ^ 31 < 2" using T by (simp add: less_mult_imp_div_less)
    ultimately show ?thesis by (simp only: unat_fields32 unat_drop_bit T_def mod_less)
  qed
  have f: "unat ?f = T div 2 ^ 13 mod 2 ^ 10"
    by (simp only: unat_fields32 unat_drop_bit T_def)
  have m: "(x AND 0x7f800000) - 0x38000000 = (x AND 0x7f800000) + (0xc8000000 :: u32)"
    by simp
  have u: "unat ((x AND 0x7f800000) - 0x38000000) = ((f32_exp x + 400) mod 2 ^ 9) * 2 ^ 23"
  proof -
    have "unat ((x AND 0x7f800000) - 0x38000000) = (f32_exp x * 2 ^ 23 + 400 * 2 ^ 23) mod 2 ^ 32"
      unfolding m by (simp add: unat_word_ariths unat_fields32 E T_def)
    also have "f32_exp x * 2 ^ 23 + 400 * 2 ^ 23 = (f32_exp x + 400) * 2 ^ 23" by simp
    also have "(2::nat) ^ 32 = 2 ^ 9 * 2 ^ 23" by simp
    finally show ?thesis by (simp only: mod_mult_mult2)
  qed
  have e: "unat ?e = (f32_exp x + 16) mod 2 ^ 5 * 2 ^ 10"
  proof -
    have "(f32_exp x + 400) mod 2 ^ 9 mod 2 ^ 5 = (f32_exp x + 16 + 12 * 2 ^ 5) mod 2 ^ 5"
      by (simp add: mod_mod_cancel add.commute)
    also have "\<dots> = (f32_exp x + 16) mod 2 ^ 5" by (rule mod_mult_self1)
    finally have "(f32_exp x + 400) mod 2 ^ 9 mod 2 ^ 5 = (f32_exp x + 16) mod 2 ^ 5" .
    moreover have "k * 2 ^ 23 div 2 ^ 13 div 2 ^ 10 = k" for k :: nat
      by (simp add: div_mult2_eq [symmetric])
    ultimately show ?thesis unfolding unat_fields32 unat_drop_bit u by simp
  qed
  have ef: "unat (?e OR ?f) = (f32_exp x + 16) mod 2 ^ 5 * 2 ^ 10 + f32_frac x div 2 ^ 13"
    by (subst unat_or_low [of 10]) (simp_all only: e f F dvd_triv_right, simp)
  have ef_lt: "unat (?e OR ?f) < 2 ^ 15"
  proof -
    have "(f32_exp x + 16) mod 2 ^ 5 < 2 ^ 5" and "f32_frac x div 2 ^ 13 < 2 ^ 10"
      unfolding F by simp_all
    then show ?thesis unfolding ef by simp
  qed
  have sef: "unat (?s OR (?e OR ?f)) = T div 2 ^ 31 * 2 ^ 15 + unat (?e OR ?f)"
    by (subst unat_or_low [of 15]) (simp_all only: s ef_lt dvd_triv_right)
  have "T div 2 ^ 31 < 2" using T by (simp add: less_mult_imp_div_less)
  then have "unat (?s OR (?e OR ?f)) < 2 ^ 16" unfolding sef using ef_lt by simp
  moreover have "(?s OR ?f) OR ?e = ?s OR (?e OR ?f)" by (simp only: ac_simps)
  ultimately have "unat (ucast (((?s OR ?f) OR ?e) AND 0xffff) :: half) = unat (?s OR (?e OR ?f))"
    by (simp add: unat_ucast_mod unat_fields32)
  moreover have "\<not> f32_eq x 0" using assms by (simp add: f32_eq_0_iff)
  ultimately show ?thesis by (simp add: f2h_def Let_def sef ef T_def)
qed

section \<open>Values of half precision numbers\<close>

definition half_neg :: "half \<Rightarrow> bool" where
  "half_neg h \<longleftrightarrow> bit h 15"

definition half_exp :: "half \<Rightarrow> nat" where
  "half_exp h = unat h div 2 ^ 10 mod 2 ^ 5"

definition half_frac :: "half \<Rightarrow> nat" where
  "half_frac h = unat h mod 2 ^ 10"

text \<open>The value of a finite half in units of \<open>2 ^ -24\<close>, the least positive one.\<close>

definition half_mag_units :: "half \<Rightarrow> nat" where
  "half_mag_units h = (if half_exp h = 0 then half_frac h
     else (2 ^ 10 + half_frac h) * 2 ^ (half_exp h - 1))"

definition half_units :: "half \<Rightarrow> int" where
  "half_units h = (if half_neg h then - int (half_mag_units h) else int (half_mag_units h))"

lemma odd_lt_2: "k < 2 \<Longrightarrow> odd k \<longleftrightarrow> k = 1" for k :: nat
  by (auto simp: less_2_cases_iff)

lemma bit_high: "bit x n \<longleftrightarrow> unat x div 2 ^ n = 1" if "Suc n = LENGTH('a)" for x :: "'a::len word"
proof -
  have "unat x < 2 * 2 ^ n" using unat_less_2p [of x] that by (metis power_Suc)
  then have "unat x div 2 ^ n < 2" by (simp add: less_mult_imp_div_less)
  then have "odd (unat x div 2 ^ n) \<longleftrightarrow> unat x div 2 ^ n = 1" by (rule odd_lt_2)
  moreover have "bit x n \<longleftrightarrow> bit (unat x) n" using that by (simp add: bit_unsigned_iff)
  ultimately show ?thesis by (simp add: bit_iff_odd)
qed

lemma half_parts: "unat h = unat h div 2 ^ 15 * 2 ^ 15 + half_exp h * 2 ^ 10 + half_frac h"
proof -
  have "unat h mod 2 ^ 15 = half_exp h * 2 ^ 10 + half_frac h"
    using mod_mult2_eq [of "unat h" "2 ^ 10" "2 ^ 5"] by (simp add: half_exp_def half_frac_def)
  then show ?thesis using div_mult_mod_eq [of "unat h" "2 ^ 15"] by linarith
qed

lemma half_field_bounds: "half_exp h < 32" "half_frac h < 1024" "unat h div 2 ^ 15 < 2"
  using unat_less_2p [of h] by (simp_all add: half_exp_def half_frac_def less_mult_imp_div_less)

lemma half_low_zero: "unat h mod 2 ^ 15 = 0 \<longleftrightarrow> half_exp h = 0 \<and> half_frac h = 0"
proof -
  have "unat h mod 2 ^ 15 = half_exp h * 2 ^ 10 + half_frac h"
    using mod_mult2_eq [of "unat h" "2 ^ 10" "2 ^ 5"] by (simp add: half_exp_def half_frac_def)
  then show ?thesis by simp
qed

lemma h2f_fields:
  assumes "half_exp h \<noteq> 0 \<or> half_frac h \<noteq> 0"
  shows "f32_exp (h2f h) = half_exp h + 112" and "f32_frac (h2f h) = half_frac h * 2 ^ 13"
    and "unat (h2f h) div 2 ^ 31 = unat h div 2 ^ 15" and "f32_mag (h2f h) \<noteq> 0"
proof -
  define s where "s = unat h div 2 ^ 15"
  define m where "m = half_frac h * 2 ^ 13"
  have m: "m < 2 ^ 23" using half_field_bounds(2) [of h] by (simp add: m_def)
  define r where "r = (half_exp h + 112) * 2 ^ 23 + m"
  have r: "r < 2 ^ 31" using half_field_bounds(1) [of h] m by (simp add: r_def)
  have u: "unat (h2f h) = s * 2 ^ 31 + r"
  proof -
    have "unat h mod 2 ^ 15 \<noteq> 0" using assms by (simp only: half_low_zero) blast
    from unat_h2f [OF this] show ?thesis
      by (simp only: s_def r_def m_def half_exp_def half_frac_def add.assoc)
  qed
  have mag: "f32_mag (h2f h) = r"
    using r by (simp add: f32_mag_def unat_take_bit u)
  show "unat (h2f h) div 2 ^ 31 = unat h div 2 ^ 15"
    unfolding u using r by (simp add: s_def)
  show "f32_exp (h2f h) = half_exp h + 112"
    unfolding f32_exp_def mag r_def using m by simp
  show "f32_frac (h2f h) = half_frac h * 2 ^ 13"
    unfolding f32_frac_def mag r_def by (simp only: mod_mult_self3 mod_less [OF m]) (rule m_def)
  show "f32_mag (h2f h) \<noteq> 0" unfolding mag r_def by simp
qed

lemma half_eqI:
  "unat g div 2 ^ 15 = unat h div 2 ^ 15 \<Longrightarrow> half_exp g = half_exp h \<Longrightarrow> half_frac g = half_frac h \<Longrightarrow> g = h"
  using half_parts [of g] half_parts [of h] by (simp add: word_unat_eq_iff)

section \<open>Properties\<close>

lemma f2h_fields:
  assumes "f32_mag x \<noteq> 0"
  shows "half_exp (f2h x) = (f32_exp x + 16) mod 32" and "half_frac (f2h x) = f32_frac x div 2 ^ 13"
    and "unat (f2h x) div 2 ^ 15 = unat x div 2 ^ 31"
proof -
  define e where "e = (f32_exp x + 16) mod 2 ^ 5"
  define f where "f = f32_frac x div 2 ^ 13"
  have f: "f < 2 ^ 10" by (simp add: f_def f32_frac_def less_mult_imp_div_less)
  have e: "e < 2 ^ 5" by (simp add: e_def)
  define r where "r = e * 2 ^ 10 + f"
  have r: "r < 2 ^ 15" using e f by (simp add: r_def)
  have u: "unat (f2h x) = unat x div 2 ^ 31 * 2 ^ 15 + r"
    using unat_f2h [OF assms] by (simp only: e_def f_def r_def add.assoc)
  show "unat (f2h x) div 2 ^ 15 = unat x div 2 ^ 31" unfolding u using r by simp
  have low: "unat (f2h x) mod 2 ^ 10 = f"
  proof -
    have "unat (f2h x) = (unat x div 2 ^ 31 * 2 ^ 5 + e) * 2 ^ 10 + f" unfolding u r_def by simp
    then show ?thesis by (simp only: mod_mult_self3 mod_less [OF f])
  qed
  then show "half_frac (f2h x) = f32_frac x div 2 ^ 13" by (simp add: half_frac_def f_def)
  have "unat (f2h x) div 2 ^ 10 = unat x div 2 ^ 31 * 2 ^ 5 + e" unfolding u r_def using f by simp
  then have "half_exp (f2h x) = e"
    unfolding half_exp_def by (simp only: mod_mult_self3 mod_less [OF e])
  then show "half_exp (f2h x) = (f32_exp x + 16) mod 32" by (simp add: e_def)
qed

lemma f2h_h2f_id: "f2h (h2f h) = (if h = 0x8000 then 0 else h)"
proof (cases "half_exp h = 0 \<and> half_frac h = 0")
  case True
  then have "h AND 0x7fff = 0" using half_low_zero [of h] unat_fields16(2) [of h]
    by (metis unat_0 word_unat_eq_iff)
  then have "f2h (h2f h) = 0" by (simp add: h2f_def f2h_def f32_eq_0_iff f32_mag_def)
  moreover have "h = 0x8000 \<or> h = 0"
  proof -
    have "unat h div 2 ^ 15 = 0 \<or> unat h div 2 ^ 15 = 1" using half_field_bounds(3) [of h] by linarith
    then have "unat h = 0 \<or> unat h = 0x8000" using half_parts [of h] True by auto
    then show ?thesis by (auto simp: word_unat_eq_iff)
  qed
  ultimately show ?thesis by auto
next
  case False
  then have nz: "half_exp h \<noteq> 0 \<or> half_frac h \<noteq> 0" by simp
  note H = h2f_fields [OF nz]
  note F = f2h_fields [OF H(4)]
  have "f2h (h2f h) = h"
  proof (rule half_eqI)
    show "unat (f2h (h2f h)) div 2 ^ 15 = unat h div 2 ^ 15" by (simp only: F H)
    have "half_exp (f2h (h2f h)) = (half_exp h + 4 * 32) mod 32" by (simp add: F H add.commute)
    also have "\<dots> = half_exp h mod 32" by (rule mod_mult_self1)
    finally show "half_exp (f2h (h2f h)) = half_exp h" using half_field_bounds(1) [of h] by simp
    show "half_frac (f2h (h2f h)) = half_frac h" by (simp add: F H)
  qed
  moreover have "h \<noteq> 0x8000" using nz by (auto simp: half_exp_def half_frac_def)
  ultimately show ?thesis by simp
qed

text \<open>
  C27. Converting any half precision pattern to float and back gives the pattern again, for
  denormals, infinities and NaNs too; the only exception is negative zero, which becomes
  positive zero.
\<close>

theorem f2h_h2f: "f2h (h2f h) = (if h = 0x8000 then 0 else h)"
  by (rule f2h_h2f_id)

lemma h2f_exact:
  assumes "1 \<le> half_exp h" and "half_exp h \<le> 30"
  shows "f32_units (h2f h) = half_units h * 2 ^ 125 \<and> \<not> f32_is_nan (h2f h) \<and> \<not> f32_is_inf (h2f h)"
proof (intro conjI)
  have nz: "half_exp h \<noteq> 0 \<or> half_frac h \<noteq> 0" using assms by simp
  note H = h2f_fields [OF nz]
  have neg: "f32_neg (h2f h) = half_neg h"
    using H(3) bit_high [of 31 "h2f h"] bit_high [of 15 h] by (simp add: f32_neg_def half_neg_def)
  obtain k where k: "half_exp h = Suc k" using assms(1) by (cases "half_exp h") simp_all
  have "mag_units (f32_mag (h2f h)) = (2 ^ 23 + half_frac h * 2 ^ 13) * 2 ^ (k + 112)"
    unfolding mag_units_def f32_exp_def [symmetric] f32_frac_def [symmetric] H(1,2) k by simp
  also have "\<dots> = (2 ^ 10 + half_frac h) * 2 ^ 13 * 2 ^ (k + 112)" by simp
  also have "\<dots> = half_mag_units h * 2 ^ 125"
    by (simp add: half_mag_units_def k power_add)
  finally show "f32_units (h2f h) = half_units h * 2 ^ 125"
    by (simp add: f32_units_def half_units_def neg)
  show "\<not> f32_is_nan (h2f h)" and "\<not> f32_is_inf (h2f h)"
    using H(1) assms(2) by (simp_all add: f32_is_nan_def f32_is_inf_def)
qed

text \<open>
  C28. A normal half is converted to the float of exactly the same value
  (\<open>2 ^ 125\<close> is the ratio of the two units).
\<close>

theorem h2f_value:
  assumes "1 \<le> half_exp h" and "half_exp h \<le> 30"
  shows "f32_units (h2f h) = half_units h * 2 ^ 125 \<and> \<not> f32_is_nan (h2f h) \<and> \<not> f32_is_inf (h2f h)"
  by (rule h2f_exact [OF assms])

text \<open>Conversion to half in the normal range, then back, cuts the float after ten fraction bits.\<close>

lemma f2h_normal:
  assumes "113 \<le> f32_exp x" and "f32_exp x \<le> 142"
  shows "half_exp (f2h x) = f32_exp x - 112" and "half_frac (f2h x) = f32_frac x div 2 ^ 13"
    and "unat (f2h x) div 2 ^ 15 = unat x div 2 ^ 31"
proof -
  have "f32_mag x \<noteq> 0" using assms(1) by (auto simp: f32_exp_def)
  note F = f2h_fields [OF this]
  have "f32_exp x + 16 = f32_exp x - 112 + 4 * 32" using assms(1) by simp
  then have "(f32_exp x + 16) mod 32 = (f32_exp x - 112) mod 32"
    by (simp only: mod_mult_self1)
  then show "half_exp (f2h x) = f32_exp x - 112" using F(1) assms(2) by simp
qed (use f2h_fields assms(1) in \<open>auto simp: f32_exp_def\<close>)

lemma f32_parts: "f32_mag x = f32_exp x * 2 ^ 23 + f32_frac x" "unat x = unat x div 2 ^ 31 * 2 ^ 31 + f32_mag x"
  by (simp_all add: f32_exp_def f32_frac_def f32_mag_def unat_take_bit)

text \<open>
  C29. In the range of normal half precision numbers \<open>f2h\<close> rounds towards zero: the
  result has the sign of the argument, its magnitude is at most the magnitude of the argument,
  and one more unit in the last of its ten fraction bits would exceed it.
\<close>

theorem f2h_truncates:
  assumes "113 \<le> f32_exp x" and "f32_exp x \<le> 142"
  shows "half_neg (f2h x) = f32_neg x \<and>
    half_mag_units (f2h x) * 2 ^ 125 \<le> mag_units (f32_mag x) \<and>
    mag_units (f32_mag x) < (half_mag_units (f2h x) + 2 ^ (half_exp (f2h x) - 1)) * 2 ^ 125"
proof (intro conjI)
  note F = f2h_normal [OF assms]
  show "half_neg (f2h x) = f32_neg x"
    using F(3) bit_high [of 31 x] bit_high [of 15 "f2h x"] by (simp add: f32_neg_def half_neg_def)
  define j where "j = f32_exp x - 113"
  have e: "f32_exp x = j + 113" using assms(1) by (simp add: j_def)
  define q where "q = f32_frac x div 2 ^ 13"
  have q: "q * 2 ^ 13 \<le> f32_frac x" "f32_frac x < (q + 1) * 2 ^ 13"
    by (simp_all add: q_def)
  have mag: "mag_units (f32_mag x) = (2 ^ 23 + f32_frac x) * 2 ^ (j + 112)"
    unfolding mag_units_def f32_exp_def [symmetric] f32_frac_def [symmetric] e by simp
  have half: "half_mag_units (f2h x) = (2 ^ 10 + q) * 2 ^ j" and ulp: "half_exp (f2h x) - 1 = j"
    using F e by (simp_all add: half_mag_units_def q_def)
  have p: "(2::nat) ^ j * 2 ^ 125 = 2 ^ 13 * 2 ^ (j + 112)" by (simp add: power_add)
  have "half_mag_units (f2h x) * 2 ^ 125 = (2 ^ 23 + q * 2 ^ 13) * 2 ^ (j + 112)"
    unfolding half mult.assoc p by (simp add: algebra_simps)
  then show "half_mag_units (f2h x) * 2 ^ 125 \<le> mag_units (f32_mag x)"
    unfolding mag using q(1) by simp
  have "(half_mag_units (f2h x) + 2 ^ (half_exp (f2h x) - 1)) * 2 ^ 125
      = (2 ^ 23 + (q + 1) * 2 ^ 13) * 2 ^ (j + 112)"
    unfolding half ulp distrib_right mult.assoc p by (simp add: algebra_simps)
  then show "mag_units (f32_mag x) < (half_mag_units (f2h x) + 2 ^ (half_exp (f2h x) - 1)) * 2 ^ 125"
    unfolding mag using q(2) by simp
qed

text \<open>
  Outside that range \<open>f2h\<close> does not saturate or flush to zero: the exponent field of the
  result is the float's modulo 32. In particular every float from \<open>2 ^ -16\<close> up to \<open>2 ^ -15\<close>
  becomes an infinity or a NaN (field 31), and every float from \<open>2 ^ 17\<close> up to \<open>2 ^ 18\<close> a
  denormal or zero (field 0).
\<close>

theorem f2h_wraps:
  assumes "f32_mag x \<noteq> 0"
  shows "half_exp (f2h x) = (f32_exp x + 16) mod 32 \<and>
    (f32_exp x = 111 \<longrightarrow> half_exp (f2h x) = 31) \<and> (f32_exp x = 144 \<longrightarrow> half_exp (f2h x) = 0)"
  using f2h_fields(1) [OF assms] by simp

theorem h2f_value_witness:
  "f32_units (h2f 0x3d00) = half_units 0x3d00 * 2 ^ 125 \<and> half_units 0x3d00 = 5 * 2 ^ 22"
proof -
  have "half_exp 0x3d00 = 15" by (simp add: half_exp_def)
  then show ?thesis
    using h2f_value [of "0x3d00"]
    by (simp add: half_units_def half_neg_def half_mag_units_def half_frac_def bit_high)
qed

theorem f2h_truncates_witness:
  "\<not> half_neg (f2h 0x3fa01fff) \<and> half_mag_units (f2h 0x3fa01fff) * 2 ^ 125 \<le> mag_units 0x3fa01fff"
proof -
  have "f32_exp 0x3fa01fff = 127" and "f32_mag 0x3fa01fff = 0x3fa01fff" and "\<not> f32_neg 0x3fa01fff"
    by (simp_all add: f32_exp_def f32_mag_def f32_neg_def unat_take_bit bit_high)
  then show ?thesis using f2h_truncates [of "0x3fa01fff"] by simp
qed

theorem f2h_wraps_witness: "half_exp (f2h 0x37800000) = 31"
proof -
  have "f32_exp 0x37800000 = 111" and "f32_mag 0x37800000 \<noteq> 0"
    by (simp_all add: f32_exp_def f32_mag_def unat_take_bit)
  then show ?thesis using f2h_wraps [of "0x37800000"] by simp
qed

end
