(* ===== verification/Gcn.thy ===== *)
theory Gcn
  imports Buffers Half
begin

text \<open>
  The part of the GCN3 instruction set that the kernels of the examples use, as a machine for one
  wavefront: scalar registers, vector registers with one value per lane, the carry and condition
  bits, the byte memory and the real time counter. Loads complete in the background: their
  target registers stay busy until an \<open>s_waitcnt\<close> for their counter. A data parallel primitive
  must not read, from another lane, a register that one of the two instructions before has
  written. The machine stops at an instruction that touches a busy register or meets this
  hazard, so a kernel that runs to its end waits where it must.
\<close>

section \<open>Data parallel primitives\<close>

text \<open>
  The operand of a data parallel primitive takes its value from another lane: from \<open>k\<close> lanes
  before in the same row of 16 (\<open>row_shr:k\<close>), from the last lane of the row before
  (\<open>row_bcast:15\<close>), or from lane 31 (\<open>row_bcast:31\<close>). Where there is no such lane the operand
  is 0 under \<open>bound_ctrl:0\<close>, and the lane is not written otherwise; the masks select the
  rows, and the banks of four lanes of every row, that are written. All 64 lanes are
  active.
\<close>

type_synonym 'a lanes = "nat \<Rightarrow> 'a"

definition row_shr :: "nat \<Rightarrow> 'a lanes \<Rightarrow> nat \<Rightarrow> 'a option" where
  "row_shr k x l = (if k \<le> l mod 16 then Some (x (l - k)) else None)"

definition row_bcast15 :: "'a lanes \<Rightarrow> nat \<Rightarrow> 'a option" where
  "row_bcast15 x l = (if 16 \<le> l then Some (x (l div 16 * 16 - 1)) else None)"

definition row_bcast31 :: "'a lanes \<Rightarrow> nat \<Rightarrow> 'a option" where
  "row_bcast31 x l = (if 32 \<le> l then Some (x 31) else None)"

definition v_add :: "('a \<Rightarrow> 'a \<Rightarrow> 'a) \<Rightarrow> 'a option \<Rightarrow> nat \<Rightarrow> nat \<Rightarrow> 'a lanes \<Rightarrow> (nat \<Rightarrow> 'a option) \<Rightarrow> 'a lanes \<Rightarrow> 'a lanes" where
  "v_add add bound row_mask bank_mask dst src0 src1 l =
     (if odd (row_mask div 2 ^ (l div 16)) \<and> odd (bank_mask div 2 ^ (l mod 16 div 4))
      then (case src0 l of
          Some v \<Rightarrow> add v (src1 l)
        | None \<Rightarrow> (case bound of Some z \<Rightarrow> add z (src1 l) | None \<Rightarrow> dst l))
      else dst l)"

datatype dpp = Row_shr nat | Row_bcast15 | Row_bcast31

definition dpp_operand :: "dpp \<Rightarrow> 'a lanes \<Rightarrow> nat \<Rightarrow> 'a option" where
  "dpp_operand c x = (case c of Row_shr k \<Rightarrow> row_shr k x | Row_bcast15 \<Rightarrow> row_bcast15 x | Row_bcast31 \<Rightarrow> row_bcast31 x)"

section \<open>Instructions\<close>

datatype reg = S nat | V nat

datatype src = Sgpr nat | Vgpr nat | Literal u32 | Exec_lo | Exec_hi

datatype dst = To_sgpr nat | To_exec_lo | To_exec_hi | To_m0

datatype instr =
    S_load_dwordx2 nat nat nat
  | S_load_dwordx4 nat nat nat
  | S_memrealtime nat
  | S_waitcnt bool bool
  | S_add_u32 nat nat nat
  | S_addc_u32 nat nat nat
  | S_cmp_lt_u32 nat nat
  | S_cmp_gt_u32 nat nat
  | S_cbranch_scc1 nat
  | S_nop
  | S_endpgm
  | S_mov_b32 dst src
  | S_mov_b64_exec u64
  | V_mov_b32 nat src
  | V_lshlrev_b32 nat nat nat
  | V_lshrrev_b32 nat nat nat
  | V_mbcnt_lo_u32_b32 nat u32 src
  | V_mbcnt_hi_u32_b32 nat u32 src
  | V_mul_u32_u24 nat nat u32
  | V_add_u32 nat src nat
  | V_addc_u32 nat nat
  | Ds_bpermute_b32 nat nat nat
  | Flat_load_dword nat nat
  | Flat_store_dword nat nat
  | Flat_load_ushort nat nat
  | Flat_store_short nat nat
  | V_add_f32 nat nat nat
  | V_add_f32_dpp nat nat nat dpp bool nat nat
  | V_add_f16 nat nat nat
  | V_cvt_f32_f16 nat nat
  | V_cvt_f16_f32 nat nat
  | V_cvt_f32_i32 nat src
  | V_cmpx_eq_i32 nat u32
  | Ds_add_u32_gds nat nat
  | Ds_read_b32_gds nat nat

text \<open>The registers an instruction reads or writes.\<close>

primrec src_regs :: "src \<Rightarrow> reg list" where
  "src_regs (Sgpr a) = [S a]"
| "src_regs (Vgpr a) = [V a]"
| "src_regs (Literal c) = []"
| "src_regs Exec_lo = []"
| "src_regs Exec_hi = []"

definition dst_regs :: "dst \<Rightarrow> reg list" where
  "dst_regs d = (case d of To_sgpr a \<Rightarrow> [S a] | _ \<Rightarrow> [])"

primrec operands :: "instr \<Rightarrow> reg list" where
  "operands (S_load_dwordx2 d b off) = [S d, S (d + 1), S b, S (b + 1)]"
| "operands (S_load_dwordx4 d b off) = [S d, S (d + 1), S (d + 2), S (d + 3), S b, S (b + 1)]"
| "operands (S_memrealtime d) = [S d, S (d + 1)]"
| "operands (S_waitcnt vm lgkm) = []"
| "operands (S_add_u32 d a b) = [S d, S a, S b]"
| "operands (S_addc_u32 d a b) = [S d, S a, S b]"
| "operands (S_cmp_lt_u32 a b) = [S a, S b]"
| "operands (S_cmp_gt_u32 a b) = [S a, S b]"
| "operands (S_cbranch_scc1 t) = []"
| "operands S_nop = []"
| "operands S_endpgm = []"
| "operands (S_mov_b32 d x) = dst_regs d @ src_regs x"
| "operands (S_mov_b64_exec c) = []"
| "operands (V_mov_b32 d x) = V d # src_regs x"
| "operands (V_lshlrev_b32 d n a) = [V d, V a]"
| "operands (V_lshrrev_b32 d n a) = [V d, V a]"
| "operands (V_mbcnt_lo_u32_b32 d c x) = V d # src_regs x"
| "operands (V_mbcnt_hi_u32_b32 d c x) = V d # src_regs x"
| "operands (V_mul_u32_u24 d a c) = [V d, V a]"
| "operands (V_add_u32 d x b) = [V d, V b] @ src_regs x"
| "operands (V_addc_u32 d a) = [V d, V a]"
| "operands (Ds_bpermute_b32 d a b) = [V d, V a, V b]"
| "operands (Flat_load_dword d a) = [V d, V a, V (a + 1)]"
| "operands (Flat_store_dword a b) = [V a, V (a + 1), V b]"
| "operands (Flat_load_ushort d a) = [V d, V a, V (a + 1)]"
| "operands (Flat_store_short a b) = [V a, V (a + 1), V b]"
| "operands (V_add_f32 d a b) = [V d, V a, V b]"
| "operands (V_add_f32_dpp d a b c bound row bank) = [V d, V a, V b]"
| "operands (V_add_f16 d a b) = [V d, V a, V b]"
| "operands (V_cvt_f32_f16 d a) = [V d, V a]"
| "operands (V_cvt_f16_f32 d a) = [V d, V a]"
| "operands (V_cvt_f32_i32 d x) = V d # src_regs x"
| "operands (V_cmpx_eq_i32 a c) = [V a]"
| "operands (Ds_add_u32_gds a b) = [V a, V b]"
| "operands (Ds_read_b32_gds d a) = [V d, V a]"

text \<open>The vector register an arithmetic instruction writes, and the one read from other lanes.\<close>

definition alu_writes :: "instr \<Rightarrow> nat option" where
  "alu_writes i = (case i of
       V_mov_b32 d x \<Rightarrow> Some d
     | V_lshlrev_b32 d n a \<Rightarrow> Some d
     | V_lshrrev_b32 d n a \<Rightarrow> Some d
     | V_mbcnt_lo_u32_b32 d c x \<Rightarrow> Some d
     | V_mbcnt_hi_u32_b32 d c x \<Rightarrow> Some d
     | V_mul_u32_u24 d a c \<Rightarrow> Some d
     | V_add_u32 d x b \<Rightarrow> Some d
     | V_addc_u32 d a \<Rightarrow> Some d
     | V_add_f32 d a b \<Rightarrow> Some d
     | V_add_f32_dpp d a b c bound row bank \<Rightarrow> Some d
     | V_add_f16 d a b \<Rightarrow> Some d
     | V_cvt_f32_f16 d a \<Rightarrow> Some d
     | V_cvt_f16_f32 d a \<Rightarrow> Some d
     | V_cvt_f32_i32 d x \<Rightarrow> Some d
     | _ \<Rightarrow> None)"

definition dpp_reads :: "instr \<Rightarrow> nat option" where
  "dpp_reads i = (case i of
       V_add_f32_dpp d a b c bound row bank \<Rightarrow> Some a
     | _ \<Rightarrow> None)"

section \<open>The wavefront\<close>

text \<open>
  The lanes whose bit in \<open>exec\<close> is set take part. \<open>pend_lgkm\<close> are the targets of scalar and LDS loads, \<open>pend_flat\<close>
  those of flat loads, which count on both counters. \<open>recent\<close> are the results of the last two instructions. Time is a natural number, of which the
  kernel sees 64 bits.
\<close>

record wave =
  pc :: nat
  exec_mask :: u64
  sreg :: "nat \<Rightarrow> u32"
  vreg :: "nat \<Rightarrow> nat \<Rightarrow> u32"
  scc :: bool
  vcc :: "nat \<Rightarrow> bool"
  pend_lgkm :: "reg list"
  pend_flat :: "reg list"
  recent :: "nat option \<times> nat option"
  gmem :: memory
  m0 :: u32
  gds :: "u32 \<Rightarrow> u32 \<Rightarrow> u32"
  rtc :: nat

text \<open>The floating point arithmetic of the device.\<close>

record alu =
  alu_add_f32 :: "f32 \<Rightarrow> f32 \<Rightarrow> f32"
  alu_add_f16 :: "half \<Rightarrow> half \<Rightarrow> half"
  alu_cvt_f32_f16 :: "half \<Rightarrow> f32"
  alu_cvt_f16_f32 :: "f32 \<Rightarrow> half"
  alu_cvt_f32_i32 :: "u32 \<Rightarrow> f32"

text \<open>A 64-bit value in a pair of registers, the high word first.\<close>

definition pair64 :: "u32 \<Rightarrow> u32 \<Rightarrow> u64" where
  "pair64 hi lo = of_nat (unat hi * 2 ^ 32 + unat lo)"

definition carry :: "u32 \<Rightarrow> u32 \<Rightarrow> bool \<Rightarrow> bool" where
  "carry a b c \<longleftrightarrow> 2 ^ 32 \<le> unat a + unat b + of_bool c"

definition load_sgprs :: "nat \<Rightarrow> nat \<Rightarrow> addr \<Rightarrow> memory \<Rightarrow> (nat \<Rightarrow> u32) \<Rightarrow> nat \<Rightarrow> u32" where
  "load_sgprs n d a m r x = (if d \<le> x \<and> x < d + n then dec_u32 (load_bytes (a + of_nat (4 * (x - d))) 4 m) else r x)"

definition lane_map :: "u64 \<Rightarrow> (nat \<Rightarrow> u32) \<Rightarrow> (nat \<Rightarrow> u32) \<Rightarrow> nat \<Rightarrow> u32" where
  "lane_map e f old i = (if bit e i then f i else old i)"

definition set_lanes :: "u64 \<Rightarrow> nat \<Rightarrow> (nat \<Rightarrow> u32) \<Rightarrow> (nat \<Rightarrow> nat \<Rightarrow> u32) \<Rightarrow> nat \<Rightarrow> nat \<Rightarrow> u32" where
  "set_lanes e d f v = v(d := lane_map e f (v d))"

definition lanes_of :: "u64 \<Rightarrow> nat list" where
  "lanes_of e = filter (bit e) [0..<64]"

text \<open>The mask of the lanes with a property, and the number of bits of \<open>c\<close> below \<open>n\<close>.\<close>

definition mask_of :: "(nat \<Rightarrow> bool) \<Rightarrow> u64" where
  "mask_of P = horner_sum of_bool 2 (map P [0..<64])"

definition bits_below :: "u32 \<Rightarrow> nat \<Rightarrow> u32" where
  "bits_below c n = of_nat (length (filter (bit c) [0..<min n 32]))"

definition flat_addr :: "(nat \<Rightarrow> nat \<Rightarrow> u32) \<Rightarrow> nat \<Rightarrow> nat \<Rightarrow> addr" where
  "flat_addr v a i = pair64 (v (a + 1) i) (v a i)"

definition src_value :: "src \<Rightarrow> wave \<Rightarrow> nat \<Rightarrow> u32" where
  "src_value x w i = (case x of Sgpr a \<Rightarrow> sreg w a | Vgpr a \<Rightarrow> vreg w a i | Literal c \<Rightarrow> c
     | Exec_lo \<Rightarrow> ucast (exec_mask w) | Exec_hi \<Rightarrow> ucast (drop_bit 32 (exec_mask w)))"

lemma src_value_simps [simp]:
  "src_value (Sgpr a) w = (\<lambda>i. sreg w a)"
  "src_value (Vgpr a) w = vreg w a"
  "src_value (Literal c) w = (\<lambda>i. c)"
  "src_value Exec_lo w = (\<lambda>i. ucast (exec_mask w))"
  "src_value Exec_hi w = (\<lambda>i. ucast (drop_bit 32 (exec_mask w)))"
  by (simp_all add: src_value_def fun_eq_iff)

definition set_dst :: "dst \<Rightarrow> u32 \<Rightarrow> wave \<Rightarrow> wave" where
  "set_dst d x w = (case d of
       To_sgpr a \<Rightarrow> w\<lparr>sreg := (sreg w)(a := x)\<rparr>
     | To_exec_lo \<Rightarrow> w\<lparr>exec_mask := pair64 (ucast (drop_bit 32 (exec_mask w))) x\<rparr>
     | To_exec_hi \<Rightarrow> w\<lparr>exec_mask := pair64 x (ucast (exec_mask w))\<rparr>
     | To_m0 \<Rightarrow> w\<lparr>m0 := x\<rparr>)"

text \<open>
  The global data share is a memory of words, selected by \<open>m0\<close> and an address. The lanes of an atomic
  addition take their turns.
\<close>

definition gds_add :: "u32 \<Rightarrow> (nat \<Rightarrow> u32) \<Rightarrow> (nat \<Rightarrow> u32) \<Rightarrow> nat list \<Rightarrow> (u32 \<Rightarrow> u32 \<Rightarrow> u32) \<Rightarrow> u32 \<Rightarrow> u32 \<Rightarrow> u32" where
  "gds_add m a x ls g = fold (\<lambda>i g. g(m := (g m)(a i := g m (a i) + x i))) ls g"

primrec effect :: "alu \<Rightarrow> instr \<Rightarrow> wave \<Rightarrow> wave" where
  "effect A (S_load_dwordx2 d b off) w =
     w\<lparr>sreg := load_sgprs 2 d (pair64 (sreg w (b + 1)) (sreg w b) + of_nat off) (gmem w) (sreg w),
       pend_lgkm := [S d, S (d + 1)] @ pend_lgkm w\<rparr>"
| "effect A (S_load_dwordx4 d b off) w =
     w\<lparr>sreg := load_sgprs 4 d (pair64 (sreg w (b + 1)) (sreg w b) + of_nat off) (gmem w) (sreg w),
       pend_lgkm := [S d, S (d + 1), S (d + 2), S (d + 3)] @ pend_lgkm w\<rparr>"
| "effect A (S_memrealtime d) w =
     w\<lparr>sreg := (sreg w)(d := of_nat (rtc w), d + 1 := of_nat (rtc w div 2 ^ 32)),
       pend_lgkm := [S d, S (d + 1)] @ pend_lgkm w\<rparr>"
| "effect A (S_waitcnt vm lgkm) w =
     w\<lparr>pend_lgkm := (if lgkm then [] else pend_lgkm w), pend_flat := (if vm \<and> lgkm then [] else pend_flat w)\<rparr>"
| "effect A (S_add_u32 d a b) w =
     w\<lparr>sreg := (sreg w)(d := sreg w a + sreg w b), scc := carry (sreg w a) (sreg w b) False\<rparr>"
| "effect A (S_addc_u32 d a b) w =
     w\<lparr>sreg := (sreg w)(d := sreg w a + sreg w b + of_bool (scc w)), scc := carry (sreg w a) (sreg w b) (scc w)\<rparr>"
| "effect A (S_cmp_lt_u32 a b) w = w\<lparr>scc := sreg w a < sreg w b\<rparr>"
| "effect A (S_cmp_gt_u32 a b) w = w\<lparr>scc := sreg w b < sreg w a\<rparr>"
| "effect A (S_cbranch_scc1 t) w = (if scc w then w\<lparr>pc := t\<rparr> else w)"
| "effect A S_nop w = w"
| "effect A S_endpgm w = w"
| "effect A (S_mov_b32 d x) w = set_dst d (src_value x w 0) w"
| "effect A (S_mov_b64_exec c) w = w\<lparr>exec_mask := c\<rparr>"
| "effect A (V_mov_b32 d x) w = w\<lparr>vreg := set_lanes (exec_mask w) d (src_value x w) (vreg w)\<rparr>"
| "effect A (V_lshlrev_b32 d n a) w = w\<lparr>vreg := set_lanes (exec_mask w) d (\<lambda>i. push_bit n (vreg w a i)) (vreg w)\<rparr>"
| "effect A (V_lshrrev_b32 d n a) w = w\<lparr>vreg := set_lanes (exec_mask w) d (\<lambda>i. drop_bit n (vreg w a i)) (vreg w)\<rparr>"
| "effect A (V_mbcnt_lo_u32_b32 d c x) w =
     w\<lparr>vreg := set_lanes (exec_mask w) d (\<lambda>i. src_value x w i + bits_below c i) (vreg w)\<rparr>"
| "effect A (V_mbcnt_hi_u32_b32 d c x) w =
     w\<lparr>vreg := set_lanes (exec_mask w) d (\<lambda>i. src_value x w i + bits_below c (i - 32)) (vreg w)\<rparr>"
| "effect A (V_mul_u32_u24 d a c) w =
     w\<lparr>vreg := set_lanes (exec_mask w) d (\<lambda>i. take_bit 24 (vreg w a i) * take_bit 24 c) (vreg w)\<rparr>"
| "effect A (V_add_u32 d x b) w =
     w\<lparr>vreg := set_lanes (exec_mask w) d (\<lambda>i. src_value x w i + vreg w b i) (vreg w),
       vcc := (\<lambda>i. bit (exec_mask w) i \<and> carry (src_value x w i) (vreg w b i) False)\<rparr>"
| "effect A (V_addc_u32 d a) w =
     w\<lparr>vreg := set_lanes (exec_mask w) d (\<lambda>i. vreg w a i + of_bool (vcc w i)) (vreg w),
       vcc := (\<lambda>i. bit (exec_mask w) i \<and> carry (vreg w a i) 0 (vcc w i))\<rparr>"
| "effect A (Ds_bpermute_b32 d a b) w =
     w\<lparr>vreg := set_lanes (exec_mask w) d (\<lambda>i. vreg w b (unat (vreg w a i) div 4 mod 64)) (vreg w),
       pend_lgkm := V d # pend_lgkm w\<rparr>"
| "effect A (Flat_load_dword d a) w =
     w\<lparr>vreg := set_lanes (exec_mask w) d (\<lambda>i. dec_u32 (load_bytes (flat_addr (vreg w) a i) 4 (gmem w))) (vreg w),
       pend_flat := V d # pend_flat w\<rparr>"
| "effect A (Flat_store_dword a b) w =
     w\<lparr>gmem := fold (\<lambda>i. store_bytes (flat_addr (vreg w) a i) (enc_u32 (vreg w b i))) (lanes_of (exec_mask w)) (gmem w)\<rparr>"
| "effect A (Flat_load_ushort d a) w =
     w\<lparr>vreg := set_lanes (exec_mask w) d (\<lambda>i. ucast (dec_u16 (load_bytes (flat_addr (vreg w) a i) 2 (gmem w)))) (vreg w),
       pend_flat := V d # pend_flat w\<rparr>"
| "effect A (Flat_store_short a b) w =
     w\<lparr>gmem := fold (\<lambda>i. store_bytes (flat_addr (vreg w) a i) (enc_u16 (ucast (vreg w b i)))) (lanes_of (exec_mask w)) (gmem w)\<rparr>"
| "effect A (V_add_f32 d a b) w =
     w\<lparr>vreg := set_lanes (exec_mask w) d (\<lambda>i. alu_add_f32 A (vreg w a i) (vreg w b i)) (vreg w)\<rparr>"
| "effect A (V_add_f32_dpp d a b c bound row bank) w =
     w\<lparr>vreg := set_lanes (exec_mask w) d
         (v_add (alu_add_f32 A) (if bound then Some 0 else None) row bank (vreg w d) (dpp_operand c (vreg w a)) (vreg w b))
         (vreg w)\<rparr>"
| "effect A (V_add_f16 d a b) w =
     w\<lparr>vreg := set_lanes (exec_mask w) d (\<lambda>i. ucast (alu_add_f16 A (ucast (vreg w a i)) (ucast (vreg w b i)))) (vreg w)\<rparr>"
| "effect A (V_cvt_f32_f16 d a) w =
     w\<lparr>vreg := set_lanes (exec_mask w) d (\<lambda>i. alu_cvt_f32_f16 A (ucast (vreg w a i))) (vreg w)\<rparr>"
| "effect A (V_cvt_f16_f32 d a) w =
     w\<lparr>vreg := set_lanes (exec_mask w) d (\<lambda>i. ucast (alu_cvt_f16_f32 A (vreg w a i))) (vreg w)\<rparr>"
| "effect A (V_cvt_f32_i32 d x) w =
     w\<lparr>vreg := set_lanes (exec_mask w) d (\<lambda>i. alu_cvt_f32_i32 A (src_value x w i)) (vreg w)\<rparr>"
| "effect A (V_cmpx_eq_i32 a c) w =
     w\<lparr>vcc := (\<lambda>i. bit (exec_mask w) i \<and> vreg w a i = c),
       exec_mask := mask_of (\<lambda>i. bit (exec_mask w) i \<and> vreg w a i = c)\<rparr>"
| "effect A (Ds_add_u32_gds a b) w =
     w\<lparr>gds := gds_add (m0 w) (vreg w a) (vreg w b) (lanes_of (exec_mask w)) (gds w)\<rparr>"
| "effect A (Ds_read_b32_gds d a) w =
     w\<lparr>vreg := set_lanes (exec_mask w) d (\<lambda>i. gds w (m0 w) (vreg w a i)) (vreg w),
       pend_lgkm := V d # pend_lgkm w\<rparr>"

section \<open>Execution\<close>

definition busy :: "wave \<Rightarrow> reg list \<Rightarrow> bool" where
  "busy w rs \<longleftrightarrow> list_ex (\<lambda>r. List.member (pend_lgkm w @ pend_flat w) r) rs"

text \<open>
  One instruction; \<open>None\<close> at the end of the program, where a busy register is touched, and where
  a data parallel primitive comes too early.
\<close>

definition hazard :: "wave \<Rightarrow> instr \<Rightarrow> bool" where
  "hazard w i \<longleftrightarrow> dpp_reads i \<noteq> None \<and> (dpp_reads i = fst (recent w) \<or> dpp_reads i = snd (recent w))"

definition step :: "alu \<Rightarrow> instr list \<Rightarrow> wave \<Rightarrow> wave option" where
  "step A prog w =
     (if length prog \<le> pc w then None else
      let i = prog ! pc w in
      if i = S_endpgm \<or> busy w (operands i) \<or> hazard w i then None
      else Some (effect A i (w\<lparr>pc := Suc (pc w), recent := (alu_writes i, fst (recent w))\<rparr>)))"

definition halted :: "instr list \<Rightarrow> wave \<Rightarrow> bool" where
  "halted prog w \<longleftrightarrow> pc w < length prog \<and> prog ! pc w = S_endpgm"

text \<open>Running to the end; a program that stops early or never is the value \<open>None\<close>.\<close>

partial_function (option) run_wave :: "alu \<Rightarrow> instr list \<Rightarrow> wave \<Rightarrow> wave option" where
  "run_wave A prog w =
     (if halted prog w then Some w
      else case step A prog w of None \<Rightarrow> None | Some w' \<Rightarrow> run_wave A prog w')"

text \<open>
  The wavefront at the start of a kernel whose only user registers are the address of its
  arguments: \<open>v0\<close> is the number of the work-item, every other register is undefined.
\<close>

definition wave_start :: "nat \<Rightarrow> addr \<Rightarrow> memory \<Rightarrow> nat \<Rightarrow> wave \<Rightarrow> wave" where
  "wave_start lanes p m t undef = \<lparr>pc = 0, exec_mask = mask lanes,
     sreg = (sreg undef)(0 := of_nat (unat p), 1 := of_nat (unat p div 2 ^ 32)),
     vreg = (vreg undef)(0 := of_nat),
     scc = scc undef, vcc = vcc undef, pend_lgkm = [], pend_flat = [], recent = (None, None), gmem = m, m0 = m0 undef, gds = gds undef, rtc = t\<rparr>"

text \<open>A wavefront with zeros in every register, for concrete runs.\<close>

definition blank_wave :: wave where
  "blank_wave = \<lparr>pc = 0, exec_mask = 0, sreg = (\<lambda>_. 0), vreg = (\<lambda>_ _. 0), scc = False, vcc = (\<lambda>_. False),
     pend_lgkm = [], pend_flat = [], recent = (None, None), gmem = (\<lambda>_. 0), m0 = 0, gds = (\<lambda>_ _. 0), rtc = 0\<rparr>"

text \<open>With time passing while an instruction executes.\<close>

inductive wave_step :: "alu \<Rightarrow> instr list \<Rightarrow> wave \<Rightarrow> wave \<Rightarrow> bool" for A prog where
  "step A prog w = Some w' \<Longrightarrow> wave_step A prog w (w'\<lparr>rtc := rtc w' + d\<rparr>)"

inductive_cases wave_stepE: "wave_step A prog w w'"

lemma run_wave_halted: "halted prog w \<Longrightarrow> run_wave A prog w = Some w"
  by (subst run_wave.simps) simp

lemma run_wave_step: "\<not> halted prog w \<Longrightarrow> step A prog w = Some w' \<Longrightarrow> run_wave A prog w = run_wave A prog w'"
  by (subst run_wave.simps) simp

text \<open>A number of instructions.\<close>

primrec steps :: "alu \<Rightarrow> instr list \<Rightarrow> nat \<Rightarrow> wave \<Rightarrow> wave option" where
  "steps A prog 0 w = Some w"
| "steps A prog (Suc n) w = Option.bind (step A prog w) (steps A prog n)"

lemma steps_numeral [simp]: "steps A prog (numeral k) w = Option.bind (step A prog w) (steps A prog (pred_numeral k))"
  by (simp add: numeral_eq_Suc)

lemma step_not_halted: "step A prog w = Some w' \<Longrightarrow> \<not> halted prog w"
  by (auto simp: step_def halted_def Let_def split: if_splits)

lemma run_wave_steps: "steps A prog n w = Some w' \<Longrightarrow> run_wave A prog w = run_wave A prog w'"
proof (induction n arbitrary: w)
  case (Suc n)
  then obtain v where "step A prog w = Some v" "steps A prog n v = Some w'" by (auto simp: bind_eq_Some_conv)
  then show ?case using Suc.IH run_wave_step step_not_halted by metis
qed simp

section \<open>Straight code\<close>

text \<open>
  A list of instructions without its place in a program; with branches and ends left out it does what
  the program does that contains it.
\<close>

primrec run_code :: "alu \<Rightarrow> instr list \<Rightarrow> wave \<Rightarrow> wave option" where
  "run_code A [] w = Some w"
| "run_code A (i # is) w =
     (if busy w (operands i) \<or> hazard w i then None
      else run_code A is (effect A i (w\<lparr>recent := (alu_writes i, fst (recent w))\<rparr>)))"

fun straight :: "instr \<Rightarrow> bool" where
  "straight (S_cbranch_scc1 t) = False"
| "straight S_endpgm = False"
| "straight i = True"

lemma segment_Cons:
  assumes "take (length (i # is)) (drop k prog) = i # is"
  shows "k < length prog" "prog ! k = i" "take (length is) (drop (Suc k) prog) = is"
proof -
  show k: "k < length prog" using assms by (cases "k < length prog") simp_all
  show "prog ! k = i" "take (length is) (drop (Suc k) prog) = is"
    using assms unfolding Cons_nth_drop_Suc [OF k, symmetric] by simp_all
qed

lemma run_code_append: "run_code A (is @ js) w = Option.bind (run_code A is w) (run_code A js)"
  by (induction "is" arbitrary: w) simp_all

lemma effect_pc: "straight i \<Longrightarrow> effect A i (w\<lparr>pc := k\<rparr>) = effect A i w\<lparr>pc := k\<rparr>"
proof -
  have "src_value x (w\<lparr>pc := k\<rparr>) = src_value x w" for x by (cases x) simp_all
  then show "straight i \<Longrightarrow> ?thesis" by (cases i) (simp_all add: set_dst_def split: dst.split)
qed

lemma effect_next: "straight i \<Longrightarrow> effect A i (w\<lparr>pc := k, recent := r\<rparr>) = effect A i (w\<lparr>recent := r\<rparr>)\<lparr>pc := k\<rparr>"
proof -
  have "w\<lparr>pc := k, recent := r\<rparr> = w\<lparr>recent := r\<rparr>\<lparr>pc := k\<rparr>" by simp
  then show "straight i \<Longrightarrow> ?thesis" using effect_pc [where w = "w\<lparr>recent := r\<rparr>" and k = k] by (simp only:)
qed

lemma run_code_pc: "list_all straight is \<Longrightarrow> run_code A is (w\<lparr>pc := k\<rparr>) = map_option (\<lambda>w'. w'\<lparr>pc := k\<rparr>) (run_code A is w)"
proof (induction "is" arbitrary: w)
  case (Cons i "is")
  then show ?case by (auto simp: effect_next busy_def hazard_def)
qed simp

lemma steps_run_code:
  assumes "list_all straight is" and "take (length is) (drop (pc w) prog) = is" and "run_code A is w = Some w'"
  shows "steps A prog (length is) w = Some (w'\<lparr>pc := pc w + length is\<rparr>)"
  using assms
proof (induction "is" arbitrary: w w')
  case (Cons i "is")
  let ?w = "effect A i (w\<lparr>recent := (alu_writes i, fst (recent w))\<rparr>)"
  have ready: "\<not> busy w (operands i)" "\<not> hazard w i" and run: "run_code A is ?w = Some w'"
    using Cons.prems(3) by (auto split: if_splits)
  note code = segment_Cons [OF Cons.prems(2)]
  have i: "straight i" "i \<noteq> S_endpgm" using Cons.prems(1) by auto
  have step: "step A prog w = Some (?w\<lparr>pc := Suc (pc w)\<rparr>)"
    using ready code(1,2) i by (simp add: step_def Let_def effect_next)
  have "run_code A is (?w\<lparr>pc := Suc (pc w)\<rparr>) = Some (w'\<lparr>pc := Suc (pc w)\<rparr>)"
    using run_code_pc Cons.prems(1) run by simp
  from Cons.IH [OF _ _ this] show ?case using Cons.prems(1) code(3) step by simp
qed simp

lemma run_wave_code:
  assumes "list_all straight is" and "pc w = 0" and "run_code A is w = Some w'"
  shows "run_wave A (is @ [S_endpgm]) w = Some (w'\<lparr>pc := length is\<rparr>)"
proof -
  have "steps A (is @ [S_endpgm]) (length is) w = Some (w'\<lparr>pc := length is\<rparr>)"
    using steps_run_code [of "is" w "is @ [S_endpgm]"] assms by simp
  from run_wave_steps [OF this] show ?thesis by (simp add: run_wave_halted halted_def nth_append)
qed

section \<open>Pairs of registers\<close>

lemma unat_pair64: "unat (pair64 hi lo) = unat hi * 2 ^ 32 + unat lo"
proof -
  have "unat hi * 2 ^ 32 + unat lo < 2 ^ 64"
    using unat_less_2p [of hi] unat_less_2p [of lo] by simp
  then show ?thesis unfolding pair64_def by (intro unat_of_nat_lt) simp
qed

lemma pair64_split: "pair64 (of_nat (n div 2 ^ 32)) (of_nat n) = of_nat n"
proof (rule word_unat_eq_iff [THEN iffD2])
  have "n div 2 ^ 32 mod 2 ^ 32 * 2 ^ 32 + n mod 2 ^ 32 = n mod 2 ^ 64"
  proof -
    have "n mod (2 ^ 32 * 2 ^ 32) = 2 ^ 32 * (n div 2 ^ 32 mod 2 ^ 32) + n mod 2 ^ 32" by (rule mod_mult2_eq)
    then show ?thesis by simp
  qed
  then show "unat (pair64 (of_nat (n div 2 ^ 32)) (of_nat n)) = unat (of_nat n :: u64)"
    by (simp only: unat_pair64 unat_of_nat len_of_numeral_defs) (simp add: take_bit_eq_mod)
qed

lemma pair64_pointer [simp]: "pair64 (of_nat (unat p div 4294967296)) (ucast p) = p" for p :: addr
  using pair64_split [of "unat p"] by simp

text \<open>The halves of a pair.\<close>

lemma pair64_lo [simp]: "ucast (pair64 hi lo) = lo"
  using unat_less_2p [of lo] by (simp add: word_unat_eq_iff [of _ lo] unsigned_ucast_eq unat_pair64 take_bit_eq_mod)

lemma pair64_hi [simp]: "ucast (drop_bit 32 (pair64 hi lo)) = hi"
proof -
  have "unat (drop_bit 32 (pair64 hi lo)) = unat hi"
    using unat_less_2p [of lo] by (simp add: unat_drop_bit_eq unat_pair64 drop_bit_eq_div [of _ "unat _ * _ + _"])
  then show ?thesis
    using unat_less_2p [of hi] by (simp add: word_unat_eq_iff [of _ hi] unsigned_ucast_eq take_bit_eq_mod)
qed

lemma pair64_halves [simp]: "pair64 (ucast (drop_bit 32 e)) (ucast e) = e"
proof -
  have "ucast (drop_bit 32 e) = (of_nat (unat e div 2 ^ 32) :: u32)"
  proof -
    have "unat (drop_bit 32 e) = unat e div 2 ^ 32" unfolding unat_drop_bit_eq by (rule drop_bit_eq_div)
    moreover have "ucast (drop_bit 32 e) = (of_nat (unat (drop_bit 32 e)) :: u32)" by simp
    ultimately show ?thesis by (simp only:)
  qed
  moreover have "ucast e = (of_nat (unat e) :: u32)" by simp
  ultimately show ?thesis by (simp only: pair64_split) simp
qed

text \<open>Addition with carry on the two halves is 64-bit addition.\<close>

lemma high_word: "of_nat (n mod 2 ^ 32) * 2 ^ 32 = (of_nat n * 2 ^ 32 :: u64)"
proof -
  have "(of_nat n :: u64) = of_nat (n div 2 ^ 32) * 2 ^ 32 + of_nat (n mod 2 ^ 32)"
    by (metis div_mult_mod_eq of_nat_add of_nat_mult of_nat_numeral of_nat_power)
  moreover have "(2 ^ 32 * 2 ^ 32 :: u64) = 0" by simp
  ultimately show ?thesis by (simp only: distrib_right mult.assoc mult_zero_right add_0)
qed

lemma pair64_sum: "pair64 hi lo = of_nat (unat hi) * 2 ^ 32 + of_nat (unat lo)"
  by (simp add: pair64_def)

lemma pair64_add:
  "pair64 (a + b + of_bool (carry x y False)) (x + y) = pair64 a x + pair64 b y"
proof -
  let ?c = "carry x y False"
  have hi: "unat (a + b + of_bool ?c) = (unat a + unat b + of_bool ?c) mod 2 ^ 32"
    by (cases ?c) (simp_all add: unat_word_ariths mod_simps)
  have "unat x + unat y = unat (x + y) + of_bool ?c * 2 ^ 32"
    using unat_less_2p [of x] unat_less_2p [of y]
    by (cases "2 ^ 32 \<le> unat x + unat y") (simp_all add: carry_def unat_word_ariths le_mod_geq)
  then have lo: "(of_nat (unat x) + of_nat (unat y) :: u64) = of_nat (unat (x + y)) + of_bool ?c * 2 ^ 32"
    by (simp only: of_nat_add [symmetric]) (simp only: of_nat_add of_nat_mult of_nat_power of_nat_numeral of_nat_of_bool)
  have "pair64 (a + b + of_bool ?c) (x + y) =
      of_nat (unat a + unat b + of_bool ?c) * 2 ^ 32 + of_nat (unat (x + y))"
    by (simp only: pair64_sum hi high_word)
  also have "\<dots> = (of_nat (unat a) + of_nat (unat b)) * 2 ^ 32 + (of_nat (unat (x + y)) + of_bool ?c * 2 ^ 32)"
    by (simp add: distrib_right)
  also have "\<dots> = pair64 a x + pair64 b y"
    unfolding lo [symmetric] pair64_sum by (simp add: distrib_right)
  finally show ?thesis .
qed

lemma pair64_offset: "pair64 (a + of_bool (carry x y False)) (x + y) = pair64 a x + ucast y"
proof -
  have "pair64 0 y = ucast y" by (simp add: pair64_def)
  then show ?thesis using pair64_add [of a 0 x y] by simp
qed

text \<open>The comparison by halves is the comparison of the pairs.\<close>

lemma pair64_less: "pair64 a x < pair64 b y \<longleftrightarrow> a < b \<or> a = b \<and> x < y"
proof -
  have "unat x < 2 ^ 32" "unat y < 2 ^ 32" using unat_less_2p [of x] unat_less_2p [of y] by simp_all
  then show ?thesis
    unfolding word_less_nat_alt unat_pair64 word_unat_eq_iff by (cases "unat a" "unat b" rule: linorder_cases) auto
qed

lemma nat_of_bytes_append: "nat_of_bytes (xs @ ys) = nat_of_bytes xs + 256 ^ length xs * nat_of_bytes ys"
  by (induction xs) (simp_all add: algebra_simps)

lemma nat_of_bytes_less: "nat_of_bytes xs < 256 ^ length xs"
proof (induction xs)
  case (Cons x xs)
  have "unat x < 256" using unat_less_2p [of x] by simp
  then show ?case using Cons by simp
qed simp

lemma load_bytes_add: "load_bytes p (a + b) m = load_bytes p a m @ load_bytes (p + of_nat a) b m"
  by (rule nth_equalityI) (auto simp: load_bytes_def nth_append add.assoc of_nat_diff)

lemma unat_dec_u32: "unat (dec_u32 (load_bytes p 4 m)) = nat_of_bytes (load_bytes p 4 m)"
  using nat_of_bytes_less [of "load_bytes p 4 m"] by (simp add: dec_u32_def length_load_bytes)

lemma pair64_load:
  "pair64 (dec_u32 (load_bytes (p + 4) 4 m)) (dec_u32 (load_bytes p 4 m)) = dec_u64 (load_bytes p 8 m)"
proof -
  have "load_bytes p 8 m = load_bytes p 4 m @ load_bytes (p + 4) 4 m"
    using load_bytes_add [of p 4 4 m] by simp
  then have "nat_of_bytes (load_bytes p 8 m) = nat_of_bytes (load_bytes (p + 4) 4 m) * 2 ^ 32 + nat_of_bytes (load_bytes p 4 m)"
    by (simp add: nat_of_bytes_append length_load_bytes)
  then show ?thesis by (simp only: pair64_def unat_dec_u32 dec_u64_def)
qed

section \<open>Lanes\<close>

lemma bit_lanes [simp]: "bit (mask n :: u64) i \<longleftrightarrow> i < n \<and> i < 64"
  by (auto simp: bit_mask_iff)

lemma lanes_of_mask: "n \<le> 64 \<Longrightarrow> lanes_of (mask n) = [0..<n]"
proof -
  assume "n \<le> 64"
  then have "[0..<64] = [0..<n] @ [n..<64]" by (metis le_add_diff_inverse upt_add_eq_append zero_le)
  moreover have "filter (bit (mask n :: u64)) [0..<n] = [0..<n]" using \<open>n \<le> 64\<close> by (intro filter_True) simp
  moreover have "filter (bit (mask n :: u64)) [n..<64] = []" by (simp add: filter_empty_conv)
  ultimately show ?thesis by (simp add: lanes_of_def del: upt_rec_numeral)
qed

lemma lanes_of_64: "lanes_of (mask 64) = [0..<64]"
  by (rule lanes_of_mask) simp

lemma lanes_of_1: "lanes_of 1 = [0]"
  using lanes_of_mask [of 1] by simp

lemma bit_mask_of [simp]: "bit (mask_of P) i \<longleftrightarrow> i < 64 \<and> P i"
  by (auto simp: mask_of_def bit_horner_sum_bit_word_iff)

end
