(* ===== verification/Waiting.thy ===== *)
theory Waiting
  imports Buffers
begin

text \<open>
  \<open>Dispatch::Wait\<close>: when the loop ends, what its result means, and what it leaves alone.
\<close>

text \<open>The limit of the loop, two minutes in the unit of \<open>clock()\<close>.\<close>

definition wait_limit :: "'r hsa \<Rightarrow> int" where
  "wait_limit H = 120 * CLOCKS_PER_SEC H"

section \<open>One round\<close>

lemma wait_round_run:
  assumes "api_signal_wait H (signal s) (ring s) (mem s) (rt s) = ((result, g, m), r)"
    and "api_clock H r = (now, r')"
  shows "wait_round H beg s =
    (let s' = s\<lparr>rt := r', ring := g, mem := m, events := events s @ [Ev_wait (signal s)]\<rparr> in
     if wait_limit H < now - beg
     then (Inr (Some False), s'\<lparr>out_stream := out_stream s @
       [Str ''Kernel execution timed out, elapsed time: '', Unsigned (nat (now - beg)), Endl]\<rparr>)
     else (Inr (if result \<noteq> 0 then None else Some True), s'))"
  using assms by (simp add: wait_round_def hsa_signal_wait_def read_clock_def wait_limit_def TIMEOUT_def exec Let_def)

lemma read_clock_run [exec]: "read_clock H s = (Inr (fst (api_clock H (rt s))), s\<lparr>rt := snd (api_clock H (rt s))\<rparr>)"
  by (rule read_clock_def)

text \<open>A state that differs from another one only by what waiting may change.\<close>

definition waited :: "('r, 'z) Dispatch_scheme \<Rightarrow> ('r, 'z) Dispatch_scheme \<Rightarrow> bool" where
  "waited s t \<longleftrightarrow> (\<exists>n r g m out. t = s\<lparr>rt := r, ring := g, mem := m, out_stream := out,
     events := events s @ replicate n (Ev_wait (signal s))\<rparr>)"

lemma waitedI:
  "t = s\<lparr>rt := r, ring := g, mem := m, out_stream := out, events := events s @ replicate n (Ev_wait (signal s))\<rparr>
    \<Longrightarrow> waited s t"
  unfolding waited_def by (intro exI)

lemma waited_rt: "waited s (s\<lparr>rt := r\<rparr>)"
  by (rule waitedI [where n = 0 and g = "ring s" and m = "mem s" and out = "out_stream s"]) (cases s, simp)

lemma waited_signal: "waited s t \<Longrightarrow> signal t = signal s"
  by (auto simp: waited_def)

interpretation waited: frame waited
proof
  fix s t u :: "('r, 'z) Dispatch_scheme"
  show "waited s s" using waited_rt [of s "rt s"] by (cases s) simp
  assume "waited s t" and "waited t u"
  then obtain n r g m out k r' g' m' out' where
    t: "t = s\<lparr>rt := r, ring := g, mem := m, out_stream := out, events := events s @ replicate n (Ev_wait (signal s))\<rparr>"
    and u: "u = t\<lparr>rt := r', ring := g', mem := m', out_stream := out', events := events t @ replicate k (Ev_wait (signal t))\<rparr>"
    unfolding waited_def by (elim exE)
  show "waited s u"
    by (rule waitedI [where n = "n + k" and r = r' and g = g' and m = m' and out = out'])
       (simp add: u t replicate_add)
qed

lemma waited_wait_round [stable_intros]: "stable waited (wait_round H beg)"
  unfolding stable_def
proof
  fix s :: "('a, 'b) Dispatch_scheme"
  obtain result g m r where w: "api_signal_wait H (signal s) (ring s) (mem s) (rt s) = ((result, g, m), r)"
    by (metis surj_pair)
  obtain now r' where c: "api_clock H r = (now, r')" by fastforce
  show "waited s (snd (wait_round H beg s))"
    unfolding wait_round_run [OF w c] Let_def
    by (cases s) (auto intro!: waitedI [where n = 1])
qed

lemma waited_read_clock [stable_intros]: "stable waited (read_clock H)"
  unfolding stable_def
proof
  fix s :: "('a, 'b) Dispatch_scheme"
  show "waited s (snd (read_clock H s))"
    by (simp add: exec waited_rt)
qed

lemma waited_Wait [stable_intros]: "stable waited (Wait H)"
  unfolding Wait_def by (intro stable_intros)

section \<open>The rounds\<close>

text \<open>
  What the runtime, the device and the clock do in the loop, apart from the object: a round waits on the
  signal, then reads the clock. \<open>env_before H s n\<close> is what the first \<open>n\<close> rounds leave of the
  packets, the memory and the runtime, the clock having been read once before the loop.
\<close>

definition wait_once :: "'r hsa \<Rightarrow> u64 \<Rightarrow> ring \<times> memory \<times> 'r \<Rightarrow> (u64 \<times> int) \<times> (ring \<times> memory \<times> 'r)" where
  "wait_once H sig = (\<lambda>(g, m, r).
     let ((result, g', m'), r') = api_signal_wait H sig g m r; (now, r'') = api_clock H r'
     in ((result, now), (g', m', r'')))"

primrec env_before :: "'r hsa \<Rightarrow> ('r, 'z) Dispatch_scheme \<Rightarrow> nat \<Rightarrow> ring \<times> memory \<times> 'r" where
  "env_before H s 0 = (ring s, mem s, snd (api_clock H (rt s)))"
| "env_before H s (Suc n) = snd (wait_once H (signal s) (env_before H s n))"

text \<open>The signal's value and the time since the first reading in round \<open>n\<close>, counted from 0.\<close>

definition signal_in :: "'r hsa \<Rightarrow> ('r, 'z) Dispatch_scheme \<Rightarrow> nat \<Rightarrow> u64" where
  "signal_in H s n = fst (fst (wait_once H (signal s) (env_before H s n)))"

definition elapsed_in :: "'r hsa \<Rightarrow> ('r, 'z) Dispatch_scheme \<Rightarrow> nat \<Rightarrow> int" where
  "elapsed_in H s n = snd (fst (wait_once H (signal s) (env_before H s n))) - fst (api_clock H (rt s))"

text \<open>A round goes on while the signal is up and the time is within the limit.\<close>

definition goes_on :: "'r hsa \<Rightarrow> ('r, 'z) Dispatch_scheme \<Rightarrow> nat \<Rightarrow> bool" where
  "goes_on H s n \<longleftrightarrow> signal_in H s n \<noteq> 0 \<and> elapsed_in H s n \<le> wait_limit H"

text \<open>An object with its packets, memory and runtime replaced, after a number of waits.\<close>

definition having_waited :: "nat \<Rightarrow> ring \<times> memory \<times> 'r \<Rightarrow> ('r, 'z) Dispatch_scheme \<Rightarrow> ('r, 'z) Dispatch_scheme" where
  "having_waited n = (\<lambda>(g, m, r) s. s\<lparr>ring := g, mem := m, rt := r, events := events s @ replicate n (Ev_wait (signal s))\<rparr>)"

definition timeout_report :: "int \<Rightarrow> item list" where
  "timeout_report elapsed = [Str ''Kernel execution timed out, elapsed time: '', Unsigned (nat elapsed), Endl]"

lemma wait_round_in:
  fixes H :: "'r hsa" and s :: "('r, 'z) Dispatch_scheme"
  defines "after \<equiv> \<lambda>n. having_waited n (env_before H s n) s"
  shows "wait_round H (fst (api_clock H (rt s))) (after n) =
    (if wait_limit H < elapsed_in H s n
     then (Inr (Some False), (after (Suc n))\<lparr>out_stream := out_stream s @ timeout_report (elapsed_in H s n)\<rparr>)
     else (Inr (if signal_in H s n \<noteq> 0 then None else Some True), after (Suc n)))"
proof -
  obtain g m r where e: "env_before H s n = (g, m, r)" by (metis prod_cases3)
  obtain result g' m' r' where w: "api_signal_wait H (signal s) g m r = ((result, g', m'), r')" by (metis surj_pair)
  obtain now r'' where c: "api_clock H r' = (now, r'')" by fastforce
  let ?s = "s\<lparr>ring := g, mem := m, rt := r, events := events s @ replicate n (Ev_wait (signal s))\<rparr>"
  have "api_signal_wait H (signal ?s) (ring ?s) (mem ?s) (rt ?s) = ((result, g', m'), r')" using w by simp
  from wait_round_run [OF this c] show ?thesis
    by (simp add: after_def having_waited_def e wait_once_def w c signal_in_def elapsed_in_def timeout_report_def
        Let_def replicate_append_same [symmetric])
qed

lemma Wait_start: "Wait H s = repeat_until (wait_round H (fst (api_clock H (rt s)))) (having_waited 0 (env_before H s 0) s)"
  by (cases s) (simp add: Wait_def exec having_waited_def)

lemma Wait_ends:
  assumes "\<And>k. k < n \<Longrightarrow> goes_on H s k" and "\<not> goes_on H s n"
  shows "Wait H s =
    (let late = wait_limit H < elapsed_in H s n in
     (Inr (\<not> late), (having_waited (Suc n) (env_before H s (Suc n)) s)
        \<lparr>out_stream := out_stream s @ (if late then timeout_report (elapsed_in H s n) else [])\<rparr>))"
proof -
  let ?after = "\<lambda>n. having_waited n (env_before H s n) s" and ?body = "wait_round H (fst (api_clock H (rt s)))"
  let ?t = "if wait_limit H < elapsed_in H s n
    then (?after (Suc n))\<lparr>out_stream := out_stream s @ timeout_report (elapsed_in H s n)\<rparr> else ?after (Suc n)"
  have "repeat_until ?body (?after 0) = (Inr (\<not> wait_limit H < elapsed_in H s n), ?t)"
  proof (rule repeat_until_along [where st = ?after and n = n])
    show "?body (?after k) = (Inr None, ?after (Suc k))" if "k < n" for k
      using assms(1) [OF that] by (simp add: wait_round_in goes_on_def del: env_before.simps)
    show "?body (?after n) = (Inr (Some (\<not> wait_limit H < elapsed_in H s n)), ?t)"
      using assms(2) by (auto simp: wait_round_in goes_on_def simp del: env_before.simps)
  qed
  moreover have "out_stream (?after k) = out_stream s" for k
    by (simp add: having_waited_def split: prod.split)
  ultimately show ?thesis unfolding Wait_start by (simp add: Let_def del: env_before.simps)
qed

lemma Wait_diverges:
  assumes "\<And>n. goes_on H s n"
  shows "fst (Wait H s) = Inl Diverges"
proof -
  let ?I = "\<lambda>t. \<exists>n. t = having_waited n (env_before H s n) s"
  have "repeat_until (wait_round H (fst (api_clock H (rt s)))) (having_waited 0 (env_before H s 0) s) =
      (Inl Diverges, having_waited 0 (env_before H s 0) s)"
  proof (rule repeat_until_diverges [where I = ?I])
    fix t assume "?I t"
    then obtain n where "t = having_waited n (env_before H s n) s" ..
    then show "\<exists>t'. wait_round H (fst (api_clock H (rt s))) t = (Inr None, t') \<and> ?I t'"
      using assms [of n] by (auto simp: wait_round_in goes_on_def simp del: env_before.simps)
  qed (rule exI, rule refl)
  then show ?thesis unfolding Wait_start by simp
qed

lemma first_stop:
  assumes "\<not> goes_on H s n"
  obtains k where "k \<le> n" "\<not> goes_on H s k" "\<And>i. i < k \<Longrightarrow> goes_on H s i"
  using assms exists_least_iff [of "\<lambda>n. \<not> goes_on H s n"] by (metis not_le)

section \<open>Termination and result\<close>

text \<open>
  C21. When \<open>Wait\<close> returns. Number its rounds from 0; a round waits on the object's signal and then reads
  the clock. \<open>Wait\<close> returns exactly if in some round the signal is 0 or the time since the first
  reading is beyond two minutes, and then it makes exactly the rounds up to the first such one: no
  round begins once a reading was beyond the limit or the signal was seen at 0, and none is left
  out before. If there is no such round, it waits for ever. Nothing is asked of the clock.
\<close>

theorem Wait_returns:
  "case Wait H s of
     (Inr b, t) \<Rightarrow> \<exists>n. (signal_in H s n = 0 \<or> 120 * CLOCKS_PER_SEC H < elapsed_in H s n) \<and>
       (\<forall>k<n. signal_in H s k \<noteq> 0 \<and> elapsed_in H s k \<le> 120 * CLOCKS_PER_SEC H) \<and>
       events t = events s @ replicate (Suc n) (Ev_wait (signal s))
   | (Inl e, t) \<Rightarrow> e = Diverges \<and> (\<forall>n. signal_in H s n \<noteq> 0 \<and> elapsed_in H s n \<le> 120 * CLOCKS_PER_SEC H)"
proof (cases "\<forall>n. goes_on H s n")
  case True
  then show ?thesis using Wait_diverges [of H s] by (auto simp: goes_on_def wait_limit_def split: prod.split)
next
  case False
  then obtain n where n: "\<not> goes_on H s n" "\<And>k. k < n \<Longrightarrow> goes_on H s k" using first_stop by metis
  have "\<And>env. events (having_waited (Suc n) env s) = events s @ replicate (Suc n) (Ev_wait (signal s))"
    by (simp add: having_waited_def split: prod.split)
  then show ?thesis using Wait_ends [OF n(2,1)] n
    by (auto simp: goes_on_def wait_limit_def Let_def simp del: env_before.simps intro!: exI [of _ n])
qed

text \<open>
  C22. What the result of \<open>Wait\<close> means and what waiting changes. It made \<open>n + 1\<close> rounds; in the earlier ones
  the signal was up and the time within the limit. The result is true exactly if the last reading is
  within two minutes, and then the signal had reached 0 in that round: true is never
  returned for a kernel that has not completed, and a completion noticed after the limit
  counts as a timeout. The object is as before, except that its packets, memory and runtime are what
  these rounds made of them, that the waits are recorded, and that a timeout is reported with the
  time elapsed.
\<close>

theorem Wait_result:
  assumes "Wait H s = (Inr b, t)"
  shows "\<exists>n g m r. env_before H s (Suc n) = (g, m, r) \<and>
    (\<forall>k<n. signal_in H s k \<noteq> 0 \<and> elapsed_in H s k \<le> 120 * CLOCKS_PER_SEC H) \<and>
    (b \<longleftrightarrow> elapsed_in H s n \<le> 120 * CLOCKS_PER_SEC H) \<and> (b \<longrightarrow> signal_in H s n = 0) \<and>
    t = s\<lparr>ring := g, mem := m, rt := r, events := events s @ replicate (Suc n) (Ev_wait (signal s)),
      out_stream := out_stream s @ (if b then [] else
        [Str ''Kernel execution timed out, elapsed time: '', Unsigned (nat (elapsed_in H s n)), Endl])\<rparr>"
proof -
  have "\<not> (\<forall>n. goes_on H s n)" using Wait_diverges [of H s] assms by auto
  then obtain n where n: "\<not> goes_on H s n" "\<And>k. k < n \<Longrightarrow> goes_on H s k" using first_stop by metis
  obtain g m r where env: "env_before H s (Suc n) = (g, m, r)" by (metis prod_cases3)
  have "Wait H s = (let late = wait_limit H < elapsed_in H s n in
     (Inr (\<not> late), (having_waited (Suc n) (g, m, r) s)
        \<lparr>out_stream := out_stream s @ (if late then timeout_report (elapsed_in H s n) else [])\<rparr>))"
    unfolding env [symmetric] by (rule Wait_ends) (use n in simp_all)
  then have "b \<longleftrightarrow> \<not> wait_limit H < elapsed_in H s n" and "t = (having_waited (Suc n) (g, m, r) s)
      \<lparr>out_stream := out_stream s @ (if wait_limit H < elapsed_in H s n then timeout_report (elapsed_in H s n) else [])\<rparr>"
    using assms by (auto simp: Let_def)
  then show ?thesis using env n
    by (intro exI [of _ n] exI [of _ g] exI [of _ m] exI [of _ r])
       (auto simp: goes_on_def wait_limit_def having_waited_def timeout_report_def simp del: env_before.simps)
qed

theorem Wait_returns_witness:
  "\<exists>b t n. Wait (ref_hsa (\<lambda>p m. m)) ((ref_object 0 ())\<lparr>rt := ref_start\<lparr>rung := Some 0\<rparr>\<rparr>) = (Inr b, t) \<and>
    events t = replicate (Suc n) (Ev_wait 21)"
proof -
  let ?s = "(ref_object 0 ())\<lparr>rt := ref_start\<lparr>rung := Some 0\<rparr>\<rparr>" and ?H = "ref_hsa (\<lambda>p m. m)"
  have "\<exists>t. Wait ?H ?s = (Inr True, t)"
    by (simp add: Wait_def exec repeat_until_done wait_round_def hsa_signal_wait_def TIMEOUT_def ref_defs)
  moreover have "events ?s = []" "signal ?s = 21" by (simp_all add: ref_object_def ref_storage_def Dispatch_Dispatch_def)
  ultimately show ?thesis using Wait_returns [of ?H ?s] by fastforce
qed

theorem Wait_result_witness:
  "\<exists>t n g m r. Wait (ref_hsa (\<lambda>p m. m)) ((ref_object 0 ())\<lparr>rt := ref_start\<lparr>rung := Some 0\<rparr>\<rparr>) = (Inr True, t) \<and>
    signal_in (ref_hsa (\<lambda>p m. m)) ((ref_object 0 ())\<lparr>rt := ref_start\<lparr>rung := Some 0\<rparr>\<rparr>) n = 0 \<and>
    t = (ref_object 0 ())\<lparr>ring := g, mem := m, rt := r, events := replicate (Suc n) (Ev_wait 21)\<rparr>"
proof -
  let ?s = "(ref_object 0 ())\<lparr>rt := ref_start\<lparr>rung := Some 0\<rparr>\<rparr>" and ?H = "ref_hsa (\<lambda>p m. m)"
  obtain t where run: "Wait ?H ?s = (Inr True, t)"
    by (simp add: Wait_def exec repeat_until_done wait_round_def hsa_signal_wait_def TIMEOUT_def ref_defs)
  obtain n g m r where "signal_in ?H ?s n = 0"
    and "t = ?s\<lparr>ring := g, mem := m, rt := r, events := events ?s @ replicate (Suc n) (Ev_wait (signal ?s)), out_stream := out_stream ?s @ []\<rparr>"
    using Wait_result [OF run] by auto
  then show ?thesis using run by (intro exI [of _ t] exI [of _ n] exI [of _ g] exI [of _ m] exI [of _ r])
    (simp add: ref_object_def ref_storage_def Dispatch_Dispatch_def)
qed

text \<open>
  A kernel that completes, but is noticed only after the limit, is reported as timed out:
  \<open>Wait\<close> looks at the clock before it looks at the signal.
\<close>

theorem Wait_late_completion:
  assumes "api_clock H (rt s) = (beg, rb)"
    and "api_signal_wait H (signal s) (ring s) (mem s) rb = ((0, g, m), r)"
    and "api_clock H r = (now, r')" and "beg + wait_limit H < now"
  shows "\<exists>t. Wait H s = (Inr False, t) \<and> mem t = m"
proof -
  have "wait_round H beg (s\<lparr>rt := rb\<rparr>) = (Inr (Some False), s\<lparr>rt := r', ring := g, mem := m,
      events := events s @ [Ev_wait (signal s)], out_stream := out_stream s @
        [Str ''Kernel execution timed out, elapsed time: '', Unsigned (nat (now - beg)), Endl]\<rparr>)"
    by (subst wait_round_run [where result = 0 and g = g and m = m and r = r and now = now and r' = r'])
       (use assms in \<open>simp_all add: Let_def\<close>)
  from repeat_until_done [where body = "wait_round H beg", OF this] show ?thesis
    using assms(1) by (simp add: Wait_def exec)
qed

theorem Wait_late_completion_witness:
  "\<exists>t. Wait ((ref_hsa (\<lambda>p m. m))\<lparr>CLOCKS_PER_SEC := 0\<rparr>) ((ref_object 0 ())\<lparr>rt := ref_start\<lparr>rung := Some 0\<rparr>\<rparr>)
    = (Inr False, t) \<and> mem t = (\<lambda>_. 0)"
  by (rule Wait_late_completion [where beg = 0 and rb = "ref_start\<lparr>ticks := 1, rung := Some 0\<rparr>"
        and g = "(\<lambda>_. ref_packet)(0 := ref_packet\<lparr>pkt_header := 1\<rparr>)" and r = "ref_start\<lparr>ticks := 2\<rparr>" and now = 2 and r' = "ref_start\<lparr>ticks := 3\<rparr>"])
     (simp_all add: ref_defs wait_limit_def)

end
