(* ===== verification/Packet.thy ===== *)
theory Packet
  imports Discovery
begin

text \<open>
  The dispatch packet: which slot \<open>InitDispatch\<close> claims and what it leaves in it, what
  \<open>RunDispatch\<close> publishes, and the operations between the two, none of which touches the
  first four bytes of a packet or rings the doorbell.
\<close>

section \<open>Quiet operations\<close>

text \<open>The events by which the device can learn of a packet.\<close>

fun is_publication :: "event \<Rightarrow> bool" where
  "is_publication (Ev_header_store slot h) = True"
| "is_publication (Ev_doorbell sig i) = True"
| "is_publication _ = False"

definition quiet :: "('r, 'z) Dispatch_scheme \<Rightarrow> ('r, 'z) Dispatch_scheme \<Rightarrow> bool" where
  "quiet s t \<longleftrightarrow>
     queue t = queue s \<and> signal t = signal s \<and> aql t = aql s \<and> packet_index t = packet_index s \<and>
     group_dynamic_size t = group_dynamic_size s \<and> cout t = cout s \<and>
     (\<forall>i. pkt_header (ring t i) = pkt_header (ring s i) \<and> pkt_setup (ring t i) = pkt_setup (ring s i) \<and>
        completion_signal (ring t i) = completion_signal (ring s i)) \<and>
     (\<forall>i. i \<noteq> aql s \<longrightarrow> ring t i = ring s i) \<and>
     (\<exists>es. events t = events s @ es \<and> filter is_publication es = [])"

interpretation quiet: frame quiet
proof
  fix s t u :: "('r, 'z) Dispatch_scheme"
  show "quiet s s" by (simp add: quiet_def)
  assume "quiet s t" and "quiet t u"
  then show "quiet s u" by (fastforce simp: quiet_def)
qed

lemma quiet_hsa_call [stable_intros]:
  "(\<And>x. \<not> is_publication (e x)) \<Longrightarrow> stable quiet (hsa_call e f)"
  by (simp add: stable_def hsa_call_def quiet_def)

lemma quiet_hsa_query [stable_intros]: "stable quiet (hsa_query f)"
  by (simp add: hsa_query_def quiet.stable_gets)

lemma quiet_put [stable_intros]: "stable quiet (put xs)"
  by (simp add: stable_def put_run quiet_def)

lemma quiet_update_packet [stable_intros]:
  "(\<And>p. pkt_header (f p) = pkt_header p \<and> pkt_setup (f p) = pkt_setup p \<and> completion_signal (f p) = completion_signal p) \<Longrightarrow>
    stable quiet (update_packet f)"
  by (auto simp: stable_def update_packet_run quiet_def)

lemma quiet_HsaError [stable_intros]: "stable quiet (HsaError H msg st)"
  by (simp add: HsaError_def Let_def quiet.stable_bind quiet_put quiet.stable_ret)

lemma quiet_hsa_check [stable_intros]:
  "stable quiet m \<Longrightarrow> stable quiet (hsa_check H msg st m)"
  by (simp add: hsa_check_def quiet_HsaError)

lemma quiet_hsa_memory_copy [stable_intros]: "stable quiet (hsa_memory_copy H d p n)"
  by (simp add: stable_def hsa_memory_copy_def quiet_def split: prod.split)

lemma quiet_hsa_memory_allocate [stable_intros]: "stable quiet (hsa_memory_allocate H g n)"
  unfolding hsa_memory_allocate_def by (rule quiet_hsa_call) (simp split: prod.split)

lemma quiet_free [stable_intros]: "stable quiet (free p)"
  by (simp add: stable_def free_def log_event_run quiet_def)

lemma quiet_modify_memory [stable_intros]: "stable quiet (modify (\<lambda>s. s\<lparr>mem := f s\<rparr>))"
  by (rule stable_modify) (simp add: quiet_def)

lemma quiet_modify_kernarg [stable_intros]:
  "stable quiet (modify (\<lambda>s. s\<lparr>kernarg := k s\<rparr>))"
  "stable quiet (modify (\<lambda>s. s\<lparr>kernarg_offset := f s\<rparr>))"
  by (rule stable_modify, simp add: quiet_def)+

lemma quiet_modify_code [stable_intros]:
  "stable quiet (modify (\<lambda>s. s\<lparr>code_object := c\<rparr>))"
  "stable quiet (modify (\<lambda>s. s\<lparr>executable := x\<rparr>))"
  "stable quiet (modify (\<lambda>s. s\<lparr>group_static_size := n\<rparr>))"
  by (rule stable_modify, simp add: quiet_def)+

subsection \<open>The operations a subclass uses\<close>

lemma quiet_SetGridSize [stable_intros]: "stable quiet (SetGridSize x y z)"
  unfolding SetGridSize_def by (rule quiet_update_packet) simp

lemma quiet_SetWorkgroupSize [stable_intros]: "stable quiet (SetWorkgroupSize x y z)"
  unfolding SetWorkgroupSize_def by (rule quiet_update_packet) simp

lemma quiet_AllocateKernarg [stable_intros]: "stable quiet (AllocateKernarg H n)"
  unfolding AllocateKernarg_def by (intro stable_intros) simp

lemma quiet_KernargRaw [stable_intros]: "stable quiet (KernargRaw src n al)"
  unfolding KernargRaw_def by (intro stable_intros)

lemma quiet_Kernarg [stable_intros]: "stable quiet (Kernarg bp)"
  unfolding Kernarg_def by (intro stable_intros)

lemma quiet_allocators [stable_intros]:
  "stable quiet (AllocateSystemMemory H n)"
  "stable quiet (AllocateLocalMemory H n)"
  "stable quiet (AllocateGPULocalMemory H n)"
  unfolding AllocateSystemMemory_def AllocateLocalMemory_def AllocateGPULocalMemory_def
  by (intro stable_intros)+

lemma quiet_AllocateBuffer [stable_intros]: "stable quiet (AllocateBuffer H n p)"
  unfolding AllocateBuffer_def with_local_def by (intro stable_intros)

lemma quiet_CopyTo [stable_intros]: "stable quiet (CopyTo H bp)"
  unfolding CopyTo_def CopyToLocal_def by (intro stable_intros)

lemma quiet_CopyFrom [stable_intros]: "stable quiet (CopyFrom H bp)"
  unfolding CopyFrom_def CopyFromLocal_def by (intro stable_intros) simp_all

lemma quiet_write_data [stable_intros]: "stable quiet (write_data w enc bp i x)"
  unfolding write_data_def by (intro stable_intros)

lemma quiet_read_data [stable_intros]: "stable quiet (read_data w dec bp i)"
  unfolding read_data_def by (intro stable_intros)

lemma quiet_LoadCodeObjectFromFile [stable_intros]: "stable quiet (LoadCodeObjectFromFile H f)"
  unfolding LoadCodeObjectFromFile_def by (intro stable_intros) simp_all

lemma quiet_SetupExecutable [stable_intros]:
  "stable quiet m \<Longrightarrow> stable quiet (SetupExecutable H m)"
  unfolding SetupExecutable_def by (intro stable_intros) simp_all

section \<open>Claiming a packet\<close>

text \<open>The contents \<open>InitDispatch\<close> gives the claimed packet.\<close>

definition fresh_packet :: "u64 \<Rightarrow> packet \<Rightarrow> packet" where
  "fresh_packet sig old = \<lparr>pkt_header = pkt_header old, pkt_setup = pkt_setup old,
     workgroup_size_x = 1, workgroup_size_y = 1, workgroup_size_z = 1, reserved0 = 0,
     grid_size_x = 1, grid_size_y = 1, grid_size_z = 1,
     private_segment_size = 0, group_segment_size = 0,
     kernel_object = 0, kernarg_address = 0, reserved2 = 0, completion_signal = sig\<rparr>"

lemma InitDispatch_run [exec]:
  assumes "queue s = Some q" and "api_queue_add_write_index H 1 (rt s) = (i, r)"
  shows "InitDispatch H s =
    (let slot = i AND ucast (q_size q - 1) in
     (Inr True, s\<lparr>rt := r, events := events s @ [Ev_add_write_index 1], packet_index := i, aql := slot,
        ring := (ring s)(slot := fresh_packet (signal s) (ring s slot))\<rparr>))"
  using assms by (simp add: InitDispatch_def exec Let_def clear_packet_def fresh_packet_def)

lemma ucast_pred_pow2:
  fixes n :: u32
  assumes "unat n = 2 ^ k"
  shows "(ucast (n - 1) :: u64) = mask k"
proof -
  have lt: "(2::nat) ^ k < 2 ^ LENGTH(32)" using assms unat_less_2p [of n] by simp
  then have k: "k < 32" by (subst (asm) power_strict_increasing_iff) simp_all
  from lt have "unat (2 ^ k :: u32) = 2 ^ k" using unat_of_nat_lt [OF lt] by (simp only: of_nat_power of_nat_numeral)
  then have "n = 2 ^ k" using assms by (simp add: word_unat_eq_iff)
  then have "n - 1 = mask k" by (simp add: mask_eq_exp_minus_1)
  then have "(ucast (n - 1) :: u64) = ucast (mask k :: u32)" by (rule arg_cong)
  also have "\<dots> = mask k" by (rule bit_word_eqI) (use k in \<open>auto simp: bit_simps\<close>)
  finally show ?thesis .
qed

text \<open>
  C19. \<open>InitDispatch\<close> on a queue whose size is a power of two claims the slot \<open>packet_index\<close> modulo
  the size, inside the ring; it gives that packet the defaults and the completion signal, clears
  every other field, keeps its header and setup words, and leaves every other packet alone.
\<close>

theorem InitDispatch_claims:
  assumes "queue s = Some q" and "api_queue_add_write_index H 1 (rt s) = (i, r)"
    and "unat (q_size q) = 2 ^ k" and "InitDispatch H s = (res, t)"
  shows "res = Inr True \<and> packet_index t = i \<and> unat (aql t) = unat i mod unat (q_size q) \<and>
    unat (aql t) < unat (q_size q) \<and>
    ring t = (ring s)(aql t := fresh_packet (signal s) (ring s (aql t)))"
proof -
  have "i AND ucast (q_size q - 1) = take_bit k i"
    by (simp add: ucast_pred_pow2 [OF assms(3)] take_bit_eq_mask)
  then have "unat (i AND ucast (q_size q - 1)) = unat i mod unat (q_size q)"
    by (simp only: unat_take_bit assms(3))
  then show ?thesis
    using assms by (auto simp: InitDispatch_run [OF assms(1,2)] Let_def)
qed

theorem InitDispatch_claims_witness:
  "\<exists>t. InitDispatch (ref_hsa (\<lambda>p m. m)) ((ref_object 0 ())\<lparr>rt := ref_start\<lparr>write_index := 7\<rparr>\<rparr>) = (Inr True, t) \<and>
    packet_index t = 7 \<and> unat (aql t) = 3"
proof -
  let ?H = "ref_hsa (\<lambda>p m. m)" and ?s = "(ref_object 0 ())\<lparr>rt := ref_start\<lparr>write_index := 7\<rparr>\<rparr>"
  obtain res t where run: "InitDispatch ?H ?s = (res, t)" by fastforce
  have "queue ?s = Some ref_queue" and "unat (q_size ref_queue) = 2 ^ 2"
    and "api_queue_add_write_index ?H 1 (rt ?s) = (7, ref_start\<lparr>write_index := 8\<rparr>)"
    by (simp_all add: ref_defs)
  then have "res = Inr True \<and> packet_index t = 7 \<and> unat (aql t) = unat (7 :: u64) mod unat (q_size ref_queue)"
    using InitDispatch_claims [OF _ _ _ run] by blast
  then show ?thesis using run by (simp add: ref_queue_def)
qed

section \<open>Publishing it\<close>

lemma packet_header_documented:
  "documented_constants H \<Longrightarrow> packet_header H = 0x1502"
  by (simp add: packet_header_def documented_constants_def push_bit_eq_mult)

lemma packet_dim_cases:
  "packet_dim p = (if 1 < grid_size_z p then 3 else if 1 < grid_size_y p then 2 else 1)"
  by (simp add: packet_dim_def Let_def)

lemma header_words:
  fixes d h :: u16
  shows "(ucast (ucast h OR push_bit 16 (ucast d) :: u32) :: u16) = h"
    and "(ucast (drop_bit 16 (ucast h OR push_bit 16 (ucast d) :: u32)) :: u16) = d"
  by (rule bit_word_eqI; auto simp: bit_simps dest: bit_imp_le_length)+

lemma store_header_run [exec]:
  "store_header w s = (Inr (), s\<lparr>
     ring := (ring s)(aql s := (ring s (aql s))\<lparr>pkt_header := ucast w, pkt_setup := ucast (drop_bit 16 w)\<rparr>),
     events := events s @ [Ev_header_store (aql s) w]\<rparr>)"
  by (simp add: store_header_def exec)

lemma RunDispatch_run [exec]:
  assumes "PACKET_SETUP_DIMENSIONS H = 0" and "queue s = Some q"
  shows "RunDispatch H s =
    (let p = ring s (aql s);
         header32 = ucast (packet_header H) OR push_bit 16 (ucast (packet_dim p)) in
     (Inr True, s\<lparr>ring := (ring s)(aql s := p\<lparr>
          group_segment_size := group_static_size s + group_dynamic_size s,
          pkt_header := packet_header H, pkt_setup := packet_dim p\<rparr>),
        rt := api_signal_store H (q_doorbell q) (packet_index s) (rt s),
        events := events s @ [Ev_header_store (aql s) header32,
          Ev_doorbell (q_doorbell q) (packet_index s)]\<rparr>))"
proof -
  define w :: u32 where "w = ucast (packet_header H) OR push_bit 16 (ucast (packet_dim (ring s (aql s))))"
  have w: "ucast w = packet_header H" "ucast (drop_bit 16 w) = packet_dim (ring s (aql s))"
    unfolding w_def by (rule header_words)+
  show ?thesis
    using assms unfolding RunDispatch_def Let_def
    by (simp add: exec w flip: w_def)
qed

text \<open>
  C20. \<open>RunDispatch\<close> publishes the packet it was given, and only that one: the kernel dispatch
  header with the barrier bit and system fences (\<open>0x1502\<close>), the number of grid dimensions,
  and the sum of the static and dynamic group segment sizes; every other field is kept. The
  single 32-bit header store comes before the doorbell, which carries the packet's index.
\<close>

theorem RunDispatch_publishes:
  assumes "documented_constants H" and "queue s = Some q" and "RunDispatch H s = (res, t)"
  shows "res = Inr True \<and>
    ring t = (ring s)(aql s := (ring s (aql s))\<lparr>pkt_header := 0x1502,
      pkt_setup := (if 1 < grid_size_z (ring s (aql s)) then 3
                    else if 1 < grid_size_y (ring s (aql s)) then 2 else 1),
      group_segment_size := group_static_size s + group_dynamic_size s\<rparr>) \<and>
    (\<exists>h. events t = events s @ [Ev_header_store (aql s) h, Ev_doorbell (q_doorbell q) (packet_index s)] \<and>
      unat h = 0x1502 + unat (pkt_setup (ring t (aql s))) * 2 ^ 16)"
proof -
  define p where "p = ring s (aql s)"
  define h :: u32 where "h = ucast (packet_header H) OR push_bit 16 (ucast (packet_dim p))"
  have D: "PACKET_SETUP_DIMENSIONS H = 0" using assms(1) by (simp add: documented_constants_def)
  have hdr: "packet_header H = 0x1502" by (rule packet_header_documented [OF assms(1)])
  have "unat h = unat (packet_dim p) * 2 ^ 16 + 0x1502"
  proof -
    have "h = push_bit 16 (ucast (packet_dim p)) OR 0x1502" by (simp add: h_def hdr or.commute)
    moreover have "unat (push_bit 16 (ucast (packet_dim p)) :: u32) = unat (packet_dim p) * 2 ^ 16"
      by (subst unat_push_bit) (auto simp: packet_dim_cases unat_ucast_mod)
    ultimately show ?thesis by (simp add: unat_or_low [where n = 16])
  qed
  then show ?thesis
    using assms(3) unfolding RunDispatch_run [OF D assms(2)] Let_def p_def [symmetric] h_def [symmetric]
    by (auto simp: hdr packet_dim_cases)
qed

theorem RunDispatch_publishes_witness:
  "\<exists>t h. RunDispatch (ref_hsa (\<lambda>p m. m)) (ref_object 5 ()) = (Inr True, t) \<and> pkt_header (ring t 0) = 0x1502 \<and>
    group_segment_size (ring t 0) = 5 \<and> events t = [Ev_header_store 0 h, Ev_doorbell 20 0]"
proof -
  obtain res t where run: "RunDispatch (ref_hsa (\<lambda>p m. m)) (ref_object 5 ()) = (res, t)" by fastforce
  have "queue (ref_object 5 ()) = Some ref_queue" by (simp add: ref_object_def)
  then show ?thesis
    using RunDispatch_publishes [OF ref_constants _ run] run by (auto simp: ref_defs)
qed

end
