(* ===== verification/Running.thy ===== *)
theory Running
  imports Waiting Packet
begin

text \<open>
  \<open>Dispatch::Run\<close> and \<open>RunMain\<close>: the order of the stages, what reaches the device, what is printed
  and the exit code. The virtual methods are the interface between the base class and an
  example; what the base class needs of them is the locale \<open>example\<close>.
\<close>

section \<open>The stages\<close>

lemma and_then_True:
  "and_then m n s = (Inr True, t) \<longleftrightarrow> (\<exists>s'. m s = (Inr True, s') \<and> n s' = (Inr True, t))"
  by (auto simp: and_then_def bind_eq_Inr ret_def split: if_splits)

definition run_stages ::
  "'r hsa \<Rightarrow> ('r, 'z, bool) operation \<Rightarrow> ('r, 'z, bool) operation \<Rightarrow> ('r, 'z, bool) operation \<Rightarrow> ('r, 'z, bool) operation" where
  "run_stages H vSetupExecutable vSetup vVerify =
     and_then (Init H) (and_then (InitDispatch H) (and_then vSetupExecutable
       (and_then vSetup (and_then (RunDispatch H) (and_then (Wait H) vVerify)))))"

text \<open>What \<open>Run\<close> prints after the stages.\<close>

definition verdict :: "bool \<Rightarrow> item list \<Rightarrow> item list" where
  "verdict res out = (if out \<noteq> [] then out @ [Endl] else []) @ [Str (if res then ''Success'' else ''Failed''), Endl]"

lemma Run_run:
  "Run H E S V s = (case run_stages H E S V s of
     (Inl e, t) \<Rightarrow> (Inl e, t)
   | (Inr res, t) \<Rightarrow> (Inr res, t\<lparr>cout := cout t @ verdict res (out_stream t)\<rparr>))"
  by (simp add: Run_def run_stages_def bind_def gets_def modify_def ret_def verdict_def
      split: prod.split sum.split)

section \<open>Before and after publication\<close>

text \<open>
  A part of the run that publishes nothing; it neither sets the size of dynamic group memory nor
  prints.
\<close>

definition unpublished :: "('r, 'z) Dispatch_scheme \<Rightarrow> ('r, 'z) Dispatch_scheme \<Rightarrow> bool" where
  "unpublished s t \<longleftrightarrow> group_dynamic_size t = group_dynamic_size s \<and> cout t = cout s \<and>
     (\<exists>es. events t = events s @ es \<and> filter is_publication es = [])"

interpretation unpublished: frame unpublished
proof
  fix s t u :: "('r, 'z) Dispatch_scheme"
  show "unpublished s s" by (simp add: unpublished_def)
  assume "unpublished s t" and "unpublished t u"
  then show "unpublished s u" by (fastforce simp: unpublished_def)
qed

lemma quiet_unpublished: "quiet s t \<Longrightarrow> unpublished s t"
  by (simp add: quiet_def unpublished_def)

lemma waited_unpublished: "waited s t \<Longrightarrow> unpublished s t"
  by (auto simp: waited_def unpublished_def filter_replicate)

text \<open>After the publication the claimed packet stays the same one, too.\<close>

definition settled :: "('r, 'z) Dispatch_scheme \<Rightarrow> ('r, 'z) Dispatch_scheme \<Rightarrow> bool" where
  "settled s t \<longleftrightarrow> unpublished s t \<and> aql t = aql s \<and> packet_index t = packet_index s"

interpretation settled: frame settled
proof
  fix s t u :: "('r, 'z) Dispatch_scheme"
  show "settled s s" by (simp add: settled_def unpublished.frame_refl)
  assume "settled s t" and "settled t u"
  then show "settled s u" by (auto simp: settled_def intro: unpublished.frame_trans)
qed

lemma quiet_settled: "quiet s t \<Longrightarrow> settled s t"
  by (simp add: settled_def quiet_unpublished) (simp add: quiet_def)

lemma waited_settled: "waited s t \<Longrightarrow> settled s t"
  by (simp add: settled_def waited_unpublished) (auto simp: waited_def)

lemmas unpublished_intros = unpublished.stable_bind unpublished.stable_ret unpublished.stable_gets
  unpublished.stable_assert unpublished.stable_if unpublished.stable_case_prod unpublished.stable_Let
  unpublished.stable_deref

lemma unpublished_hsa_call:
  "(\<And>x. \<not> is_publication (e x)) \<Longrightarrow> stable unpublished (hsa_call e f)"
  by (rule stable_mono [OF quiet_hsa_call quiet_unpublished])

lemma unpublished_hsa_query: "stable unpublished (hsa_query f)"
  by (rule stable_mono [OF quiet_hsa_query quiet_unpublished])

lemma unpublished_hsa_check: "stable unpublished m \<Longrightarrow> stable unpublished (hsa_check H msg st m)"
  by (simp add: hsa_check_def stable_mono [OF quiet_HsaError quiet_unpublished])

lemma unpublished_HsaError: "stable unpublished (HsaError H msg st)"
  by (rule stable_mono [OF quiet_HsaError quiet_unpublished])

lemma unpublished_put: "stable unpublished (put xs)"
  by (rule stable_mono [OF quiet_put quiet_unpublished])

lemma unpublished_visit:
  "(\<And>x. stable unpublished (f x)) \<Longrightarrow> stable unpublished (visit f xs st)"
  by (induction xs) (auto intro!: unpublished_intros)

lemma unpublished_find_gpu_device: "stable unpublished (find_gpu_device H b a)"
  unfolding find_gpu_device_def SetAgent_def SetCpuAgent_def
  by (intro unpublished_intros unpublished_hsa_query stable_modify) (simp_all add: unpublished_def)

lemma unpublished_FindRegions: "stable unpublished (FindRegions H g)"
  unfolding FindRegions_def SetSystemRegion_def SetLocalRegion_def SetGPULocalRegion_def SetKernargRegion_def
  by (intro unpublished_intros unpublished_hsa_query stable_modify) (simp_all add: unpublished_def)

lemma unpublished_Init: "stable unpublished (Init H)"
  unfolding Init_def
  by (intro unpublished_intros unpublished_hsa_call unpublished_hsa_query unpublished_hsa_check
      unpublished_put unpublished_visit unpublished_find_gpu_device unpublished_FindRegions
      unpublished_HsaError stable_modify)
     (simp_all add: unpublished_def)

lemma unpublished_InitDispatch: "stable unpublished (InitDispatch H)"
  unfolding InitDispatch_def update_packet_def
  by (intro unpublished_intros unpublished_hsa_call stable_modify) (simp_all add: unpublished_def)

lemma stable_and_then:
  assumes "frame R" and "stable R m" and "stable R n"
  shows "stable R (and_then m n)"
  unfolding and_then_def
  by (intro frame.stable_bind frame.stable_if frame.stable_ret assms)

text \<open>The stages, split at the publication.\<close>

definition before_publication ::
  "'r hsa \<Rightarrow> ('r, 'z, bool) operation \<Rightarrow> ('r, 'z, bool) operation \<Rightarrow> ('r, 'z, bool) operation" where
  "before_publication H E S = and_then (Init H) (and_then (InitDispatch H) (and_then E S))"

definition after_publication :: "'r hsa \<Rightarrow> ('r, 'z, bool) operation \<Rightarrow> ('r, 'z, bool) operation" where
  "after_publication H V = and_then (Wait H) V"

lemma and_then_assoc: "and_then (and_then l m) n = and_then l (and_then m n)"
  by (rule ext) (simp add: and_then_def bind_def ret_def split: prod.split sum.split)

lemma run_stages_split:
  "run_stages H E S V = and_then (before_publication H E S) (and_then (RunDispatch H) (after_publication H V))"
  by (simp add: run_stages_def before_publication_def after_publication_def and_then_assoc)

section \<open>Publication\<close>

text \<open>What publication changes.\<close>

definition published_state :: "hsa_queue \<Rightarrow> u32 \<Rightarrow> ('r, 'z) Dispatch_scheme \<Rightarrow> ('r, 'z) Dispatch_scheme \<Rightarrow> bool" where
  "published_state q h s t \<longleftrightarrow>
     events t = events s @ [Ev_header_store (aql s) h, Ev_doorbell (q_doorbell q) (packet_index s)] \<and>
     group_dynamic_size t = group_dynamic_size s \<and> cout t = cout s \<and>
     aql t = aql s \<and> packet_index t = packet_index s"

lemma RunDispatch_published:
  assumes "queue s = Some q"
  shows "\<exists>t h. RunDispatch H s = (Inr True, t) \<and> published_state q h s t"
  using assms by (simp add: RunDispatch_def store_header_def exec Let_def published_state_def)

text \<open>
  The events of a run in which one packet is published: one header store, directly followed by the
  doorbell, and nothing else that the device could take for a packet.
\<close>

definition published_once :: "u64 \<Rightarrow> u64 \<Rightarrow> event list \<Rightarrow> bool" where
  "published_once slot i es \<longleftrightarrow> (\<exists>pre post h sig. es = pre @ [Ev_header_store slot h, Ev_doorbell sig i] @ post \<and>
     filter is_publication pre = [] \<and> filter is_publication post = [])"

definition publishes_at_most_once :: "('r, 'z, bool) operation \<Rightarrow> bool" where
  "publishes_at_most_once m \<longleftrightarrow> (\<forall>s res t. m s = (res, t) \<longrightarrow>
     (\<exists>es. events t = events s @ es \<and>
       (filter is_publication es = [] \<and> res \<noteq> Inr True \<or> published_once (aql t) (packet_index t) es)))"

text \<open>
  \<open>main\<close> returns an exit code that agrees with the last line it prints, unless a fault ends the
  process; then nothing has been printed.
\<close>

definition exits_with_verdict :: "('r, 'z, int) operation \<Rightarrow> bool" where
  "exits_with_verdict m \<longleftrightarrow> (\<forall>s. case m s of
     (Inl e, t) \<Rightarrow> cout t = cout s
   | (Inr code, t) \<Rightarrow> (\<exists>res. code = (if res then 0 else 1) \<and> cout t = cout s @ verdict res (out_stream t)))"

locale example =
  fixes H :: "'r hsa"
    and vSetupExecutable vSetup vVerify :: "('r, 'z, bool) operation"
  assumes quiet_SetupExecutable: "stable quiet vSetupExecutable"
    and quiet_Setup: "stable quiet vSetup"
    and quiet_Verify: "stable quiet vVerify"
begin

lemmas unpublished_virtual = quiet_SetupExecutable [THEN stable_mono, OF quiet_unpublished]
  quiet_Setup [THEN stable_mono, OF quiet_unpublished]
  quiet_Verify [THEN stable_mono, OF quiet_unpublished]

lemma unpublished_before: "stable unpublished (before_publication H vSetupExecutable vSetup)"
  unfolding before_publication_def
  by (intro stable_and_then unpublished.frame_axioms unpublished_Init unpublished_InitDispatch unpublished_virtual)

lemma settled_after: "stable settled (after_publication H vVerify)"
  unfolding after_publication_def
  by (intro stable_and_then settled.frame_axioms stable_mono [OF quiet_Verify quiet_settled]
      stable_mono [OF waited_Wait waited_settled])

text \<open>Publication finds the queue and the packet that the stages before it prepared.\<close>

lemma before_queue:
  assumes "before_publication H vSetupExecutable vSetup s = (Inr True, t)"
  shows "\<exists>q. queue t = Some q"
proof -
  obtain s1 s2 s3 where init: "Init H s = (Inr True, s1)" and claim: "InitDispatch H s1 = (Inr True, s2)"
    and exe: "vSetupExecutable s2 = (Inr True, s3)" and prep: "vSetup s3 = (Inr True, t)"
    using assms unfolding before_publication_def and_then_True by blast
  obtain q where q: "queue s1 = Some q"
    using Init_cases [where H = H and s = s] init by (auto simp: init_done_def)
  obtain i r where "api_queue_add_write_index H 1 (rt s1) = (i, r)" by fastforce
  then have "queue s2 = Some q" using claim q by (auto simp: InitDispatch_run Let_def)
  moreover have "quiet s2 s3" "quiet s3 t"
    using stableD [OF quiet_SetupExecutable exe] stableD [OF quiet_Setup prep] .
  ultimately show ?thesis by (simp add: quiet_def)
qed

text \<open>The run up to the verdict.\<close>

lemma stages_publish:
  assumes "run_stages H vSetupExecutable vSetup vVerify s = (res, t)"
  shows "cout t = cout s \<and> group_dynamic_size t = group_dynamic_size s \<and>
    (\<exists>es. events t = events s @ es \<and>
       (filter is_publication es = [] \<and> res \<noteq> Inr True \<or> published_once (aql t) (packet_index t) es))"
proof -
  obtain r1 s1 where before: "before_publication H vSetupExecutable vSetup s = (r1, s1)" by fastforce
  have u1: "unpublished s s1" by (rule stableD [OF unpublished_before before])
  show ?thesis
  proof (cases "r1 = Inr True")
    case False
    then have "res \<noteq> Inr True \<and> t = s1"
      using assms before
      by (cases r1) (auto simp: run_stages_split and_then_def bind_def ret_def split: if_splits)
    then show ?thesis using u1 by (auto simp: unpublished_def)
  next
    case True
    obtain q where q: "queue s1 = Some q" using before_queue before True by blast
    have "and_then (RunDispatch H) (after_publication H vVerify) s1 = (res, t)"
      using assms before True by (simp add: run_stages_split and_then_def bind_def)
    then obtain s2 h where s2: "published_state q h s1 s2" and after: "after_publication H vVerify s2 = (res, t)"
      using RunDispatch_published [OF q, of H] by (fastforce simp: and_then_def bind_def)
    have "settled s2 t" by (rule stableD [OF settled_after after])
    then obtain es where es: "events t = events s2 @ es" "filter is_publication es = []"
      by (auto simp: settled_def unpublished_def)
    obtain es' where es': "events s1 = events s @ es'" "filter is_publication es' = []"
      using u1 by (auto simp: unpublished_def)
    let ?es = "es' @ [Ev_header_store (aql s1) h, Ev_doorbell (q_doorbell q) (packet_index s1)] @ es"
    have "published_once (aql t) (packet_index t) ?es"
      using es(2) es'(2) s2 \<open>settled s2 t\<close>
      unfolding published_once_def settled_def published_state_def by metis
    moreover have "events t = events s @ ?es"
      using es(1) es'(1) s2 by (simp add: published_state_def)
    moreover have "cout t = cout s \<and> group_dynamic_size t = group_dynamic_size s"
      using u1 s2 \<open>settled s2 t\<close> by (simp add: settled_def unpublished_def published_state_def)
    ultimately show ?thesis by blast
  qed
qed

lemma Run_publishes_at_most_once: "publishes_at_most_once (Run H vSetupExecutable vSetup vVerify)"
  unfolding publishes_at_most_once_def
proof (intro allI impI)
  fix s res t
  assume "Run H vSetupExecutable vSetup vVerify s = (res, t)"
  then obtain t' where "run_stages H vSetupExecutable vSetup vVerify s = (res, t')"
      and "events t = events t'" "aql t = aql t'" "packet_index t = packet_index t'"
    unfolding Run_run by (auto split: prod.splits sum.splits)
  then show "\<exists>es. events t = events s @ es \<and>
      (filter is_publication es = [] \<and> res \<noteq> Inr True \<or> published_once (aql t) (packet_index t) es)"
    using stages_publish by metis
qed

lemma RunMain_exits_with_verdict: "exits_with_verdict (RunMain H vSetupExecutable vSetup vVerify)"
  unfolding exits_with_verdict_def
proof
  fix s
  obtain res t where run: "run_stages H vSetupExecutable vSetup vVerify s = (res, t)" by fastforce
  then have "cout t = cout s" using stages_publish by blast
  then show "case RunMain H vSetupExecutable vSetup vVerify s of
      (Inl e, t) \<Rightarrow> cout t = cout s
    | (Inr code, t) \<Rightarrow> (\<exists>res. code = (if res then 0 else 1) \<and> cout t = cout s @ verdict res (out_stream t))"
    by (cases res) (auto simp: RunMain_def bind_def ret_def Run_run run)
qed

lemma RunMain_succeeds:
  assumes "run_stages H vSetupExecutable vSetup vVerify s = (Inr True, t)"
  shows "\<exists>t'. RunMain H vSetupExecutable vSetup vVerify s = (Inr 0, t') \<and> cout t' = cout s @ verdict True (out_stream t)"
  using stages_publish [OF assms] by (simp add: RunMain_def bind_def ret_def Run_run assms)

lemma Run_keeps_group_dynamic_size:
  "Run H vSetupExecutable vSetup vVerify s = (res, t) \<Longrightarrow> group_dynamic_size t = group_dynamic_size s"
  using stages_publish by (fastforce simp: Run_run split: prod.splits sum.splits)

end

end
