(* ===== verification/Staging.thy ===== *)
theory Staging
  imports Running
begin

text \<open>
  What the \<open>Setup\<close> and \<open>Verify\<close> methods of the examples share: filling a buffer and copying it to the
  device, passing buffers as kernel arguments, and the loop that compares a result
  buffer with the expected values.
\<close>

section \<open>Common statements\<close>

text \<open>\<open>output << msg << std::endl; return false;\<close>\<close>

definition fail_with :: "string \<Rightarrow> ('r, 'z, bool) operation" where
  "fail_with msg = bind (put [Str msg, Endl]) (\<lambda>_. ret False)"

text \<open>The report of one wrong element.\<close>

definition mismatch :: "nat \<Rightarrow> item \<Rightarrow> item \<Rightarrow> item list" where
  "mismatch i got expected =
     [Str ''Error: validation failed at '', Unsigned i, Str '': got '', got, Str '' expected '', expected, Endl]"

lemma quiet_fail_with [stable_intros]: "stable quiet (fail_with msg)"
  unfolding fail_with_def by (intro stable_intros)

lemma fail_with_run [exec]:
  "fail_with msg s = (Inr False, s\<lparr>out_stream := out_stream s @ [Str msg, Endl]\<rparr>)"
  by (simp add: fail_with_def exec)

text \<open>Taking a run that returned true apart into its steps.\<close>

lemma bind_modify_elim:
  "bind (modify f) k s = (Inr y, t) \<Longrightarrow> (k () (f s) = (Inr y, t) \<Longrightarrow> P) \<Longrightarrow> P"
  by (simp add: bind_def modify_def)

lemma bind_elim:
  "bind m k s = (Inr y, t) \<Longrightarrow> (\<And>x s'. m s = (Inr x, s') \<Longrightarrow> k x s' = (Inr y, t) \<Longrightarrow> P) \<Longrightarrow> P"
  by (auto simp: bind_eq_Inr)

lemma if_ret_False_elim:
  "(if \<not> ok then ret False else m) s = (Inr True, t) \<Longrightarrow> (ok \<Longrightarrow> m s = (Inr True, t) \<Longrightarrow> P) \<Longrightarrow> P"
  by (auto simp: ret_def split: if_splits)

lemma if_fail_elim:
  "(if \<not> ok then fail_with msg else m) s = (Inr True, t) \<Longrightarrow> (ok \<Longrightarrow> m s = (Inr True, t) \<Longrightarrow> P) \<Longrightarrow> P"
  by (auto simp: fail_with_run split: if_splits)

lemma ret_elim: "ret y s = (Inr z, t) \<Longrightarrow> (y = z \<Longrightarrow> s = t \<Longrightarrow> P) \<Longrightarrow> P"
  by (simp add: ret_def)

lemmas ok_elims = if_ret_False_elim if_fail_elim bind_modify_elim bind_elim ret_elim

section \<open>Comparison loops\<close>

text \<open>
  A loop over the elements of a result, whose local variables after \<open>i\<close> rounds are \<open>v i ok\<close>, where
  \<open>ok\<close> tells whether all elements so far were good, and which reports the bad ones.
\<close>

definition reports :: "(nat \<Rightarrow> bool) \<Rightarrow> (nat \<Rightarrow> item list) \<Rightarrow> nat \<Rightarrow> item list" where
  "reports good rep n = concat (map (\<lambda>i. if good i then [] else rep i) [0..<n])"

lemma reports_Suc: "reports good rep (Suc n) = reports good rep n @ (if good n then [] else rep n)"
  by (simp add: reports_def)

lemma check_loop:
  assumes "\<And>i ok t. i < n \<Longrightarrow> mem t = mem s \<Longrightarrow>
    body i (v i ok) t = (Inr (v (Suc i) (ok \<and> good i)),
      t\<lparr>out_stream := out_stream t @ (if good i then [] else rep i)\<rparr>)"
  shows "for_fold [0..<n] body (v 0 True) s = (Inr (v n (\<forall>i<n. good i)),
    s\<lparr>out_stream := out_stream s @ reports good rep n\<rparr>)"
  using assms
proof (induction n)
  case 0
  then show ?case by (simp add: ret_def reports_def)
next
  case (Suc n)
  have all: "(\<forall>i<Suc n. good i) \<longleftrightarrow> (\<forall>i<n. good i) \<and> good n"
    by (auto simp: less_Suc_eq)
  have "for_fold [0..<n] body (v 0 True) s
      = (Inr (v n (\<forall>i<n. good i)), s\<lparr>out_stream := out_stream s @ reports good rep n\<rparr>)"
    using Suc by simp
  then show ?case
    using Suc.prems by (simp add: for_fold_append bind_def ret_def reports_Suc all)
qed

section \<open>Separation\<close>

lemma apart_sub:
  assumes "apart p n q l" and "o1 + n1 \<le> n" and "o2 + l2 \<le> l"
  shows "apart (p + of_nat o1) n1 (q + of_nat o2) l2"
  unfolding apart_def
proof (intro allI impI)
  fix k assume "k < n1"
  define x where "x = p + of_nat (o1 + k) - q"
  have "o1 + k < n" using assms(2) \<open>k < n1\<close> by simp
  then have "l \<le> unat x"
    using assms(1) unfolding apart_def x_def by blast
  then have le: "o2 + l2 \<le> unat x" using assms(3) by simp
  have "unat (of_nat o2 :: addr) = o2"
    using le unat_less_2p [of x] by (intro unat_of_nat_lt) simp
  then have u: "unat (x - of_nat o2) = unat x - o2"
    using le by (simp add: unat_sub word_le_nat_alt)
  have eq: "p + of_nat o1 + of_nat k - (q + of_nat o2) = x - of_nat o2"
    by (simp add: x_def)
  show "l2 \<le> unat (p + of_nat o1 + of_nat k - (q + of_nat o2))"
    unfolding eq u using le by simp
qed

lemma apart_below:
  assumes "unat p + n \<le> unat q" and "unat q + l \<le> 2 ^ 64"
  shows "apart p n q l" and "apart q l p n"
  using apart_offsets [OF assms, of 0] by simp_all

lemma apart_elem:
  assumes "apart p n q (w * l)" and "i < l"
  shows "apart p n (elem_addr w q i) w"
proof -
  have "w * i + w = w * Suc i" by simp
  also have "\<dots> \<le> w * l" using assms(2) by (intro mult_le_mono2) simp
  finally show ?thesis
    using apart_sub [OF assms(1), of 0 n "w * i" w] by (simp add: elem_addr_def)
qed

lemma store_args_apart:
  assumes "\<forall>x\<in>set xs. valid_arg x" and "apart q l p (arg_end n xs)"
  shows "load_bytes q l (store_args p n xs m) = load_bytes q l m"
  using assms
proof (induction xs arbitrary: n m)
  case (Cons x xs)
  obtain bs a where x: "x = (bs, a)" by fastforce
  have le: "align_nat n a + length bs \<le> arg_end (align_nat n a + length bs) xs"
    using Cons.prems(1) by (intro arg_end_ge) simp
  then have "apart q l (p + of_nat (align_nat n a)) (length bs)"
    using apart_sub [OF Cons.prems(2), of 0 l "align_nat n a" "length bs"] by (simp add: x)
  then show ?case using Cons by (simp add: x load_store_apart)
qed simp

text \<open>The half of one buffer that the device sees is disjoint from both halves of another.\<close>

definition device_apart :: "buffer \<Rightarrow> addr \<Rightarrow> nat \<Rightarrow> bool" where
  "device_apart b p n \<longleftrightarrow> apart (local_ptr b) (unat (buf_size b)) p n"

definition buffer_apart :: "buffer \<Rightarrow> addr \<Rightarrow> nat \<Rightarrow> bool" where
  "buffer_apart b p n \<longleftrightarrow> device_apart b p n \<and> apart (system_ptr b) (unat (buf_size b)) p n"

definition buffers_apart :: "buffer \<Rightarrow> buffer \<Rightarrow> bool" where
  "buffers_apart b c \<longleftrightarrow> buffer_apart b (local_ptr c) (unat (buf_size c)) \<and>
     buffer_apart b (system_ptr c) (unat (buf_size c)) \<and>
     buffer_apart c (local_ptr b) (unat (buf_size b)) \<and>
     buffer_apart c (system_ptr b) (unat (buf_size b))"

lemma device_view_apart:
  "device_apart b q (length bs) \<Longrightarrow> device_view b (store_bytes q bs m) = device_view b m"
  by (simp add: device_apart_def device_view_def load_store_apart)

lemma host_view_apart:
  "buffer_apart b q (length bs) \<Longrightarrow> host_view b (store_bytes q bs m) = host_view b m"
  by (simp add: buffer_apart_def host_view_def load_store_apart)

lemma device_view_args:
  assumes "device_apart b p (8 * length bs)"
  shows "device_view b (store_args p 0 (buffer_args bs) m) = device_view b m"
  using assms store_args_apart [OF valid_buffer_args, of "local_ptr b" "unat (buf_size b)" p 0]
  by (simp add: device_apart_def device_view_def buffer_args_layout)

section \<open>Elements of a view\<close>

text \<open>The value of element \<open>i\<close> in a block of bytes.\<close>

definition element :: "nat \<Rightarrow> (u8 list \<Rightarrow> 'a) \<Rightarrow> u8 list \<Rightarrow> nat \<Rightarrow> 'a" where
  "element w dec bs i = dec (take w (drop (w * i) bs))"

lemma take_drop_load:
  assumes "w * i + w \<le> n"
  shows "take w (drop (w * i) (load_bytes p n m)) = load_bytes (elem_addr w p i) w m"
  using assms
  by (intro nth_equalityI) (simp_all add: load_bytes_def elem_addr_def add.assoc)

lemma element_host_view:
  assumes "w * i + w \<le> unat (buf_size b)"
  shows "element w dec (host_view b m) i = dec (load_bytes (Data w b i) w m)"
  using assms by (simp add: element_def host_view_def take_drop_load Data_def)

lemma element_device_view:
  assumes "w * i + w \<le> unat (buf_size b)"
  shows "element w dec (device_view b m) i = dec (load_bytes (elem_addr w (local_ptr b) i) w m)"
  using assms by (simp add: element_def device_view_def take_drop_load)

lemma elem_bound: "i < n \<Longrightarrow> w * i + w \<le> w * n" for w :: nat
  using mult_le_mono2 [of "Suc i" n w] by simp

context codec
begin

text \<open>A filled buffer holds the values in its host view.\<close>

lemma fill_elements:
  assumes "width * n = unat (buf_size b)" and "i < n"
  shows "element width dec (host_view b (fill width enc (system_ptr b) f n m)) i = f i"
proof -
  have "width * n \<le> 2 ^ 64" using unat_less_2p [of "buf_size b"] assms(1) by simp
  then have "dec (load_bytes (elem_addr width (system_ptr b) i) width (fill width enc (system_ptr b) f n m)) = f i"
    unfolding fill_def using assms(2) by (rule load_fill [rotated])
  then show ?thesis
    using elem_bound [OF assms(2), of width] assms(1) by (simp add: element_host_view Data_def)
qed

lemma fill_other_views:
  assumes "width * n = unat (buf_size b)" and "buffers_apart b c"
  shows "host_view c (fill width enc (system_ptr b) f n m) = host_view c m"
    and "device_view c (fill width enc (system_ptr b) f n m) = device_view c m"
  using assms apart_elem [where w = width and l = n]
  by (auto simp: host_view_def device_view_def buffers_apart_def buffer_apart_def device_apart_def length_enc
      intro!: fill_apart)

end

section \<open>Setting up the device\<close>

text \<open>
  Most operations change only the memory, the runtime, and what is recorded and reported; the
  object's members and the packets stay.
\<close>

definition touches_memory :: "('r, 'z) Dispatch_scheme \<Rightarrow> ('r, 'z) Dispatch_scheme \<Rightarrow> bool" where
  "touches_memory s t \<longleftrightarrow> (\<exists>r m e out. t = s\<lparr>rt := r, mem := m, events := e, out_stream := out\<rparr>)"

interpretation touches: frame touches_memory
proof
  fix s t u :: "('r, 'z) Dispatch_scheme"
  show "touches_memory s s" by (cases s) (auto simp: touches_memory_def)
  assume "touches_memory s t" and "touches_memory t u"
  then show "touches_memory s u" by (cases s) (auto simp: touches_memory_def)
qed

lemma touches_hsa_call [stable_intros]: "stable touches_memory (hsa_call e f)"
  unfolding stable_def hsa_call_def by (rule allI, rename_tac s, case_tac s) (auto simp: touches_memory_def)

lemma touches_put [stable_intros]: "stable touches_memory (put xs)"
  unfolding stable_def put_run by (rule allI, rename_tac s, case_tac s) (auto simp: touches_memory_def)

lemma touches_free [stable_intros]: "stable touches_memory (free p)"
  unfolding stable_def free_def log_event_run
  by (rule allI, rename_tac s, case_tac s) (auto simp: touches_memory_def)

lemma touches_modify_memory [stable_intros]: "stable touches_memory (modify (\<lambda>s. s\<lparr>mem := g s\<rparr>))"
  unfolding stable_def modify_run by (rule allI, rename_tac s, case_tac s) (auto simp: touches_memory_def)

lemma touches_hsa_memory_copy [stable_intros]: "stable touches_memory (hsa_memory_copy H d p n)"
  unfolding stable_def hsa_memory_copy_def
  by (rule allI, rename_tac s, case_tac s) (auto simp: touches_memory_def split: prod.split)

lemma touches_HsaError [stable_intros]: "stable touches_memory (HsaError H msg st)"
  unfolding HsaError_def by (intro stable_intros)

lemma touches_hsa_check [stable_intros]:
  "stable touches_memory m \<Longrightarrow> stable touches_memory (hsa_check H msg st m)"
  by (simp add: hsa_check_def touches_HsaError)

lemma touches_AllocateBuffer [stable_intros]: "stable touches_memory (AllocateBuffer H n p)"
  unfolding AllocateBuffer_def with_local_def AllocateSystemMemory_def AllocateLocalMemory_def
    AllocateGPULocalMemory_def hsa_memory_allocate_def
  by (intro stable_intros)

lemma touches_CopyTo [stable_intros]: "stable touches_memory (CopyTo H bp)"
  unfolding CopyTo_def CopyToLocal_def by (intro stable_intros)

lemma touches_CopyFrom [stable_intros]: "stable touches_memory (CopyFrom H bp)"
  unfolding CopyFrom_def CopyFromLocal_def by (intro stable_intros)

lemma touches_write_data [stable_intros]: "stable touches_memory (write_data w enc bp i x)"
  unfolding write_data_def by (intro stable_intros)

lemma AllocateKernarg_True:
  assumes "AllocateKernarg H n s = (Inr True, t)"
  shows "kernarg_offset t = 0 \<and> kernarg_address (ring t (aql t)) = kernarg t \<and> mem t = mem s"
  using assms
  by (auto simp: AllocateKernarg_def hsa_memory_allocate_def hsa_call_def exec split: prod.splits if_splits)

subsection \<open>Copies and the views of other buffers\<close>

lemma CopyTo_views:
  assumes "copies_faithfully H" and "CopyTo H (Some b) s = (Inr True, t)"
  shows "device_view b (mem t) = host_view b (mem s)"
  using CopyTo_run [OF assms] by (cases "IsLocal b") (simp_all add: views_coincide)

lemma CopyFrom_views:
  assumes "copies_faithfully H" and "CopyFrom H (Some b) s = (Inr True, t)"
  shows "host_view b (mem t) = device_view b (mem s)"
  using CopyFrom_run [OF assms] by (cases "IsLocal b") (simp_all add: views_coincide)

lemma CopyTo_other_views:
  assumes "copies_faithfully H" and "CopyTo H (Some b) s = (Inr True, t)" and "buffers_apart b c"
  shows "device_view c (mem t) = device_view c (mem s)" and "host_view c (mem t) = host_view c (mem s)"
  using CopyTo_run [OF assms(1,2)] assms(3)
  by (cases "IsLocal b"; simp add: buffers_apart_def buffer_apart_def device_view_apart host_view_apart)+

lemma CopyFrom_other_views:
  assumes "copies_faithfully H" and "CopyFrom H (Some b) s = (Inr True, t)" and "buffers_apart b c"
  shows "device_view c (mem t) = device_view c (mem s)" and "host_view c (mem t) = host_view c (mem s)"
  using CopyFrom_run [OF assms(1,2)] assms(3)
  by (cases "IsLocal b"; simp add: buffers_apart_def buffer_apart_def device_view_apart host_view_apart)+

lemma buffers_apart_sym: "buffers_apart b c \<longleftrightarrow> buffers_apart c b"
  by (auto simp: buffers_apart_def)

subsection \<open>Filling two buffers in one loop\<close>

lemma store_fill:
  assumes "\<And>i. i < n \<Longrightarrow> apart q (length bs) (elem_addr w p i) w" and "\<And>x. length (enc x) = w"
  shows "store_bytes q bs (fill w enc p f n m) = fill w enc p f n (store_bytes q bs m)"
  using assms(1)
proof (induction n)
  case 0
  then show ?case by (simp add: fill_def)
next
  case (Suc n)
  have step: "fill w enc p f (Suc n) m' = store_bytes (elem_addr w p n) (enc (f n)) (fill w enc p f n m')" for m'
    by (simp add: fill_def)
  show ?case
    using Suc store_store_apart [of q bs "elem_addr w p n" "enc (f n)"] by (simp add: step assms(2))
qed

lemma write_loop2:
  assumes apart: "apart (system_ptr b) (w * n) (system_ptr c) (w * n)" and len: "\<And>x. length (enc x) = w"
  shows "for_each [0..<n] (\<lambda>i. bind (write_data w enc (Some b) i (f i)) (\<lambda>_. write_data w enc (Some c) i (g i))) s
    = (Inr (), s\<lparr>mem := fill w enc (system_ptr c) g n (fill w enc (system_ptr b) f n (mem s))\<rparr>)"
proof -
  let ?F = "\<lambda>i. store_bytes (elem_addr w (system_ptr b) i) (enc (f i))"
  let ?G = "\<lambda>i. store_bytes (elem_addr w (system_ptr c) i) (enc (g i))"
  have "fold (\<lambda>i m. ?G i (?F i m)) [0..<k] m =
      fill w enc (system_ptr c) g k (fill w enc (system_ptr b) f k m)" if "k \<le> n" for k m
    using that
  proof (induction k)
    case 0
    then show ?case by (simp add: fill_def)
  next
    case (Suc k)
    have step: "fill w enc p h (Suc k) m' = store_bytes (elem_addr w p k) (enc (h k)) (fill w enc p h k m')"
      for p h m' by (simp add: fill_def)
    have "apart (elem_addr w (system_ptr b) k) (length (enc (f k))) (elem_addr w (system_ptr c) i) w"
      if "i < k" for i
    proof -
      have "w * k + w \<le> w * n" "w * i + w \<le> w * n"
        using that Suc.prems elem_bound [of k n w] elem_bound [of i n w] by simp_all
      then show ?thesis
        unfolding elem_addr_def len by (rule apart_sub [OF apart])
    qed
    then show ?case using Suc by (simp add: step store_fill len)
  qed
  then show ?thesis
    by (subst for_each_fold [where g = "\<lambda>i s. s\<lparr>mem := ?G i (?F i (mem s))\<rparr>"])
       (simp_all add: bind_def write_data_Some Data_def fold_mem [where g = "\<lambda>i m. ?G i (?F i m)"])
qed

text \<open>A loop that fills a buffer that was not allocated faults at its first write.\<close>

lemma write_None [simp]: "write_data w enc None i x = raise Null_dereference"
  by (simp add: write_data_def exec)

lemma for_each_upt: "0 < n \<Longrightarrow> for_each [0..<n] body = bind (body 0) (\<lambda>_. for_each [1..<n] body)"
  by (simp add: upt_conv_Cons)

subsection \<open>Passing the buffers\<close>

lemma Kernarg_None [simp]: "Kernarg None = raise Null_dereference"
  by (simp add: Kernarg_def exec)

text \<open>What the kernel finds as its arguments: the address of buffer \<open>i\<close> at offset \<open>8*i\<close>.\<close>

definition arguments :: "addr \<Rightarrow> buffer list \<Rightarrow> memory \<Rightarrow> bool" where
  "arguments p bs m \<longleftrightarrow> (\<forall>i<length bs. dec_u64 (load_bytes (p + of_nat (8 * i)) 8 m) = local_ptr (bs ! i))"

lemma Kernargs_run:
  assumes "kernarg_offset s = 0" and "8 * length bs < 2 ^ 64"
  shows "\<exists>m. for_each bs (\<lambda>b. Kernarg (Some b)) s = (Inr (), s\<lparr>kernarg_offset := of_nat (8 * length bs), mem := m\<rparr>) \<and>
    arguments (kernarg s) bs m \<and>
    (\<forall>b. device_apart b (kernarg s) (8 * length bs) \<longrightarrow> device_view b m = device_view b (mem s)) \<and>
    (\<forall>q l. apart q l (kernarg s) (8 * length bs) \<longrightarrow> load_bytes q l m = load_bytes q l (mem s))"
  using Kernarg_buffers_run [OF assms] store_buffer_args [OF _ assms(2)]
    store_args_apart [OF valid_buffer_args, where n = 0]
  by (auto simp: arguments_def device_view_args buffer_args_layout)

lemma Kernarg2:
  "Kernarg (Some b) s = (Inr u, s1) \<Longrightarrow> Kernarg (Some c) s1 = (Inr v, s2) \<Longrightarrow>
    for_each [b, c] (\<lambda>b. Kernarg (Some b)) s = (Inr (), s2)"
  by (simp add: bind_def ret_def)

lemma Kernarg3:
  "Kernarg (Some b) s = (Inr u, s1) \<Longrightarrow> Kernarg (Some c) s1 = (Inr v, s2) \<Longrightarrow> Kernarg (Some d) s2 = (Inr w, s3) \<Longrightarrow>
    for_each [b, c, d] (\<lambda>b. Kernarg (Some b)) s = (Inr (), s3)"
  by (simp add: bind_def ret_def)

lemma Kernarg_SomeD: "Kernarg bp s = (Inr u, t) \<Longrightarrow> \<exists>b. bp = Some b"
  by (cases bp) (simp_all add: raise_def)

lemma write_loop2_SomeD:
  assumes "for_each [0..<n] (\<lambda>i. bind (write_data w enc bp i (f i)) (\<lambda>_. write_data w enc cp i (g i))) s = (Inr u, t)"
    and "0 < n"
  shows "\<exists>b c. bp = Some b \<and> cp = Some c"
  using assms
  by (cases bp; cases cp) (auto simp: for_each_upt raise_def bind_def write_data_Some)

lemma write_loop_SomeD:
  assumes "for_each [0..<n] (\<lambda>i. write_data w enc bp i (f i)) s = (Inr u, t)" and "0 < n"
  shows "\<exists>b. bp = Some b"
  using assms by (cases bp) (auto simp: for_each_upt raise_def)

text \<open>One input.\<close>

context codec
begin

lemma one_input:
  assumes copy: "copies_faithfully H" and sz: "width * n = unat (buf_size b)"
    and loop: "for_each [0..<n] (\<lambda>i. write_data width enc (Some b) i (f i)) s = (Inr u, s1)"
    and to_b: "CopyTo H (Some b) s1 = (Inr True, t)"
  shows "\<forall>i<n. element width dec (device_view b (mem t)) i = f i"
proof (intro allI impI)
  fix i assume i: "i < n"
  have s1: "mem s1 = fill width enc (system_ptr b) f n (mem s)"
    using loop by (auto simp: write_loop)
  show "element width dec (device_view b (mem t)) i = f i"
    unfolding CopyTo_views [OF copy to_b] s1 by (rule fill_elements [OF sz i])
qed

end

text \<open>Two inputs, filled in one loop and copied to the device.\<close>

context codec
begin

lemma two_inputs:
  assumes copy: "copies_faithfully H" and ap: "buffers_apart b c"
    and sz: "width * n = unat (buf_size b)" "width * n = unat (buf_size c)"
    and loop: "for_each [0..<n] (\<lambda>i. bind (write_data width enc (Some b) i (f i))
        (\<lambda>_. write_data width enc (Some c) i (g i))) s = (Inr u, s1)"
    and to_b: "CopyTo H (Some b) s1 = (Inr True, s2)" and to_c: "CopyTo H (Some c) s2 = (Inr True, t)"
  shows "\<forall>i<n. element width dec (device_view b (mem t)) i = f i \<and> element width dec (device_view c (mem t)) i = g i"
proof (intro allI impI)
  fix i assume i: "i < n"
  let ?m = "fill width enc (system_ptr b) f n (mem s)"
  have "apart (system_ptr b) (width * n) (system_ptr c) (width * n)"
    using ap sz by (simp add: buffers_apart_def buffer_apart_def)
  from write_loop2 [where enc = enc and f = f and g = g and s = s, OF this length_enc] loop
  have s1: "mem s1 = fill width enc (system_ptr c) g n ?m" by auto
  have "host_view b (mem s1) = host_view b ?m"
    unfolding s1 using sz(2) ap by (intro fill_other_views) (simp_all add: buffers_apart_sym)
  then have "element width dec (host_view b (mem s1)) i = f i"
    using fill_elements [OF sz(1) i] by simp
  moreover have "element width dec (host_view c (mem s1)) i = g i"
    unfolding s1 using fill_elements [OF sz(2) i] by simp
  moreover have "device_view b (mem t) = host_view b (mem s1)"
    using CopyTo_views [OF copy to_b] CopyTo_other_views(1) [OF copy to_c] ap by (simp add: buffers_apart_sym)
  moreover have "device_view c (mem t) = host_view c (mem s1)"
    using CopyTo_views [OF copy to_c] CopyTo_other_views(2) [OF copy to_b ap] by simp
  ultimately show "element width dec (device_view b (mem t)) i = f i \<and> element width dec (device_view c (mem t)) i = g i"
    by simp
qed

end

text \<open>
  If the two halves of a buffer of its own do not overlap, the host keeps what it filled in.
\<close>

definition self_apart :: "buffer \<Rightarrow> bool" where
  "self_apart b \<longleftrightarrow> (IsLocal b \<longrightarrow> apart (system_ptr b) (unat (buf_size b)) (local_ptr b) (unat (buf_size b)))"

lemma CopyTo_keeps_host:
  assumes "copies_faithfully H" and "CopyTo H (Some b) s = (Inr True, t)" and "self_apart b"
  shows "host_view b (mem t) = host_view b (mem s)"
  using CopyTo_run [OF assms(1,2)] assms(3)
  by (cases "IsLocal b") (simp_all add: self_apart_def host_view_def load_store_apart)

context codec
begin

lemma two_inputs_kept:
  assumes copy: "copies_faithfully H" and ap: "buffers_apart b c" and self: "self_apart b" "self_apart c"
    and sz: "width * n = unat (buf_size b)" "width * n = unat (buf_size c)"
    and loop: "for_each [0..<n] (\<lambda>i. bind (write_data width enc (Some b) i (f i))
        (\<lambda>_. write_data width enc (Some c) i (g i))) s = (Inr u, s1)"
    and to_b: "CopyTo H (Some b) s1 = (Inr True, s2)" and to_c: "CopyTo H (Some c) s2 = (Inr True, t)"
  shows "\<forall>i<n. element width dec (host_view b (mem t)) i = f i \<and> element width dec (host_view c (mem t)) i = g i"
proof -
  have "host_view b (mem t) = device_view b (mem t)" "host_view c (mem t) = device_view c (mem t)"
    using CopyTo_keeps_host [OF copy to_b self(1)] CopyTo_other_views [OF copy to_c] CopyTo_views [OF copy to_b]
      CopyTo_keeps_host [OF copy to_c self(2)] CopyTo_other_views [OF copy to_b ap] CopyTo_views [OF copy to_c] ap
    by (simp_all add: buffers_apart_sym)
  then show ?thesis using two_inputs [OF copy ap sz loop to_b to_c] by simp
qed

end

text \<open>A one-dimensional launch of \<open>n\<close> work-items in groups of \<open>g\<close>.\<close>

definition launch :: "u32 \<Rightarrow> u16 \<Rightarrow> packet \<Rightarrow> bool" where
  "launch n g p \<longleftrightarrow> grid_size_x p = n \<and> grid_size_y p = 1 \<and> grid_size_z p = 1 \<and>
     workgroup_size_x p = g \<and> workgroup_size_y p = 1 \<and> workgroup_size_z p = 1"

lemma SetSizes_run:
  assumes "SetGridSize n 1 1 s = (Inr u, s')" and "SetWorkgroupSize g 1 1 s' = (Inr v, t)"
  shows "\<exists>p. t = s\<lparr>ring := (ring s)(aql s := p)\<rparr> \<and> launch n g p \<and> kernarg_address p = kernarg_address (ring s (aql s))"
  using assms by (auto simp: SetGridSize_def SetWorkgroupSize_def update_packet_run launch_def)

section \<open>Running on the reference runtime\<close>

lemma write_loop2_run:
  "for_each xs (\<lambda>i. bind (write_data w enc (Some b) i (f i)) (\<lambda>_. write_data w enc (Some c) i (g i))) s
    = (Inr (), s\<lparr>mem := fold (\<lambda>i m. store_bytes (Data w c i) (enc (g i)) (store_bytes (Data w b i) (enc (f i)) m)) xs (mem s)\<rparr>)"
  by (induction xs arbitrary: s) (simp_all add: exec write_data_Some)

lemma write_loop_run:
  "for_each xs (\<lambda>i. write_data w enc (Some b) i (f i)) s
    = (Inr (), s\<lparr>mem := fold (\<lambda>i. store_bytes (Data w b i) (enc (f i))) xs (mem s)\<rparr>)"
  by (induction xs arbitrary: s) (simp_all add: exec write_data_Some)

text \<open>The equations by which \<open>simp\<close> runs the operations on a concrete runtime.\<close>

lemmas run_setup = AllocateKernarg_def AllocateBuffer_def AllocateSystemMemory_def AllocateGPULocalMemory_def
  with_local_def hsa_memory_allocate_def hsa_call_def CopyTo_def CopyToLocal_def CopyFrom_def CopyFromLocal_def
  hsa_memory_copy_def IsLocal_def Buffer_def Kernarg_def KernargRaw_def SetGridSize_def SetWorkgroupSize_def
  and_then_def align_up_def u64_codec.length_enc write_loop_run write_loop2_run

lemmas run_init = Init_def find_gpu_device_def FindRegions_def HasAgent_def HasCpuAgent_def SetAgent_def SetCpuAgent_def
  SetSystemRegion_def SetKernargRegion_def SetGPULocalRegion_def SetLocalRegion_def InitDispatch_def clear_packet_def
  SetupExecutable_def LoadCodeObjectFromFile_def

end
