(* ===== verification/Reference_Run.thy ===== *)
theory Reference_Run
  imports Staging
begin

text \<open>
  Running an example on the reference runtime: the states its stages reach. The stages
  common to all examples are run once, for any kernel, any code object file and any members of
  the subclass.
\<close>

text \<open>After the code object is loaded, just before \<open>Setup\<close>.\<close>

definition ref_ready :: "u32 \<Rightarrow> 'z \<Rightarrow> (ref_rt, 'z) Dispatch_scheme" where
  "ref_ready dynamic members = (ref_object dynamic members)\<lparr>
     rt := ref_start\<lparr>next_block := 0x2000, write_index := 1\<rparr>,
     mem := store_bytes 0x1000 [0x7f, 0x45, 0x4c, 0x46] (\<lambda>_. 0),
     ring := (\<lambda>_. ref_packet)(0 := (fresh_packet 21 ref_packet)\<lparr>kernel_object := 33\<rparr>),
     events := [Ev_init, Ev_iterate_agents, Ev_queue_create 2 4, Ev_signal_create 1, Ev_iterate_regions 2,
       Ev_add_write_index 1, Ev_allocate 10 4 HSA_STATUS_SUCCESS 0x1000, Ev_deserialize 0x1000 4,
       Ev_executable_create, Ev_load_code_object 31 2 30, Ev_freeze 31],
     code_object := 30, executable := 31,
     out_stream := [Str ''Using agent: '', Str ''gfx803'', Endl]\<rparr>"

lemma ref_ready_reached:
  "and_then (Init (ref_hsa k)) (and_then (InitDispatch (ref_hsa k))
    (SetupExecutable (ref_hsa k) (LoadCodeObjectFromFile (ref_hsa k) file))) (Dispatch_Dispatch (ref_storage d z))
   = (Inr True, ref_ready d z)"
  by (simp add: run_init run_setup exec ref_defs ref_ready_def fresh_packet_def)

text \<open>The packet after \<open>Setup\<close>, for a launch of \<open>n\<close> work-items in groups of \<open>g\<close>.\<close>

definition ref_launch :: "u32 \<Rightarrow> u16 \<Rightarrow> packet" where
  "ref_launch n g = (fresh_packet 21 ref_packet)\<lparr>kernel_object := 33, kernarg_address := 0x2000,
     grid_size_x := n, workgroup_size_x := g\<rparr>"

lemmas ref_setup = run_setup exec ref_defs ref_ready_def ref_launch_def fresh_packet_def

text \<open>Publishing the packet and waiting for the kernel.\<close>

lemma ref_dispatched:
  fixes s :: "(ref_rt, 'z) Dispatch_scheme"
  assumes "queue s = Some ref_queue" and "signal s = 21" and "aql s = 0" and "packet_index s = 0"
    and "ring s 0 = ref_launch n g" and "ticks (rt s) = 0" and "rung (rt s) = None"
  defines "p \<equiv> (ref_launch n g)\<lparr>group_segment_size := group_static_size s + group_dynamic_size s,
      pkt_header := 0x1502, pkt_setup := 1\<rparr>"
  shows "\<exists>r es. and_then (RunDispatch (ref_hsa k)) (Wait (ref_hsa k)) s =
    (Inr True, s\<lparr>ring := (ring s)(0 := p\<lparr>pkt_header := 1\<rparr>), mem := k p (mem s), events := es, rt := r\<rparr>)"
proof -
  have hdr: "packet_header (ref_hsa k) = 0x1502"
    by (rule packet_header_documented [OF ref_constants])
  have dim: "packet_dim (ref_launch n g) = 1"
    by (simp add: packet_dim_cases ref_launch_def fresh_packet_def)
  have setup0: "PACKET_SETUP_DIMENSIONS (ref_hsa k) = 0" by (simp add: ref_hsa_def)
  have store: "api_signal_store (ref_hsa k) 20 0 r = r\<lparr>rung := Some 0\<rparr>" for r
    by (simp add: ref_hsa_def)
  define es where "es = events s @ [Ev_header_store 0 (0x1502 OR push_bit 16 1), Ev_doorbell 20 0]"
  define t where "t = s\<lparr>ring := (ring s)(0 := p), rt := (rt s)\<lparr>rung := Some 0\<rparr>, events := es\<rparr>"
  have run: "RunDispatch (ref_hsa k) s = (Inr True, t)"
    using assms(1-6) by (simp add: RunDispatch_run [OF setup0 assms(1)] Let_def hdr dim store ref_queue_def t_def es_def p_def)
  have "\<exists>r es. Wait (ref_hsa k) t =
    (Inr True, s\<lparr>ring := (ring s)(0 := p\<lparr>pkt_header := 1\<rparr>), mem := k p (mem s), events := es, rt := r\<rparr>)"
    using assms(2,6)
    by (simp add: Wait_def exec repeat_until_done wait_round_def hsa_signal_wait_def TIMEOUT_def
        ref_hsa_def ref_wait_def t_def) blast
  then show ?thesis using run by (auto simp: and_then_def bind_def)
qed

lemma ref_copy_back:
  fixes s :: "(ref_rt, 'z) Dispatch_scheme"
  shows "\<exists>m es. CopyFrom (ref_hsa k) (Some b) s = (Inr True, s\<lparr>mem := m, events := es\<rparr>)"
  by (cases s) (simp add: CopyFrom_def CopyFromLocal_def hsa_call_def hsa_memory_copy_def exec ref_hsa_def)

end
