(* ===== verification/Ds_Bpermute.thy ===== *)
theory Ds_Bpermute
  imports Reference_Run
begin

text \<open>
  examples/gfx8/ds_bpermute.cpp: the class \<open>DsBPermuteDispatch\<close>, its virtual methods and what they
  establish. The device permutes 64 integers, one per lane of a wavefront; the host passes
  the reversing permutation.
\<close>

section \<open>The class\<close>

record 'r DsBPermuteDispatch = "'r Dispatch" +
  bp_in :: "buffer option"
  bp_index :: "buffer option"
  bp_out :: "buffer option"

definition DsBPermuteDispatch :: "'r DsBPermuteDispatch \<Rightarrow> 'r DsBPermuteDispatch" where
  "DsBPermuteDispatch storage = Dispatch_Dispatch storage"

definition DsBPermute_SetupCodeObject :: "'r hsa \<Rightarrow> ('r DsBPermuteDispatch, bool) prog" where
  "DsBPermute_SetupCodeObject H = LoadCodeObjectFromFile H ''ds_bpermute.co''"

definition DsBPermute_Setup :: "'r hsa \<Rightarrow> ('r DsBPermuteDispatch, bool) prog" where
  "DsBPermute_Setup H =
     bind (AllocateKernarg H 24) (\<lambda>ok.
     if \<not> ok then ret False else
     bind (AllocateBuffer H (4 * 64) True) (\<lambda>ib.
     bind (modify (\<lambda>s. s\<lparr>bp_in := ib\<rparr>)) (\<lambda>_.
     bind (AllocateBuffer H (4 * 64) True) (\<lambda>xb.
     bind (modify (\<lambda>s. s\<lparr>bp_index := xb\<rparr>)) (\<lambda>_.
     bind (AllocateBuffer H (4 * 64) True) (\<lambda>ob.
     bind (modify (\<lambda>s. s\<lparr>bp_out := ob\<rparr>)) (\<lambda>_.
     bind (for_each [0..<64] (\<lambda>i.
       bind (write_data 4 enc_u32 ib i (of_nat i)) (\<lambda>_.
       write_data 4 enc_u32 xb i (63 - of_nat i)))) (\<lambda>_.
     bind (and_then (CopyTo H ib) (CopyTo H xb)) (\<lambda>ok.
     if \<not> ok then fail_with ''Error: failed to copy to local'' else
     bind (Kernarg ib) (\<lambda>_.
     bind (Kernarg xb) (\<lambda>_.
     bind (Kernarg ob) (\<lambda>_.
     bind (SetGridSize 64 1 1) (\<lambda>_.
     bind (SetWorkgroupSize 64 1 1) (\<lambda>_.
     ret True))))))))))))))"

definition DsBPermute_Verify :: "'r hsa \<Rightarrow> ('r DsBPermuteDispatch, bool) prog" where
  "DsBPermute_Verify H =
     bind (gets bp_out) (\<lambda>ob.
     bind (CopyFrom H ob) (\<lambda>copied.
     if \<not> copied then fail_with ''Error: failed to copy from local'' else
     for_fold [0..<64] (\<lambda>i ok.
       let expected = 63 - of_nat i in
       bind (read_data 4 dec_u32 ob i) (\<lambda>x.
       if x \<noteq> expected
       then bind (put (mismatch i (Unsigned (unat x)) (Unsigned (unat expected)))) (\<lambda>_. ret False)
       else ret ok)) True))"

definition DsBPermute_main :: "'r hsa \<Rightarrow> 'r DsBPermuteDispatch \<Rightarrow> (fault + int) \<times> 'r DsBPermuteDispatch" where
  "DsBPermute_main H storage =
     RunMain H (SetupExecutable H (DsBPermute_SetupCodeObject H)) (DsBPermute_Setup H) (DsBPermute_Verify H)
       (DsBPermuteDispatch storage)"

section \<open>The interface to the base class\<close>

lemma quiet_bp_members [stable_intros]:
  "stable quiet (modify (\<lambda>s :: 'r DsBPermuteDispatch. s\<lparr>bp_in := b\<rparr>))"
  "stable quiet (modify (\<lambda>s :: 'r DsBPermuteDispatch. s\<lparr>bp_index := b\<rparr>))"
  "stable quiet (modify (\<lambda>s :: 'r DsBPermuteDispatch. s\<lparr>bp_out := b\<rparr>))"
  by (rule stable_modify, simp add: quiet_def)+

lemma quiet_and_then [stable_intros]:
  "stable quiet m \<Longrightarrow> stable quiet n \<Longrightarrow> stable quiet (and_then m n)"
  by (rule stable_and_then [OF quiet.frame_axioms])

interpretation ds_bpermute: example H "SetupExecutable H (DsBPermute_SetupCodeObject H)"
  "DsBPermute_Setup H" "DsBPermute_Verify H"
  unfolding DsBPermute_SetupCodeObject_def DsBPermute_Setup_def DsBPermute_Verify_def
  by unfold_locales (intro stable_intros)+

section \<open>Setup\<close>

text \<open>What the device finds when the packet is published.\<close>

definition DsBPermute_staged :: "buffer \<Rightarrow> buffer \<Rightarrow> buffer \<Rightarrow> 'r DsBPermuteDispatch \<Rightarrow> bool" where
  "DsBPermute_staged ib xb ob t \<longleftrightarrow>
     bp_in t = Some ib \<and> bp_index t = Some xb \<and> bp_out t = Some ob \<and>
     buf_size ib = 256 \<and> buf_size xb = 256 \<and> buf_size ob = 256 \<and>
     arguments (kernarg_address (ring t (aql t))) [ib, xb, ob] (mem t) \<and>
     launch 64 64 (ring t (aql t)) \<and>
     (\<forall>i<64. element 4 dec_u32 (device_view ib (mem t)) i = of_nat i \<and>
             element 4 dec_u32 (device_view xb (mem t)) i = 63 - of_nat i)"

text \<open>The blocks the allocator gave do not overlap, as far as the example relies on it.\<close>

definition DsBPermute_separate :: "'r DsBPermuteDispatch \<Rightarrow> bool" where
  "DsBPermute_separate t \<longleftrightarrow> (\<forall>ib xb. bp_in t = Some ib \<longrightarrow> bp_index t = Some xb \<longrightarrow>
     buffers_apart ib xb \<and> device_apart ib (kernarg t) 24 \<and> device_apart xb (kernarg t) 24)"

lemma touches_fields:
  fixes s :: "'r DsBPermuteDispatch"
  assumes "touches_memory s t"
  shows "bp_in t = bp_in s" "bp_index t = bp_index s" "bp_out t = bp_out s"
    "ring t = ring s" "aql t = aql s" "kernarg t = kernarg s" "kernarg_offset t = kernarg_offset s"
  using assms by (auto simp: touches_memory_def)

lemma DsBPermute_Setup_staged:
  assumes copy: "copies_faithfully H" and run: "DsBPermute_Setup H s = (Inr True, t)"
    and sep: "DsBPermute_separate t"
  shows "\<exists>ib xb ob. DsBPermute_staged ib xb ob t"
proof -
  obtain s1 s2 s3 s4 s5 s6 s7 s8 s9 s10 ib xb ob u where
    k: "AllocateKernarg H 24 s = (Inr True, s1)" and
    i: "AllocateBuffer H (4 * 64) True s1 = (Inr ib, s2)" and
    x: "AllocateBuffer H (4 * 64) True (s2\<lparr>bp_in := ib\<rparr>) = (Inr xb, s3)" and
    o: "AllocateBuffer H (4 * 64) True (s3\<lparr>bp_index := xb\<rparr>) = (Inr ob, s4)" and
    l: "for_each [0..<64] (\<lambda>i. bind (write_data 4 enc_u32 ib i (of_nat i))
         (\<lambda>_. write_data 4 enc_u32 xb i (63 - of_nat i))) (s4\<lparr>bp_out := ob\<rparr>) = (Inr u, s5)" and
    c: "and_then (CopyTo H ib) (CopyTo H xb) s5 = (Inr True, s6)" and
    ki: "Kernarg ib s6 = (Inr (), s7)" and kx: "Kernarg xb s7 = (Inr (), s8)" and
    ko: "Kernarg ob s8 = (Inr (), s9)" and
    g: "SetGridSize 64 1 1 s9 = (Inr (), s10)" and w: "SetWorkgroupSize 64 1 1 s10 = (Inr (), t)"
    using run unfolding DsBPermute_Setup_def
    by (elim ok_elims) simp
  obtain b c where bc: "ib = Some b" "xb = Some c" using write_loop2_SomeD [OF l] by auto
  obtain d where d: "ob = Some d" using Kernarg_SomeD [OF ko] by blast
  obtain s51 where to_b: "CopyTo H (Some b) s5 = (Inr True, s51)" and to_c: "CopyTo H (Some c) s51 = (Inr True, s6)"
    using c bc by (auto simp: and_then_True)
  have sizes: "buf_size b = 256" "buf_size c = 256" "buf_size d = 256"
    using AllocateBuffer_Some i x o bc d by force+
  have loop: "stable touches_memory (for_each [0..<64] (\<lambda>i. bind (write_data 4 enc_u32 ib i (of_nat i))
      (\<lambda>_. write_data 4 enc_u32 xb i (63 - of_nat i))))" by (intro stable_intros)
  note T = touches_fields [OF stableD [OF touches_AllocateBuffer i]]
    touches_fields [OF stableD [OF touches_AllocateBuffer x]]
    touches_fields [OF stableD [OF touches_AllocateBuffer o]]
    touches_fields [OF stableD [OF loop l]]
    touches_fields [OF stableD [OF touches_CopyTo to_b]]
    touches_fields [OF stableD [OF touches_CopyTo to_c]]
  have members: "bp_in s6 = Some b" "bp_index s6 = Some c" "bp_out s6 = Some d"
    and seg: "kernarg_offset s6 = 0" "kernarg_address (ring s6 (aql s6)) = kernarg s6"
    using AllocateKernarg_True [OF k] by (simp_all add: T bc d)
  obtain m where s9: "s9 = s6\<lparr>kernarg_offset := 24, mem := m\<rparr>" and args: "arguments (kernarg s6) [b, c, d] m"
    and views: "\<And>b. device_apart b (kernarg s6) 24 \<Longrightarrow> device_view b m = device_view b (mem s6)"
    using Kernargs_run [OF seg(1), of "[b, c, d]"] Kernarg3 [OF ki [unfolded bc] kx [unfolded bc] ko [unfolded d]]
    by auto
  obtain p where t: "t = s9\<lparr>ring := (ring s9)(aql s9 := p)\<rparr>" and p: "launch 64 64 p" "kernarg_address p = kernarg s6"
    using SetSizes_run [OF g w] seg(2) by (auto simp: s9)
  have ap: "buffers_apart b c" "device_apart b (kernarg s6) 24" "device_apart c (kernarg s6) 24"
    using sep members by (auto simp: DsBPermute_separate_def t s9)
  have "\<forall>i<64. element 4 dec_u32 (device_view b (mem s6)) i = of_nat i \<and>
      element 4 dec_u32 (device_view c (mem s6)) i = 63 - of_nat i"
    using l unfolding bc by (intro u32_codec.two_inputs [OF copy ap(1) _ _ _ to_b to_c]) (simp_all add: sizes)
  then have "DsBPermute_staged b c d t"
    using members sizes args p views ap by (simp add: DsBPermute_staged_def t s9)
  then show ?thesis by blast
qed

text \<open>
  \<open>DsBPermuteDispatch::Setup\<close>: when it returns true, the packet carries a launch of one group of 64
  work-items and the address of an argument segment that holds the device addresses of
  \<open>in\<close>, \<open>index\<close> and \<open>out\<close> at offsets 0, 8 and 16, where ds_bpermute.s reads them; the
  device sees the numbers 0 to 63 in \<open>in\<close> and the same downwards in \<open>index\<close>. The runtime copies
  faithfully and the blocks it handed out do not overlap.
\<close>

theorem DsBPermute_Setup_prepares:
  assumes "copies_faithfully H" and "DsBPermute_Setup H s = (Inr True, t)" and "DsBPermute_separate t"
  shows "\<exists>ib xb ob. DsBPermute_staged ib xb ob t"
  by (rule DsBPermute_Setup_staged [OF assms])

section \<open>Null buffers\<close>

text \<open>
  A buffer that could not be allocated is not noticed: \<open>Setup\<close> writes through the null pointer,
  and the process ends there.
\<close>

theorem DsBPermute_Setup_null:
  assumes "AllocateKernarg H 24 s = (Inr True, s1)"
    and "AllocateBuffer H 256 True s1 = (Inr ib, s2)"
    and "AllocateBuffer H 256 True (s2\<lparr>bp_in := ib\<rparr>) = (Inr xb, s3)"
    and "AllocateBuffer H 256 True (s3\<lparr>bp_index := xb\<rparr>) = (Inr ob, s4)"
    and "ib = None \<or> xb = None"
  shows "\<exists>t. DsBPermute_Setup H s = (Inl Null_dereference, t)"
proof -
  have "\<exists>t. for_each [0..<64] (\<lambda>i. bind (write_data 4 enc_u32 ib i (of_nat i))
      (\<lambda>_. write_data 4 enc_u32 xb i (63 - of_nat i))) (s4\<lparr>bp_out := ob\<rparr>) = (Inl Null_dereference, t)"
    using assms(5) by (cases ib) (auto simp: for_each_upt raise_def bind_def write_data_Some simp del: upt_rec_numeral)
  then show ?thesis
    using assms(1-4) by (auto simp: DsBPermute_Setup_def bind_def modify_def simp del: upt_rec_numeral)
qed

section \<open>Verification\<close>

definition DsBPermute_got :: "buffer \<Rightarrow> memory \<Rightarrow> nat \<Rightarrow> u32" where
  "DsBPermute_got ob m i = element 4 dec_u32 (device_view ob m) i"

lemma DsBPermute_Verify_run:
  assumes copy: "copies_faithfully H" and ob: "bp_out s = Some ob" "buf_size ob = 256"
    and from_: "CopyFrom H (Some ob) s = (Inr True, u)"
  shows "DsBPermute_Verify H s = (Inr (\<forall>i<64. DsBPermute_got ob (mem s) i = 63 - of_nat i),
    u\<lparr>out_stream := out_stream u @ reports (\<lambda>i. DsBPermute_got ob (mem s) i = 63 - of_nat i)
      (\<lambda>i. mismatch i (Unsigned (unat (DsBPermute_got ob (mem s) i))) (Unsigned (unat (63 - of_nat i :: u32)))) 64\<rparr>)"
proof -
  let ?got = "DsBPermute_got ob (mem s)"
  let ?body = "\<lambda>i ok. let expected = 63 - of_nat i in
       bind (read_data 4 dec_u32 (Some ob) i) (\<lambda>x.
       if x \<noteq> expected
       then bind (put (mismatch i (Unsigned (unat x)) (Unsigned (unat expected)))) (\<lambda>_. ret False)
       else ret ok)"
  have "host_view ob (mem u) = device_view ob (mem s)" by (rule CopyFrom_views [OF copy from_])
  then have got: "dec_u32 (load_bytes (Data 4 ob i) 4 (mem u)) = ?got i" if "i < 64" for i
    using that ob(2) element_host_view [of 4 i ob dec_u32 "mem u"] by (simp add: DsBPermute_got_def)
  have "for_fold [0..<64] ?body True u = (Inr (\<forall>i<64. ?got i = 63 - of_nat i),
      u\<lparr>out_stream := out_stream u @ reports (\<lambda>i. ?got i = 63 - of_nat i)
        (\<lambda>i. mismatch i (Unsigned (unat (?got i))) (Unsigned (unat (63 - of_nat i :: u32)))) 64\<rparr>)"
    by (rule check_loop [where v = "\<lambda>i ok. ok"]) (simp add: exec read_data_Some got Let_def)
  then show ?thesis
    using ob(1) from_ by (simp add: DsBPermute_Verify_def bind_run gets_run del: upt_rec_numeral)
qed

text \<open>
  \<open>DsBPermuteDispatch::Verify\<close> accepts exactly the reversed sequence: once the result is copied back, it
  returns true if and only if the device wrote \<open>63 - i\<close> at every index \<open>i\<close>, and it reports
  every other element, in order and with both values.
\<close>

theorem DsBPermute_Verify_decides:
  assumes "copies_faithfully H" and "bp_out s = Some ob" and "buf_size ob = 256"
    and "CopyFrom H (Some ob) s = (Inr True, u)"
  shows "DsBPermute_Verify H s = (Inr (\<forall>i<64. element 4 dec_u32 (device_view ob (mem s)) i = 63 - of_nat i),
    u\<lparr>out_stream := out_stream u @ concat (map (\<lambda>i.
      let x = element 4 dec_u32 (device_view ob (mem s)) i in
      if x = 63 - of_nat i then []
      else mismatch i (Unsigned (unat x)) (Unsigned (unat (63 - of_nat i :: u32)))) [0..<64])\<rparr>)"
  using DsBPermute_Verify_run [OF assms] by (simp only: reports_def DsBPermute_got_def Let_def)

section \<open>The kernel\<close>

text \<open>
  What ds_bpermute.s does to the memory, for one wavefront of 64 lanes: lane \<open>i\<close> loads its element of
  \<open>index\<close> (the second argument) and of \<open>in\<close> (the first), takes over the value loaded by the
  lane its index names, modulo 64, and stores it in \<open>out\<close> (the third).
\<close>

definition ds_bpermute_kernel :: "packet \<Rightarrow> memory \<Rightarrow> memory" where
  "ds_bpermute_kernel p m =
     (let arg = \<lambda>k. dec_u64 (load_bytes (kernarg_address p + of_nat (8 * k)) 8 m);
          lane_in = \<lambda>i. dec_u32 (load_bytes (elem_addr 4 (arg 0) i) 4 m);
          lane_index = \<lambda>i. dec_u32 (load_bytes (elem_addr 4 (arg 1) i) 4 m) in
      fill 4 enc_u32 (arg 2) (\<lambda>i. lane_in (unat (lane_index i) mod 64)) 64 m)"

lemma DsBPermute_kernel_accepted:
  assumes copy: "copies_faithfully H" and staged: "DsBPermute_staged ib xb ob s"
    and ptr: "kernarg_address p = kernarg_address (ring s (aql s))"
    and ran: "mem s' = ds_bpermute_kernel p (mem s)" and out: "bp_out s' = Some ob"
    and from_: "CopyFrom H (Some ob) s' = (Inr True, u)"
  shows "\<exists>t. DsBPermute_Verify H s' = (Inr True, t) \<and> out_stream t = out_stream u"
proof -
  have st: "buf_size ib = 256" "buf_size xb = 256" "buf_size ob = 256"
    "arguments (kernarg_address p) [ib, xb, ob] (mem s)"
    "\<And>i. i < 64 \<Longrightarrow> element 4 dec_u32 (device_view ib (mem s)) i = of_nat i"
    "\<And>i. i < 64 \<Longrightarrow> element 4 dec_u32 (device_view xb (mem s)) i = 63 - of_nat i"
    using staged by (simp_all add: DsBPermute_staged_def ptr)
  have args: "dec_u64 (load_bytes (kernarg_address p + of_nat (8 * k)) 8 (mem s)) = local_ptr ([ib, xb, ob] ! k)" if "k < 3" for k
    using st(4) that by (simp add: arguments_def)
  have lanes: "dec_u32 (load_bytes (elem_addr 4 (local_ptr ib) i) 4 (mem s)) = of_nat i"
      "dec_u32 (load_bytes (elem_addr 4 (local_ptr xb) i) 4 (mem s)) = 63 - of_nat i" if "i < 64" for i
    using st that element_device_view [of 4 i ib dec_u32 "mem s"] element_device_view [of 4 i xb dec_u32 "mem s"] by simp_all
  have rev: "unat (63 - of_nat i :: u32) mod 64 = 63 - i" if "i < 64" for i
    using that by (simp add: unat_sub word_le_nat_alt)
  have "mem s' = fill 4 enc_u32 (local_ptr ob)
      (\<lambda>i. dec_u32 (load_bytes (elem_addr 4 (local_ptr ib)
        (unat (dec_u32 (load_bytes (elem_addr 4 (local_ptr xb) i) 4 (mem s))) mod 64)) 4 (mem s))) 64 (mem s)"
    unfolding ran ds_bpermute_kernel_def Let_def using args [of 0] args [of 1] args [of 2] by simp
  then have "dec_u32 (load_bytes (elem_addr 4 (local_ptr ob) i) 4 (mem s')) = 63 - of_nat i" if "i < 64" for i
    using that u32_codec.load_fill [of i 64 "local_ptr ob"]
    by (simp add: fill_def lanes rev of_nat_diff del: upt_rec_numeral)
  then have good: "DsBPermute_got ob (mem s') i = 63 - of_nat i" if "i < 64" for i
    using that st(3) element_device_view [of 4 i ob dec_u32 "mem s'"] by (simp add: DsBPermute_got_def)
  then have "reports (\<lambda>i. DsBPermute_got ob (mem s') i = 63 - of_nat i) rep 64 = []" for rep
    by (auto simp: reports_def simp del: upt_rec_numeral)
  then show ?thesis
    using DsBPermute_Verify_run [OF copy out st(3) from_] good by simp
qed

text \<open>
  C5. The example is right: on what \<open>Setup\<close> staged, the kernel computes a result that \<open>Verify\<close>
  accepts without a report.
\<close>

theorem DsBPermute_correct:
  assumes "copies_faithfully H" and "DsBPermute_staged ib xb ob s"
    and "kernarg_address p = kernarg_address (ring s (aql s))"
    and "mem s' = ds_bpermute_kernel p (mem s)" and "bp_out s' = Some ob"
    and "CopyFrom H (Some ob) s' = (Inr True, u)"
  shows "\<exists>t. DsBPermute_Verify H s' = (Inr True, t) \<and> out_stream t = out_stream u"
  by (rule DsBPermute_kernel_accepted [OF assms])

section \<open>A complete run\<close>

definition ref_bp_members where
  "ref_bp_members = DsBPermuteDispatch.fields None None None"

definition ref_bp_staged :: "u32 \<Rightarrow> event list \<Rightarrow> memory \<Rightarrow> ref_rt DsBPermuteDispatch" where
  "ref_bp_staged d es m = (ref_ready d ref_bp_members)\<lparr>rt := ref_start\<lparr>next_block := 0x9000, write_index := 1\<rparr>,
     mem := m, ring := (\<lambda>_. ref_packet)(0 := ref_launch 64 64), events := es, kernarg := 0x2000, kernarg_offset := 24,
     bp_in := Some (Buffer 256 0x4000 0x3000), bp_index := Some (Buffer 256 0x6000 0x5000),
     bp_out := Some (Buffer 256 0x8000 0x7000)\<rparr>"

lemma ref_bp_setup:
  "\<exists>es m. DsBPermute_Setup (ref_hsa k) (ref_ready d ref_bp_members) = (Inr True, ref_bp_staged d es m)"
  by (simp add: DsBPermute_Setup_def ref_setup ref_bp_members_def ref_bp_staged_def DsBPermuteDispatch.defs
      del: upt_rec_numeral cong: if_cong)

lemma ref_bp_separate: "DsBPermute_separate (ref_bp_staged d es m)"
  by (simp add: DsBPermute_separate_def ref_bp_staged_def Buffer_def buffers_apart_def buffer_apart_def
      device_apart_def apart_below)

lemma ref_bp_staged_ok:
  assumes "DsBPermute_Setup (ref_hsa k) s = (Inr True, ref_bp_staged d es m)"
  shows "DsBPermute_staged (Buffer 256 0x4000 0x3000) (Buffer 256 0x6000 0x5000) (Buffer 256 0x8000 0x7000)
    (ref_bp_staged d es m)"
proof -
  obtain ib xb ob where "DsBPermute_staged ib xb ob (ref_bp_staged d es m)"
    using DsBPermute_Setup_staged [OF ref_copies assms ref_bp_separate] by blast
  moreover from this have "ib = Buffer 256 0x4000 0x3000 \<and> xb = Buffer 256 0x6000 0x5000 \<and> ob = Buffer 256 0x8000 0x7000"
    by (simp add: DsBPermute_staged_def ref_bp_staged_def)
  ultimately show ?thesis by simp
qed

theorem DsBPermute_Setup_prepares_witness:
  "\<exists>t ib xb ob. DsBPermute_Setup (ref_hsa (\<lambda>p m. m)) (ref_ready 0 ref_bp_members) = (Inr True, t) \<and>
    DsBPermute_staged ib xb ob t"
proof -
  obtain es m where "DsBPermute_Setup (ref_hsa (\<lambda>p m. m)) (ref_ready 0 ref_bp_members) = (Inr True, ref_bp_staged 0 es m)"
    using ref_bp_setup by blast
  then show ?thesis using DsBPermute_Setup_prepares [OF ref_copies _ ref_bp_separate] by blast
qed

theorem DsBPermute_Setup_null_witness:
  "\<exists>t. DsBPermute_Setup ((ref_hsa (\<lambda>p m. m))\<lparr>api_memory_allocate := \<lambda>g n r.
      if n = 24 then ((HSA_STATUS_SUCCESS, 0x2000), r) else ((HSA_STATUS_OTHER 4104, 0), r)\<rparr>)
      (ref_ready 0 ref_bp_members) = (Inl Null_dereference, t)"
  by (rule DsBPermute_Setup_null [where ib = None and xb = None])
     (simp_all add: ref_setup ref_bp_members_def DsBPermuteDispatch.defs HsaError_def)

theorem DsBPermute_Verify_decides_witness:
  "\<exists>t. DsBPermute_Verify (ref_hsa (\<lambda>p m. m))
      ((ref_ready 0 ref_bp_members)\<lparr>mem := \<lambda>_. 0, bp_out := Some (Buffer 256 0x8000 0x7000)\<rparr>) = (Inr False, t)"
proof -
  let ?H = "ref_hsa (\<lambda>p m. m)" and ?b = "Buffer 256 0x8000 0x7000"
  let ?s = "(ref_ready 0 ref_bp_members)\<lparr>mem := \<lambda>_. 0, bp_out := Some ?b\<rparr>"
  obtain u where "CopyFrom ?H (Some ?b) ?s = (Inr True, u)" using ref_copy_back by blast
  moreover have "bp_out ?s = Some ?b" and "buf_size ?b = 256"
    by (simp_all add: Buffer_def ref_ready_def ref_object_def ref_storage_def Dispatch_Dispatch_def ref_bp_members_def
        DsBPermuteDispatch.defs)
  ultimately have "DsBPermute_Verify ?H ?s =
      (Inr (\<forall>i<64. element 4 dec_u32 (device_view ?b (mem ?s)) i = 63 - of_nat i), snd (DsBPermute_Verify ?H ?s))"
    using DsBPermute_Verify_decides [OF ref_copies] by simp
  moreover have "element 4 dec_u32 (device_view ?b (\<lambda>_. 0)) 0 = 0"
    by (simp add: element_device_view Buffer_def load_bytes_def dec_u32_def upt_rec)
  then have "\<not> (\<forall>i<64. element 4 dec_u32 (device_view ?b (mem ?s)) i = 63 - of_nat i)"
    by (auto intro!: exI [of _ 0])
  ultimately show ?thesis by (simp only: simp_thms) blast
qed

theorem DsBPermute_correct_witness:
  "\<exists>d es m t. DsBPermute_Verify (ref_hsa (\<lambda>p m. m)) ((ref_bp_staged d es m)\<lparr>mem :=
      ds_bpermute_kernel (ref_launch 64 64) m\<rparr>) = (Inr True, t)"
proof -
  let ?H = "ref_hsa (\<lambda>p m. m)" and ?b = "Buffer 256 0x8000 0x7000"
  obtain es m where run: "DsBPermute_Setup ?H (ref_ready 0 ref_bp_members) = (Inr True, ref_bp_staged 0 es m)"
    using ref_bp_setup by blast
  let ?s = "ref_bp_staged 0 es m" and ?t = "(ref_bp_staged 0 es m)\<lparr>mem := ds_bpermute_kernel (ref_launch 64 64) m\<rparr>"
  obtain u where copied: "CopyFrom ?H (Some ?b) ?t = (Inr True, u)" using ref_copy_back by blast
  have "kernarg_address (ref_launch 64 64) = kernarg_address (ring ?s (aql ?s))"
    and "mem ?t = ds_bpermute_kernel (ref_launch 64 64) (mem ?s)" and "bp_out ?t = Some ?b"
    by (simp_all add: ref_bp_staged_def ref_ready_def ref_object_def Dispatch_Dispatch_def ref_storage_def)
  then show ?thesis
    using DsBPermute_correct [OF ref_copies ref_bp_staged_ok [OF run] _ _ _ copied] by blast
qed

text \<open>The state after the wait.\<close>

lemma ref_bp_dispatched:
  "\<exists>r es' p. and_then (RunDispatch (ref_hsa k)) (Wait (ref_hsa k)) (ref_bp_staged d es m) =
    (Inr True, (ref_bp_staged d es m)\<lparr>ring := (\<lambda>_. ref_packet)(0 := p\<lparr>pkt_header := 1\<rparr>), mem := k p m, events := es', rt := r\<rparr>) \<and>
    kernarg_address p = 0x2000 \<and> group_segment_size p = d"
proof -
  let ?s = "ref_bp_staged d es m"
  have f: "queue ?s = Some ref_queue" "signal ?s = 21" "aql ?s = 0" "packet_index ?s = 0"
    "ring ?s 0 = ref_launch 64 64" "ticks (rt ?s) = 0" "rung (rt ?s) = None"
    "mem ?s = m" "ring ?s = (\<lambda>_. ref_packet)(0 := ref_launch 64 64)"
    "group_static_size ?s = 0" "group_dynamic_size ?s = d"
    by (simp_all add: ref_bp_staged_def ref_ready_def ref_object_def ref_storage_def Dispatch_Dispatch_def ref_start_def)
  define p where "p = (ref_launch 64 64)\<lparr>group_segment_size := d, pkt_header := 0x1502, pkt_setup := 1\<rparr>"
  have "\<exists>r es'. and_then (RunDispatch (ref_hsa k)) (Wait (ref_hsa k)) ?s =
      (Inr True, ?s\<lparr>ring := (\<lambda>_. ref_packet)(0 := p\<lparr>pkt_header := 1\<rparr>), mem := k p m, events := es', rt := r\<rparr>)"
    using ref_dispatched [OF f(1-7), of k] by (simp add: f p_def)
  moreover have "kernarg_address p = 0x2000" "group_segment_size p = d" by (simp_all add: p_def ref_launch_def)
  ultimately show ?thesis by blast
qed

lemma ref_bp_run:
  "\<exists>t. run_stages (ref_hsa ds_bpermute_kernel) (SetupExecutable (ref_hsa ds_bpermute_kernel)
      (DsBPermute_SetupCodeObject (ref_hsa ds_bpermute_kernel))) (DsBPermute_Setup (ref_hsa ds_bpermute_kernel))
      (DsBPermute_Verify (ref_hsa ds_bpermute_kernel)) (DsBPermuteDispatch (ref_storage d ref_bp_members)) = (Inr True, t) \<and>
    out_stream t = [Str ''Using agent: '', Str ''gfx803'', Endl] \<and> cout t = [] \<and> group_segment_size (ring t 0) = d"
proof -
  let ?H = "ref_hsa ds_bpermute_kernel"
  let ?b = "Buffer 256 0x8000 0x7000"
  obtain es m where s4: "DsBPermute_Setup ?H (ref_ready d ref_bp_members) = (Inr True, ref_bp_staged d es m)"
    using ref_bp_setup by blast
  obtain r es' p s6 where s6: "and_then (RunDispatch ?H) (Wait ?H) (ref_bp_staged d es m) = (Inr True, s6)"
    and s6_def: "s6 = (ref_bp_staged d es m)\<lparr>ring := (\<lambda>_. ref_packet)(0 := p\<lparr>pkt_header := 1\<rparr>),
      mem := ds_bpermute_kernel p m, events := es', rt := r\<rparr>"
    and p: "kernarg_address p = 0x2000" "group_segment_size p = d"
    using ref_bp_dispatched [of ds_bpermute_kernel d es m] by blast
  obtain m' es'' where copied: "CopyFrom ?H (Some ?b) s6 = (Inr True, s6\<lparr>mem := m', events := es''\<rparr>)"
    using ref_copy_back by blast
  have st: "mem s6 = ds_bpermute_kernel p (mem (ref_bp_staged d es m))" "bp_out s6 = Some ?b"
    "kernarg_address p = kernarg_address (ring (ref_bp_staged d es m) (aql (ref_bp_staged d es m)))"
    by (simp_all add: s6_def ref_bp_staged_def p ref_launch_def ref_ready_def ref_object_def Dispatch_Dispatch_def ref_storage_def)
  obtain t where t: "DsBPermute_Verify ?H s6 = (Inr True, t)" and out: "out_stream t = out_stream s6"
    using DsBPermute_kernel_accepted [OF ref_copies ref_bp_staged_ok [OF s4] st(3,1,2) copied] by auto
  have "buf_size ?b = 256" by (simp add: Buffer_def)
  from DsBPermute_Verify_run [OF ref_copies st(2) this copied] t
  obtain xs where t_def: "t = s6\<lparr>mem := m', events := es'', out_stream := xs\<rparr>" by auto
  have "run_stages ?H (SetupExecutable ?H (DsBPermute_SetupCodeObject ?H)) (DsBPermute_Setup ?H) (DsBPermute_Verify ?H)
      (DsBPermuteDispatch (ref_storage d ref_bp_members)) = (Inr True, t)"
    using ref_ready_reached [of ds_bpermute_kernel "''ds_bpermute.co''" d ref_bp_members] s4 s6 t
    unfolding run_stages_def and_then_True DsBPermute_SetupCodeObject_def DsBPermuteDispatch_def by blast
  moreover have "cout t = []" "group_segment_size (ring t 0) = d"
    by (simp_all add: t_def s6_def ref_bp_staged_def p ref_ready_def ref_object_def Dispatch_Dispatch_def ref_storage_def)
  moreover have "out_stream t = [Str ''Using agent: '', Str ''gfx803'', Endl]"
    unfolding out by (simp add: s6_def ref_bp_staged_def ref_ready_def)
  ultimately show ?thesis by blast
qed

text \<open>
  The example from \<open>main\<close> to its exit code, on the reference runtime with the kernel of ds_bpermute.s:
  it prints the agent and "Success" and returns 0. The published packet asks for the group
  memory that the storage of the object happened to hold in \<open>group_dynamic_size\<close>, a
  member that no constructor and no example sets.
\<close>

theorem DsBPermute_end_to_end:
  "\<exists>t. DsBPermute_main (ref_hsa ds_bpermute_kernel) (ref_storage garbage ref_bp_members) = (Inr 0, t) \<and>
    cout t = [Str ''Using agent: '', Str ''gfx803'', Endl, Endl, Str ''Success'', Endl] \<and>
    group_segment_size (ring t 0) = garbage"
  using ref_bp_run [of garbage]
  by (auto simp: DsBPermute_main_def RunMain_def bind_def ret_def Run_run verdict_def)

end
