(* ===== verification/Dpp_Reduce.thy ===== *)
theory Dpp_Reduce
  imports Reference_Run Half Gcn
begin

text \<open>
  examples/gfx8/dpp_reduce.cpp: the class \<open>DppReduce\<close>, and the kernel of dpp_reduce.s: a prefix sum
  over the 64 lanes of a wavefront.
\<close>

section \<open>The class\<close>

record 'r DppReduce = "'r Dispatch" +
  dpp_in :: "buffer option"
  dpp_out :: "buffer option"
  dpp_length :: u32

definition DppReduce :: "'r DppReduce \<Rightarrow> 'r DppReduce" where
  "DppReduce storage = (Dispatch_Dispatch storage)\<lparr>dpp_length := 64\<rparr>"

definition DppReduce_SetupCodeObject :: "'r hsa \<Rightarrow> ('r DppReduce, bool) prog" where
  "DppReduce_SetupCodeObject H = LoadCodeObjectFromFile H ''dpp_reduce.co''"

definition DppReduce_Setup :: "'r hsa \<Rightarrow> ('r DppReduce, bool) prog" where
  "DppReduce_Setup H =
     bind (AllocateKernarg H 16) (\<lambda>ok.
     if \<not> ok then ret False else
     bind (gets dpp_length) (\<lambda>len.
     bind (AllocateBuffer H (ucast len * 4) True) (\<lambda>ib.
     bind (modify (\<lambda>s. s\<lparr>dpp_in := ib\<rparr>)) (\<lambda>_.
     bind (for_each [0..<unat len] (\<lambda>i. write_data 4 enc_u32 ib i (f32_of_nat i))) (\<lambda>_.
     bind (CopyTo H ib) (\<lambda>ok.
     if \<not> ok then fail_with ''Error: failed to copy to local'' else
     bind (AllocateBuffer H (ucast len * 4) True) (\<lambda>ob.
     bind (modify (\<lambda>s. s\<lparr>dpp_out := ob\<rparr>)) (\<lambda>_.
     bind (Kernarg ib) (\<lambda>_.
     bind (Kernarg ob) (\<lambda>_.
     bind (SetGridSize 64 1 1) (\<lambda>_.
     bind (SetWorkgroupSize 64 1 1) (\<lambda>_.
     ret True))))))))))))"

definition DppReduce_Verify :: "'r hsa \<Rightarrow> ('r DppReduce, bool) prog" where
  "DppReduce_Verify H =
     bind (gets dpp_out) (\<lambda>ob.
     bind (CopyFrom H ob) (\<lambda>copied.
     if \<not> copied then fail_with ''Error: failed to copy from local'' else
     bind (gets dpp_length) (\<lambda>len.
     bind (for_fold [0..<unat len] (\<lambda>i (ok, expected).
       let expected = (if i mod 64 = 0 then 0 else expected);
           expected = f32_add expected (f32_of_nat i) in
       bind (read_data 4 dec_u32 ob i) (\<lambda>x.
       if \<not> f32_eq expected x
       then bind (put (mismatch i (Float x) (Float expected))) (\<lambda>_. ret (False, expected))
       else ret (ok, expected))) (True, 0)) (\<lambda>(ok, expected).
     ret ok))))"

definition DppReduce_main :: "'r hsa \<Rightarrow> 'r DppReduce \<Rightarrow> (fault + int) \<times> 'r DppReduce" where
  "DppReduce_main H storage =
     RunMain H (SetupExecutable H (DppReduce_SetupCodeObject H)) (DppReduce_Setup H) (DppReduce_Verify H)
       (DppReduce storage)"

lemma quiet_dpp_members [stable_intros]:
  "stable quiet (modify (\<lambda>s :: 'r DppReduce. s\<lparr>dpp_in := b\<rparr>))"
  "stable quiet (modify (\<lambda>s :: 'r DppReduce. s\<lparr>dpp_out := b\<rparr>))"
  by (rule stable_modify, simp add: quiet_def)+

interpretation dpp_reduce: example H "SetupExecutable H (DppReduce_SetupCodeObject H)"
  "DppReduce_Setup H" "DppReduce_Verify H"
  unfolding DppReduce_SetupCodeObject_def DppReduce_Setup_def DppReduce_Verify_def
  by unfold_locales (intro stable_intros)+

section \<open>Setup\<close>

definition DppReduce_staged :: "buffer \<Rightarrow> buffer \<Rightarrow> 'r DppReduce \<Rightarrow> bool" where
  "DppReduce_staged ib ob t \<longleftrightarrow>
     dpp_in t = Some ib \<and> dpp_out t = Some ob \<and> buf_size ib = 256 \<and> buf_size ob = 256 \<and>
     arguments (kernarg_address (ring t (aql t))) [ib, ob] (mem t) \<and>
     launch 64 64 (ring t (aql t)) \<and>
     (\<forall>i<64. element 4 dec_u32 (device_view ib (mem t)) i = f32_of_nat i)"

lemma touches_dpp_fields:
  fixes s :: "'r DppReduce"
  assumes "touches_memory s t"
  shows "dpp_in t = dpp_in s" "dpp_out t = dpp_out s" "dpp_length t = dpp_length s"
    "ring t = ring s" "aql t = aql s" "kernarg t = kernarg s" "kernarg_offset t = kernarg_offset s"
  using assms by (auto simp: touches_memory_def)

lemma AllocateKernarg_dpp_length:
  fixes s :: "'r DppReduce"
  assumes "AllocateKernarg H n s = (Inr True, t)"
  shows "dpp_length t = dpp_length s"
  using assms
  by (auto simp: AllocateKernarg_def hsa_memory_allocate_def hsa_call_def exec split: prod.splits if_splits)

lemma DppReduce_Setup_staged:
  assumes copy: "copies_faithfully H" and len: "dpp_length s = 64"
    and run: "DppReduce_Setup H s = (Inr True, t)"
    and sep: "\<And>b. dpp_in t = Some b \<Longrightarrow> device_apart b (kernarg t) 16"
  shows "\<exists>ib ob. DppReduce_staged ib ob t"
proof -
  obtain s1 s2 s3 s4 s5 s6 s7 s8 ib ob u where
    k: "AllocateKernarg H 16 s = (Inr True, s1)" and
    i: "AllocateBuffer H (ucast (dpp_length s1) * 4) True s1 = (Inr ib, s2)" and
    l: "for_each [0..<unat (dpp_length s1)] (\<lambda>i. write_data 4 enc_u32 ib i (f32_of_nat i)) (s2\<lparr>dpp_in := ib\<rparr>) = (Inr u, s3)" and
    c: "CopyTo H ib s3 = (Inr True, s4)" and
    o: "AllocateBuffer H (ucast (dpp_length s1) * 4) True s4 = (Inr ob, s5)" and
    ki: "Kernarg ib (s5\<lparr>dpp_out := ob\<rparr>) = (Inr (), s6)" and ko: "Kernarg ob s6 = (Inr (), s7)" and
    g: "SetGridSize 64 1 1 s7 = (Inr (), s8)" and w: "SetWorkgroupSize 64 1 1 s8 = (Inr (), t)"
    using run unfolding DppReduce_Setup_def
    by (elim ok_elims) (auto simp: gets_run)
  have len1: "dpp_length s1 = 64" using AllocateKernarg_dpp_length [OF k] len by simp
  have l64: "for_each [0..<64] (\<lambda>i. write_data 4 enc_u32 ib i (f32_of_nat i)) (s2\<lparr>dpp_in := ib\<rparr>) = (Inr u, s3)"
    using l by (simp add: len1 del: upt_rec_numeral)
  obtain b where b: "ib = Some b" using write_loop_SomeD [OF l64] by auto
  obtain d where d: "ob = Some d" using Kernarg_SomeD [OF ko] by blast
  have sizes: "buf_size b = 256" "buf_size d = 256"
    using AllocateBuffer_Some i o b d len1 by force+
  have loop: "stable touches_memory (for_each [0..<64] (\<lambda>i. write_data 4 enc_u32 ib i (f32_of_nat i)))"
    by (intro stable_intros)
  note T = touches_dpp_fields [OF stableD [OF touches_AllocateBuffer i]]
    touches_dpp_fields [OF stableD [OF loop l64]]
    touches_dpp_fields [OF stableD [OF touches_CopyTo c]]
    touches_dpp_fields [OF stableD [OF touches_AllocateBuffer o]]
  define s50 where "s50 = s5\<lparr>dpp_out := ob\<rparr>"
  have members: "dpp_in s50 = Some b" "dpp_out s50 = Some d"
    and seg: "kernarg_offset s50 = 0" "kernarg_address (ring s50 (aql s50)) = kernarg s50"
    using AllocateKernarg_True [OF k] by (simp_all add: s50_def T b d)
  obtain m where s7: "s7 = s50\<lparr>kernarg_offset := 16, mem := m\<rparr>" and args: "arguments (kernarg s50) [b, d] m"
    and views: "\<And>b. device_apart b (kernarg s50) 16 \<Longrightarrow> device_view b m = device_view b (mem s50)"
    using Kernargs_run [OF seg(1), of "[b, d]"] Kernarg2 [OF ki [unfolded b, folded s50_def] ko [unfolded d]]
    by auto
  obtain p where t: "t = s7\<lparr>ring := (ring s7)(aql s7 := p)\<rparr>" and p: "launch 64 64 p" "kernarg_address p = kernarg s50"
    using SetSizes_run [OF g w] seg(2) by (auto simp: s7)
  have ap: "device_apart b (kernarg s50) 16" using sep members by (simp add: t s7)
  have "\<forall>i<64. element 4 dec_u32 (device_view b (mem s4)) i = f32_of_nat i"
    using l64 c unfolding b by (intro u32_codec.one_input [OF copy]) (simp_all add: sizes)
  moreover have "mem s50 = mem s4" using AllocateBuffer_mem [OF o] by (simp add: s50_def)
  ultimately have "DppReduce_staged b d t"
    using members sizes args p views [OF ap] by (simp add: DppReduce_staged_def t s7)
  then show ?thesis by blast
qed

section \<open>Verification\<close>

text \<open>The sum of the numbers up to \<open>i\<close>.\<close>

definition tri :: "nat \<Rightarrow> nat" where
  "tri i = i * (i + 1) div 2"

lemma tri_Suc: "tri (Suc i) = tri i + Suc i"
proof -
  have "Suc i * (Suc i + 1) = i * (i + 1) + 2 * Suc i" by simp
  then show ?thesis unfolding tri_def by (simp only: div_mult_self2)
qed

lemma tri_mono: "i \<le> j \<Longrightarrow> tri i \<le> tri j"
  unfolding tri_def by (intro div_le_mono mult_le_mono) simp_all

text \<open>The accumulator of the loop after \<open>i\<close> rounds.\<close>

definition expected_before :: "nat \<Rightarrow> f32" where
  "expected_before i = (case i of 0 \<Rightarrow> 0 | Suc j \<Rightarrow> f32_of_nat (tri j))"

lemma tri_0 [simp]: "tri 0 = 0"
  by (simp add: tri_def)

lemma expected_step_0: "f32_add 0 0 = 0"
  using f32_add_of_nat [of 0 0] by simp

lemma expected_step:
  assumes "0 < i" and "i < 64"
  shows "f32_add (expected_before i) (f32_of_nat i) = f32_of_nat (tri i)"
proof -
  obtain j where i: "i = Suc j" using assms(1) by (cases i) simp_all
  have "tri j \<le> tri 64" using assms(2) i by (intro tri_mono) simp
  then have "tri j < 2 ^ 24" by (simp add: tri_def)
  then show ?thesis using assms(2) by (simp add: i expected_before_def f32_add_of_nat tri_Suc)
qed

definition DppReduce_got :: "buffer \<Rightarrow> memory \<Rightarrow> nat \<Rightarrow> f32" where
  "DppReduce_got ob m i = element 4 dec_u32 (device_view ob m) i"

lemma DppReduce_Verify_run:
  assumes copy: "copies_faithfully H" and ob: "dpp_out s = Some ob" "buf_size ob = 256"
    and len: "dpp_length s = 64" and from_: "CopyFrom H (Some ob) s = (Inr True, u)"
  shows "DppReduce_Verify H s = (Inr (\<forall>i<64. f32_eq (f32_of_nat (tri i)) (DppReduce_got ob (mem s) i)),
    u\<lparr>out_stream := out_stream u @ reports (\<lambda>i. f32_eq (f32_of_nat (tri i)) (DppReduce_got ob (mem s) i))
      (\<lambda>i. mismatch i (Float (DppReduce_got ob (mem s) i)) (Float (f32_of_nat (tri i)))) 64\<rparr>)"
proof -
  let ?got = "DppReduce_got ob (mem s)"
  let ?body = "\<lambda>i (ok, expected).
       let expected = (if i mod 64 = 0 then 0 else expected);
           expected = f32_add expected (f32_of_nat i) in
       bind (read_data 4 dec_u32 (Some ob) i) (\<lambda>x.
       if \<not> f32_eq expected x
       then bind (put (mismatch i (Float x) (Float expected))) (\<lambda>_. ret (False, expected))
       else ret (ok, expected))"
  have "host_view ob (mem u) = device_view ob (mem s)" by (rule CopyFrom_views [OF copy from_])
  then have got: "dec_u32 (load_bytes (Data 4 ob i) 4 (mem u)) = ?got i" if "i < 64" for i
    using that ob(2) element_host_view [of 4 i ob dec_u32 "mem u"] by (simp add: DppReduce_got_def)
  have len': "dpp_length u = 64" using touches_dpp_fields(3) [OF stableD [OF touches_CopyFrom from_]] len by simp
  have after: "expected_before (Suc i) = f32_of_nat (tri i)" for i by (simp add: expected_before_def)
  have "for_fold [0..<64] ?body (True, expected_before 0) u =
      (Inr (\<forall>i<64. f32_eq (f32_of_nat (tri i)) (?got i), expected_before 64),
      u\<lparr>out_stream := out_stream u @ reports (\<lambda>i. f32_eq (f32_of_nat (tri i)) (?got i))
        (\<lambda>i. mismatch i (Float (?got i)) (Float (f32_of_nat (tri i)))) 64\<rparr>)"
    by (rule check_loop [where v = "\<lambda>i ok. (ok, expected_before i)"])
       (simp add: exec read_data_Some got Let_def expected_step_0 expected_step after)
  then show ?thesis
    using ob(1) from_ len' by (simp add: DppReduce_Verify_def bind_run gets_run ret_run expected_before_def del: upt_rec_numeral)
qed

section \<open>The kernel\<close>

text \<open>
  dpp_reduce.s adds the 64 lanes of a wavefront by data parallel primitives. Its seven
  additions are stated over any addition.
\<close>

definition dpp_lanes :: "('a \<Rightarrow> 'a \<Rightarrow> 'a) \<Rightarrow> 'a \<Rightarrow> 'a lanes \<Rightarrow> 'a lanes \<Rightarrow> 'a lanes" where
  "dpp_lanes add z v0 v1 =
     (let v1 = v_add add (Some z) 0xf 0xf v1 (row_shr 1 v0) v0;
          v1 = v_add add (Some z) 0xf 0xf v1 (row_shr 2 v0) v1;
          v1 = v_add add (Some z) 0xf 0xf v1 (row_shr 3 v0) v1;
          v1 = v_add add None 0xf 0xe v1 (row_shr 4 v1) v1;
          v1 = v_add add None 0xf 0xc v1 (row_shr 8 v1) v1;
          v1 = v_add add None 0xa 0xf v1 (row_bcast15 v1) v1;
          v1 = v_add add None 0xc 0xf v1 (row_bcast31 v1) v1 in v1)"

definition pre :: "nat lanes \<Rightarrow> nat \<Rightarrow> nat lanes" where
  "pre a n l = sum a {max (l div 16 * 16) (Suc l - n)..l}"

lemma sum_split:
  "m \<le> Suc k \<Longrightarrow> k \<le> l \<Longrightarrow> sum a {m..l} = sum a {m..k} + sum a {Suc k..l}" for a :: "nat \<Rightarrow> nat"
  using sum.ub_add_nat [of m k a "l - k"] by simp

lemma row_start: "l div 16 * 16 + l mod 16 = (l :: nat)" "l div 16 * 16 \<le> (l :: nat)"
  by simp_all

lemma pre_grow: "0 < n \<Longrightarrow> pre a (Suc n) l = (if n \<le> l mod 16 then a (l - n) else 0) + pre a n l"
proof (cases "n \<le> l mod 16")
  case True
  assume "0 < n"
  have le: "l div 16 * 16 \<le> l - n" using True row_start(1) [of l] by linarith
  have "n \<le> l" using True row_start(1) [of l] by linarith
  then have "max (l div 16 * 16) (Suc l - Suc n) = l - n" "max (l div 16 * 16) (Suc l - n) = Suc (l - n)"
    using le by (auto simp: max_def)
  then show ?thesis using True by (simp add: pre_def sum.atLeast_Suc_atMost)
next
  case False
  have "Suc l - n \<le> l div 16 * 16" using False row_start(1) [of l] by linarith
  moreover have "Suc l - Suc n \<le> l div 16 * 16" using calculation by simp
  ultimately show ?thesis using False by (simp add: pre_def max_absorb1)
qed

lemma pre_double: "0 < n \<Longrightarrow> pre a (n + n) l = (if n \<le> l mod 16 then pre a n (l - n) else 0) + pre a n l"
proof (cases "n \<le> l mod 16")
  case True
  assume "0 < n"
  have le: "l div 16 * 16 \<le> l - n" "n \<le> l" using True row_start(1) [of l] by linarith+
  have "l - n < l div 16 * 16 + 16" using row_start(1) [of l] mod_less_divisor [of 16 l] by linarith
  then have row: "(l - n) div 16 = l div 16"
    using le(1) by (intro div_nat_eqI) simp_all
  have lo: "max (l div 16 * 16) (Suc l - n) = Suc (l - n)" using le by (simp add: max_def Suc_diff_le)
  have lo2: "Suc (l - n) - n = Suc l - (n + n)" using le(2) by simp
  have "sum a {max (l div 16 * 16) (Suc l - (n + n))..l - n} + sum a {Suc (l - n)..l}
      = sum a {max (l div 16 * 16) (Suc l - (n + n))..l}"
    using le \<open>0 < n\<close> by (intro sum_split [symmetric]) simp_all
  then show ?thesis using True by (simp add: pre_def row lo lo2)
next
  case False
  have "Suc l - n \<le> l div 16 * 16" using False row_start(1) [of l] by linarith
  moreover have "Suc l - (n + n) \<le> l div 16 * 16" using calculation by simp
  ultimately show ?thesis using False by (simp add: pre_def max_absorb1)
qed

text \<open>The prefix sum of a row.\<close>

lemma odd_masks:
  fixes i :: nat
  assumes "i < 4"
  shows "odd (0xf div 2 ^ i :: nat)" and "odd (0xe div 2 ^ i :: nat) \<longleftrightarrow> 1 \<le> i"
    and "odd (0xc div 2 ^ i :: nat) \<longleftrightarrow> 2 \<le> i" and "odd (0xa div 2 ^ i :: nat) \<longleftrightarrow> i = 1 \<or> i = 3"
proof -
  have "i = 0 \<or> i = 1 \<or> i = 2 \<or> i = 3" using assms by linarith
  then show "odd (0xf div 2 ^ i :: nat)" and "odd (0xe div 2 ^ i :: nat) \<longleftrightarrow> 1 \<le> i"
    and "odd (0xc div 2 ^ i :: nat) \<longleftrightarrow> 2 \<le> i" and "odd (0xa div 2 ^ i :: nat) \<longleftrightarrow> i = 1 \<or> i = 3"
    by (elim disjE; simp)+
qed

lemma lane_fields: "l < 64 \<Longrightarrow> l div 16 < 4" "l mod 16 div 4 < 4" for l :: nat
  by (simp_all add: less_mult_imp_div_less)

lemma prefix_sum:
  fixes a :: "nat lanes"
  assumes "l < 64"
  shows "dpp_lanes (+) 0 a v1 l = sum a {0..l}"
proof -
  define s1 where "s1 = v_add (+) (Some 0) 0xf 0xf v1 (row_shr 1 a) a"
  define s2 where "s2 = v_add (+) (Some 0) 0xf 0xf s1 (row_shr 2 a) s1"
  define s3 where "s3 = v_add (+) (Some 0) 0xf 0xf s2 (row_shr 3 a) s2"
  define s4 where "s4 = v_add (+) None 0xf 0xe s3 (row_shr 4 s3) s3"
  define s5 where "s5 = v_add (+) None 0xf 0xc s4 (row_shr 8 s4) s4"
  define s6 where "s6 = v_add (+) None 0xa 0xf s5 (row_bcast15 s5) s5"
  have pre1: "pre a 1 l = a l" for l
  proof -
    have "max (l div 16 * 16) l = l" using row_start(2) [of l] by (rule max_absorb2)
    then show ?thesis by (simp add: pre_def)
  qed
  have Suc123: "Suc 1 = 2" "Suc 2 = 3" "Suc 3 = 4" by simp_all
  have grow: "pre a 2 l = (if 1 \<le> l mod 16 then a (l - 1) else 0) + pre a 1 l"
    "pre a 3 l = (if 2 \<le> l mod 16 then a (l - 2) else 0) + pre a 2 l"
    "pre a 4 l = (if 3 \<le> l mod 16 then a (l - 3) else 0) + pre a 3 l" for l
    by (rule pre_grow [of 1 a l, unfolded Suc123], simp, rule pre_grow [of 2 a l, unfolded Suc123], simp,
        rule pre_grow [of 3 a l, unfolded Suc123], simp)
  have double: "pre a 8 l = (if 4 \<le> l mod 16 then pre a 4 (l - 4) else 0) + pre a 4 l"
    "pre a 16 l = (if 8 \<le> l mod 16 then pre a 8 (l - 8) else 0) + pre a 8 l" for l
    using pre_double [of 4 a l] pre_double [of 8 a l] by simp_all
  have s1: "s1 l = pre a 2 l" if "l < 64" for l
    using that lane_fields [of l] by (simp add: s1_def v_add_def row_shr_def odd_masks grow(1) pre1 [unfolded One_nat_def])
  have s2: "s2 l = pre a 3 l" if "l < 64" for l
    using that lane_fields [of l] by (simp add: s2_def v_add_def row_shr_def odd_masks s1 grow(2))
  have s3: "s3 l = pre a 4 l" if "l < 64" for l
    using that lane_fields [of l] by (simp add: s3_def v_add_def row_shr_def odd_masks s2 grow(3))
  have s4: "s4 l = pre a 8 l" if "l < 64" for l
  proof -
    have "1 \<le> l mod 16 div 4 \<longleftrightarrow> 4 \<le> l mod 16" by (simp add: Suc_le_eq div_greater_zero_iff)
    then show ?thesis
      using that lane_fields [of l]
      by (simp add: double(1) s4_def v_add_def row_shr_def odd_masks s3)
  qed
  have s5: "s5 l = pre a 16 l" if "l < 64" for l
  proof -
    have "2 \<le> l mod 16 div 4 \<longleftrightarrow> 8 \<le> l mod 16" by (simp add: less_eq_div_iff_mult_less_eq)
    then show ?thesis
      using that lane_fields [of l]
      by (simp add: double(2) s5_def v_add_def row_shr_def odd_masks s4)
  qed
  have row_sum: "pre a 16 l = sum a {l div 16 * 16..l}" for l
  proof -
    have "Suc l - 16 \<le> l div 16 * 16" using row_start(1) [of l] mod_less_divisor [of 16 l] by linarith
    then show ?thesis by (simp add: pre_def max_absorb1)
  qed
  have s6: "s6 l = (if l div 16 = 1 \<or> l div 16 = 3 then pre a 16 (l div 16 * 16 - 1) else 0) + pre a 16 l" if "l < 64" for l
  proof -
    have "16 \<le> l" if "l div 16 \<noteq> 0" using that by (simp add: div_eq_0_iff)
    then show ?thesis
      using that lane_fields [of l] s5 [of "l div 16 * 16 - 1"] row_start(2) [of l]
      by (auto simp: s6_def v_add_def row_bcast15_def odd_masks s5)
  qed
  have s6_31: "s6 31 = sum a {0..31}"
    using sum_split [of 0 15 31 a] by (simp add: s6 row_sum)
  have s7: "v_add (+) None 0xc 0xf s6 (row_bcast31 s6) s6 l = (if 2 \<le> l div 16 then s6 31 else 0) + s6 l"
    using assms lane_fields [of l] by (auto simp: v_add_def row_bcast31_def odd_masks)
  consider "l div 16 = 0" | "l div 16 = 1" | "l div 16 = 2" | "l div 16 = 3"
    using lane_fields(1) [OF assms] by linarith
  then have "v_add (+) None 0xc 0xf s6 (row_bcast31 s6) s6 l = sum a {0..l}"
  proof cases
    case 1
    then show ?thesis using assms by (simp add: s7 s6 row_sum)
  next
    case 2
    then have "15 \<le> l" using row_start(2) [of l] by simp
    then show ?thesis using 2 assms sum_split [of 0 15 l a] by (simp add: s7 s6 row_sum)
  next
    case 3
    then have "31 \<le> l" using row_start(2) [of l] by simp
    then show ?thesis using 3 assms sum_split [of 0 31 l a] by (simp add: s7 s6_31) (simp add: s6 row_sum)
  next
    case 4
    then have "47 \<le> l" using row_start(2) [of l] by simp
    then show ?thesis using 4 assms sum_split [of 0 31 l a] sum_split [of 32 47 l a]
      by (simp add: s7 s6_31) (simp add: s6 row_sum)
  qed
  then show ?thesis
    by (simp add: dpp_lanes_def Let_def s1_def s2_def s3_def s4_def s5_def s6_def)
qed
section \<open>The kernel on floats\<close>

text \<open>Lanes that hold small natural numbers, exactly.\<close>

definition holds :: "nat \<Rightarrow> f32 lanes \<Rightarrow> nat lanes \<Rightarrow> bool" where
  "holds B x a \<longleftrightarrow> (\<forall>l<64. x l = f32_of_nat (a l) \<and> a l \<le> B)"

lemma holds_mono: "holds B x a \<Longrightarrow> B \<le> C \<Longrightarrow> holds C x a"
  by (auto simp: holds_def)

definition operand :: "nat \<Rightarrow> f32 option \<Rightarrow> nat option \<Rightarrow> bool" where
  "operand B v n \<longleftrightarrow> rel_option (\<lambda>v n. v = f32_of_nat n \<and> n \<le> B) v n"

lemma operand_simps [simp]:
  "operand B None None" "operand B (Some v) (Some n) \<longleftrightarrow> v = f32_of_nat n \<and> n \<le> B"
  "\<not> operand B None (Some n)" "\<not> operand B (Some v) None"
  by (simp_all add: operand_def)

lemma operands:
  assumes "holds B x a" and "l < 64"
  shows "operand B (row_shr k x l) (row_shr k a l)"
    and "operand B (row_bcast15 x l) (row_bcast15 a l)"
    and "operand B (row_bcast31 x l) (row_bcast31 a l)"
proof -
  have "l div 16 * 16 - 1 < 64" using assms(2) row_start(2) [of l] by linarith
  then show "operand B (row_shr k x l) (row_shr k a l)"
    and "operand B (row_bcast15 x l) (row_bcast15 a l)"
    and "operand B (row_bcast31 x l) (row_bcast31 a l)"
    using assms by (simp_all add: holds_def row_shr_def row_bcast15_def row_bcast31_def)
qed

lemma holds_v_add:
  assumes src1: "holds B y b" and B: "B < 2 ^ 23"
    and src0: "\<And>l. l < 64 \<Longrightarrow> operand B (src0 l) (src0' l)"
    and dst: "bound = True \<and> rm = 0xf \<and> bm = 0xf \<or> holds B dst dst'"
  shows "holds (2 * B) (v_add f32_add (if bound then Some 0 else None) rm bm dst src0 y)
    (v_add (+) (if bound then Some 0 else None) rm bm dst' src0' b)"
  unfolding holds_def
proof (intro allI impI)
  fix l :: nat assume l: "l < 64"
  have b: "y l = f32_of_nat (b l)" "b l \<le> B" using src1 l by (simp_all add: holds_def)
  have add: "f32_add (f32_of_nat n) (f32_of_nat (b l)) = f32_of_nat (n + b l)" if "n \<le> B" for n
    using that b B by (intro f32_add_of_nat) simp_all
  have add0: "f32_add 0 (f32_of_nat (b l)) = f32_of_nat (b l)" using add [of 0] by simp
  show "v_add f32_add (if bound then Some 0 else None) rm bm dst src0 y l =
      f32_of_nat (v_add (+) (if bound then Some 0 else None) rm bm dst' src0' b l) \<and>
    v_add (+) (if bound then Some 0 else None) rm bm dst' src0' b l \<le> 2 * B"
    using src0 [OF l] dst b l lane_fields(1) [OF l] lane_fields(2) [of l] add add0
    by (cases "src0 l"; cases "src0' l") (auto simp: v_add_def holds_def odd_masks)
qed

lemmas holds_step = holds_v_add [where bound = True, simplified] holds_v_add [where bound = False, simplified]

text \<open>The sums of 64 numbers below \<open>2 ^ 17\<close> are exact.\<close>

lemma dpp_lanes_f32:
  assumes "holds B v0 a" and "B < 2 ^ 17" and "l < 64"
  shows "dpp_lanes f32_add 0 v0 v1 l = f32_of_nat (sum a {0..l})"
proof -
  let ?f = "v_add f32_add" and ?n = "v_add (+)"
  let ?x1 = "?f (Some 0) 0xf 0xf v1 (row_shr 1 v0) v0" and ?a1 = "?n (Some 0) 0xf 0xf a (row_shr 1 a) a"
  let ?x2 = "?f (Some 0) 0xf 0xf ?x1 (row_shr 2 v0) ?x1" and ?a2 = "?n (Some 0) 0xf 0xf ?a1 (row_shr 2 a) ?a1"
  let ?x3 = "?f (Some 0) 0xf 0xf ?x2 (row_shr 3 v0) ?x2" and ?a3 = "?n (Some 0) 0xf 0xf ?a2 (row_shr 3 a) ?a2"
  let ?x4 = "?f None 0xf 0xe ?x3 (row_shr 4 ?x3) ?x3" and ?a4 = "?n None 0xf 0xe ?a3 (row_shr 4 ?a3) ?a3"
  let ?x5 = "?f None 0xf 0xc ?x4 (row_shr 8 ?x4) ?x4" and ?a5 = "?n None 0xf 0xc ?a4 (row_shr 8 ?a4) ?a4"
  let ?x6 = "?f None 0xa 0xf ?x5 (row_bcast15 ?x5) ?x5" and ?a6 = "?n None 0xa 0xf ?a5 (row_bcast15 ?a5) ?a5"
  let ?x7 = "?f None 0xc 0xf ?x6 (row_bcast31 ?x6) ?x6" and ?a7 = "?n None 0xc 0xf ?a6 (row_bcast31 ?a6) ?a6"
  note b = assms(2)
  have h1: "holds (2 * B) ?x1 ?a1"
    using holds_step(1) [OF assms(1) _ operands(1) [OF assms(1)]] b by simp
  have h2: "holds (4 * B) ?x2 ?a2"
    using holds_step(1) [OF h1 _ operands(1) [OF holds_mono [OF assms(1)]]] b by simp
  have h3: "holds (8 * B) ?x3 ?a3"
    using holds_step(1) [OF h2 _ operands(1) [OF holds_mono [OF assms(1)]]] b by simp
  have h4: "holds (16 * B) ?x4 ?a4"
    using holds_step(2) [OF h3 _ operands(1) [OF h3] h3] b by simp
  have h5: "holds (32 * B) ?x5 ?a5"
    using holds_step(2) [OF h4 _ operands(1) [OF h4] h4] b by simp
  have h6: "holds (64 * B) ?x6 ?a6"
    using holds_step(2) [OF h5 _ operands(2) [OF h5] h5] b by simp
  have h7: "holds (128 * B) ?x7 ?a7"
    using holds_step(2) [OF h6 _ operands(3) [OF h6] h6] b by simp
  from h7 have "holds (128 * B) (dpp_lanes f32_add 0 v0 v1) (dpp_lanes (+) 0 a a)"
    by (simp only: dpp_lanes_def Let_def)
  then show ?thesis using assms(3) prefix_sum [of l a a] by (auto simp: holds_def)
qed

text \<open>
  The prefix sum by data parallel primitives: whatever \<open>v1\<close> held, the seven additions of
  dpp_reduce.s leave in each of the 64 lanes the sum of the inputs of all lanes up to it.
\<close>

theorem dpp_reduce_prefix_sum:
  fixes v0 v1 :: "nat lanes"
  assumes "l < 64"
  shows "dpp_lanes (+) 0 v0 v1 l = (\<Sum>k\<le>l. v0 k)"
  using prefix_sum [OF assms] by (simp add: atMost_atLeast0)

theorem dpp_reduce_prefix_sum_witness: "dpp_lanes (+) 0 (\<lambda>i. 3) (\<lambda>i. 7) 63 = (192 :: nat)"
  using dpp_reduce_prefix_sum [of 63 "\<lambda>i. 3" "\<lambda>i. 7"] by simp

text \<open>
  The kernel on the memory: lane \<open>i\<close> loads element \<open>i\<close> of the first argument, and stores its sum as
  element \<open>i\<close> of the second. \<open>v1\<close> holds the low half of the address of the load.
\<close>

definition dpp_reduce_kernel :: "packet \<Rightarrow> memory \<Rightarrow> memory" where
  "dpp_reduce_kernel p m =
     (let arg = \<lambda>k. dec_u64 (load_bytes (kernarg_address p + of_nat (8 * k)) 8 m);
          v1 = \<lambda>i. ucast (elem_addr 4 (arg 0) i);
          v0 = \<lambda>i. dec_u32 (load_bytes (elem_addr 4 (arg 0) i) 4 m) in
      fill 4 enc_u32 (arg 1) (dpp_lanes f32_add 0 v0 v1) 64 m)"

lemma sum_upto: "sum (\<lambda>k. k) {0..l} = tri l"
  by (induction l) (simp_all add: tri_Suc)

lemma tri_small: "l < 64 \<Longrightarrow> tri l < 2 ^ 24"
  using tri_mono [of l 64] by (simp add: tri_def)

lemma DppReduce_kernel_accepted:
  assumes copy: "copies_faithfully H" and staged: "DppReduce_staged ib ob s"
    and ptr: "kernarg_address p = kernarg_address (ring s (aql s))"
    and ran: "mem s' = dpp_reduce_kernel p (mem s)" and out: "dpp_out s' = Some ob" and len: "dpp_length s' = 64"
    and from_: "CopyFrom H (Some ob) s' = (Inr True, u)"
  shows "\<exists>t. DppReduce_Verify H s' = (Inr True, t) \<and> out_stream t = out_stream u"
proof -
  have st: "buf_size ib = 256" "buf_size ob = 256" "arguments (kernarg_address p) [ib, ob] (mem s)"
    "\<And>i. i < 64 \<Longrightarrow> element 4 dec_u32 (device_view ib (mem s)) i = f32_of_nat i"
    using staged by (simp_all add: DppReduce_staged_def ptr)
  have args: "dec_u64 (load_bytes (kernarg_address p + of_nat (8 * k)) 8 (mem s)) = local_ptr ([ib, ob] ! k)" if "k < 2" for k
    using st(3) that by (simp add: arguments_def)
  define v0 where "v0 = (\<lambda>i. dec_u32 (load_bytes (elem_addr 4 (local_ptr ib) i) 4 (mem s)))"
  have "holds 63 v0 (\<lambda>i. i)"
    using st element_device_view [of 4 _ ib dec_u32 "mem s"] by (simp add: holds_def v0_def)
  then have sums: "dpp_lanes f32_add 0 v0 v1 i = f32_of_nat (tri i)" if "i < 64" for v1 i
    using dpp_lanes_f32 [of 63] that by (simp add: sum_upto)
  obtain v1 where "mem s' = fill 4 enc_u32 (local_ptr ob) (dpp_lanes f32_add 0 v0 v1) 64 (mem s)"
    unfolding ran dpp_reduce_kernel_def Let_def using args [of 0] args [of 1] by (simp add: v0_def)
  then have "dec_u32 (load_bytes (elem_addr 4 (local_ptr ob) i) 4 (mem s')) = f32_of_nat (tri i)" if "i < 64" for i
    using that u32_codec.load_fill [of i 64 "local_ptr ob"] by (simp add: fill_def sums del: upt_rec_numeral)
  then have good: "f32_eq (f32_of_nat (tri i)) (DppReduce_got ob (mem s') i)" if "i < 64" for i
    using that st(2) element_device_view [of 4 i ob dec_u32 "mem s'"] f32_eq_of_nat_refl [OF tri_small]
    by (simp add: DppReduce_got_def)
  then have "reports (\<lambda>i. f32_eq (f32_of_nat (tri i)) (DppReduce_got ob (mem s') i)) rep 64 = []" for rep
    by (auto simp: reports_def simp del: upt_rec_numeral)
  then show ?thesis
    using DppReduce_Verify_run [OF copy out st(2) len from_] good by simp
qed

section \<open>The claims about the class\<close>

text \<open>
  \<open>DppReduce::Setup\<close>: when it returns true, one group of 64 work-items is launched on an argument
  segment with the device addresses of \<open>in\<close> and \<open>out\<close> at offsets 0 and 8, and the device
  sees the floats 0 to 63 in \<open>in\<close>.
\<close>

theorem DppReduce_Setup_prepares:
  assumes "copies_faithfully H" and "dpp_length s = 64" and "DppReduce_Setup H s = (Inr True, t)"
    and "\<And>b. dpp_in t = Some b \<Longrightarrow> device_apart b (kernarg t) 16"
  shows "\<exists>ib ob. DppReduce_staged ib ob t"
  by (rule DppReduce_Setup_staged [OF assms])

text \<open>
  \<open>DppReduce::Verify\<close> accepts exactly the prefix sums: it returns true if and only if every element
  \<open>i\<close> the device wrote equals the float \<open>i*(i+1)/2\<close>, the accumulated sum being
  exact, and reports every other element in order.
\<close>

theorem DppReduce_Verify_decides:
  assumes "copies_faithfully H" and "dpp_out s = Some ob" and "buf_size ob = 256" and "dpp_length s = 64"
    and "CopyFrom H (Some ob) s = (Inr True, u)"
  shows "DppReduce_Verify H s =
    (Inr (\<forall>i<64. f32_eq (f32_of_nat (i * (i + 1) div 2)) (element 4 dec_u32 (device_view ob (mem s)) i)),
     u\<lparr>out_stream := out_stream u @ concat (map (\<lambda>i.
       let x = element 4 dec_u32 (device_view ob (mem s)) i; e = f32_of_nat (i * (i + 1) div 2) in
       if f32_eq e x then [] else mismatch i (Float x) (Float e)) [0..<64])\<rparr>)"
  using DppReduce_Verify_run [OF assms] by (simp only: reports_def DppReduce_got_def tri_def Let_def)

text \<open>
  C6. The example is right: on what \<open>Setup\<close> staged, the kernel of dpp_reduce.s computes a result that
  \<open>Verify\<close> accepts without a report.
\<close>

theorem DppReduce_correct:
  assumes "copies_faithfully H" and "DppReduce_staged ib ob s"
    and "kernarg_address p = kernarg_address (ring s (aql s))"
    and "mem s' = dpp_reduce_kernel p (mem s)" and "dpp_out s' = Some ob" and "dpp_length s' = 64"
    and "CopyFrom H (Some ob) s' = (Inr True, u)"
  shows "\<exists>t. DppReduce_Verify H s' = (Inr True, t) \<and> out_stream t = out_stream u"
  by (rule DppReduce_kernel_accepted [OF assms])

section \<open>On the reference runtime\<close>

definition ref_dpp_members where
  "ref_dpp_members = DppReduce.fields None None 64"

definition ref_dpp_staged :: "u32 \<Rightarrow> event list \<Rightarrow> memory \<Rightarrow> ref_rt DppReduce" where
  "ref_dpp_staged d es m = (ref_ready d ref_dpp_members)\<lparr>rt := ref_start\<lparr>next_block := 0x7000, write_index := 1\<rparr>,
     mem := m, ring := (\<lambda>_. ref_packet)(0 := ref_launch 64 64), events := es, kernarg := 0x2000, kernarg_offset := 16,
     dpp_in := Some (Buffer 256 0x4000 0x3000), dpp_out := Some (Buffer 256 0x6000 0x5000)\<rparr>"

lemma ref_dpp_setup:
  "\<exists>es m. DppReduce_Setup (ref_hsa k) (ref_ready d ref_dpp_members) = (Inr True, ref_dpp_staged d es m)"
  by (simp add: DppReduce_Setup_def ref_setup ref_dpp_members_def ref_dpp_staged_def DppReduce.defs
      del: upt_rec_numeral cong: if_cong)

lemma ref_dpp_fields:
  "dpp_in (ref_dpp_staged d es m) = Some (Buffer 256 0x4000 0x3000)"
  "dpp_out (ref_dpp_staged d es m) = Some (Buffer 256 0x6000 0x5000)"
  "kernarg (ref_dpp_staged d es m) = 0x2000" "mem (ref_dpp_staged d es m) = m"
  "ring (ref_dpp_staged d es m) (aql (ref_dpp_staged d es m)) = ref_launch 64 64"
  "dpp_length (ref_dpp_staged d es m) = 64" "dpp_length (ref_ready d ref_dpp_members) = 64"
  by (simp_all add: ref_dpp_staged_def ref_ready_def ref_object_def Dispatch_Dispatch_def ref_storage_def
      ref_dpp_members_def DppReduce.defs)

lemma ref_dpp_separate:
  "dpp_in (ref_dpp_staged d es m) = Some b \<Longrightarrow> device_apart b (kernarg (ref_dpp_staged d es m)) 16"
  by (auto simp: ref_dpp_fields Buffer_def device_apart_def apart_below)

theorem DppReduce_Setup_prepares_witness:
  "\<exists>t ib ob. DppReduce_Setup (ref_hsa (\<lambda>p m. m)) (ref_ready 0 ref_dpp_members) = (Inr True, t) \<and>
    DppReduce_staged ib ob t"
proof -
  obtain es m where "DppReduce_Setup (ref_hsa (\<lambda>p m. m)) (ref_ready 0 ref_dpp_members) = (Inr True, ref_dpp_staged 0 es m)"
    using ref_dpp_setup by blast
  then show ?thesis using DppReduce_Setup_prepares [OF ref_copies ref_dpp_fields(7) _ ref_dpp_separate] by blast
qed

theorem DppReduce_Verify_decides_witness:
  "\<exists>t. DppReduce_Verify (ref_hsa (\<lambda>p m. m)) (ref_dpp_staged 0 [] (\<lambda>_. 0)) = (Inr False, t)"
proof -
  let ?H = "ref_hsa (\<lambda>p m. m)" and ?b = "Buffer 256 0x6000 0x5000" and ?s = "ref_dpp_staged 0 [] (\<lambda>_. 0)"
  obtain u where copied: "CopyFrom ?H (Some ?b) ?s = (Inr True, u)" using ref_copy_back by blast
  have sz: "buf_size ?b = 256" by (simp add: Buffer_def)
  have "element 4 dec_u32 (device_view ?b (mem ?s)) 1 = 0"
    by (simp add: element_device_view Buffer_def load_bytes_def dec_u32_def upt_rec ref_dpp_fields)
  moreover have "f32_units (f32_of_nat 1) \<noteq> 0" using f32_of_nat_fields(1) [of 1] by simp
  then have "f32_mag (f32_of_nat 1) \<noteq> 0" by (rule contrapos_nn) (simp add: f32_units_def mag_units_def)
  then have "\<not> f32_eq (f32_of_nat (1 * (1 + 1) div 2)) 0" by (simp add: f32_eq_0_iff)
  ultimately have "\<not> (\<forall>i<64. f32_eq (f32_of_nat (i * (i + 1) div 2)) (element 4 dec_u32 (device_view ?b (mem ?s)) i))"
    by (intro notI) (drule spec [of _ 1], simp)
  then show ?thesis
    using DppReduce_Verify_decides [OF ref_copies ref_dpp_fields(2) sz ref_dpp_fields(6) copied]
    by (simp only: simp_thms) blast
qed

theorem DppReduce_correct_witness:
  "\<exists>es m t. DppReduce_Verify (ref_hsa (\<lambda>p m. m)) ((ref_dpp_staged 0 es m)\<lparr>mem :=
      dpp_reduce_kernel (ref_launch 64 64) m\<rparr>) = (Inr True, t)"
proof -
  let ?H = "ref_hsa (\<lambda>p m. m)" and ?b = "Buffer 256 0x6000 0x5000"
  obtain es m where run: "DppReduce_Setup ?H (ref_ready 0 ref_dpp_members) = (Inr True, ref_dpp_staged 0 es m)"
    using ref_dpp_setup by blast
  let ?s = "ref_dpp_staged 0 es m" and ?t = "(ref_dpp_staged 0 es m)\<lparr>mem := dpp_reduce_kernel (ref_launch 64 64) m\<rparr>"
  obtain ib ob where st: "DppReduce_staged ib ob ?s"
    using DppReduce_Setup_staged [OF ref_copies ref_dpp_fields(7) run ref_dpp_separate] by blast
  then have ob: "ob = ?b" by (simp add: DppReduce_staged_def ref_dpp_fields)
  obtain u where copied: "CopyFrom ?H (Some ?b) ?t = (Inr True, u)" using ref_copy_back by blast
  have "kernarg_address (ref_launch 64 64) = kernarg_address (ring ?s (aql ?s))"
    and "mem ?t = dpp_reduce_kernel (ref_launch 64 64) (mem ?s)" and "dpp_out ?t = Some ?b" and "dpp_length ?t = 64"
    using ref_dpp_fields by simp_all
  then show ?thesis
    using DppReduce_correct [OF ref_copies st [unfolded ob] _ _ _ _ copied] by blast
qed

end
