(* ===== verification/Fp16.thy ===== *)
theory Fp16
  imports Reference_Run Half
begin

text \<open>
  examples/gfx8/fp16_native.cpp and fp16_storage.cpp: each has its own class \<open>HalfVectorAdd\<close>, and the two turn
  out to differ in the name of the code object only. The host adds in single precision what the device adds in
  half precision, and the two must agree.
\<close>

section \<open>The class\<close>

record 'r HalfVectorAdd = "'r Dispatch" +
  hva_in1 :: "buffer option"
  hva_in2 :: "buffer option"
  hva_out :: "buffer option"
  hva_length :: u32

definition HalfVectorAdd :: "'r HalfVectorAdd \<Rightarrow> 'r HalfVectorAdd" where
  "HalfVectorAdd storage = (Dispatch_Dispatch storage)\<lparr>hva_length := 64\<rparr>"

definition fp16_native_SetupCodeObject :: "'r hsa \<Rightarrow> ('r HalfVectorAdd, bool) prog" where
  "fp16_native_SetupCodeObject H = LoadCodeObjectFromFile H ''fp16_native.co''"

definition HalfVectorAdd_Setup :: "'r hsa \<Rightarrow> ('r HalfVectorAdd, bool) prog" where
  "HalfVectorAdd_Setup H =
     bind (AllocateKernarg H (3 * 8)) (\<lambda>ok.
     if \<not> ok then ret False else
     bind (gets hva_length) (\<lambda>len.
     bind (AllocateBuffer H (ucast len * 4 div 2) True) (\<lambda>b1.
     bind (modify (\<lambda>s. s\<lparr>hva_in1 := b1\<rparr>)) (\<lambda>_.
     bind (AllocateBuffer H (ucast len * 4 div 2) True) (\<lambda>b2.
     bind (modify (\<lambda>s. s\<lparr>hva_in2 := b2\<rparr>)) (\<lambda>_.
     bind (for_each [0..<unat len] (\<lambda>i.
       bind (write_data 2 enc_u16 b1 i (f2h (f32_of_nat i))) (\<lambda>_.
       write_data 2 enc_u16 b2 i (f2h (f32_mul (f32_of_nat i) 0x3fa00000))))) (\<lambda>_.
     bind (CopyTo H b1) (\<lambda>ok.
     if \<not> ok then fail_with ''Error: failed to copy to local'' else
     bind (CopyTo H b2) (\<lambda>ok.
     if \<not> ok then fail_with ''Error: failed to copy to local'' else
     bind (AllocateBuffer H (ucast len * 4 div 2) True) (\<lambda>ob.
     bind (modify (\<lambda>s. s\<lparr>hva_out := ob\<rparr>)) (\<lambda>_.
     bind (Kernarg b1) (\<lambda>_.
     bind (Kernarg b2) (\<lambda>_.
     bind (Kernarg ob) (\<lambda>_.
     bind (SetGridSize 64 1 1) (\<lambda>_.
     bind (SetWorkgroupSize 64 1 1) (\<lambda>_.
     ret True))))))))))))))))"

definition HalfVectorAdd_Verify :: "'r hsa \<Rightarrow> ('r HalfVectorAdd, bool) prog" where
  "HalfVectorAdd_Verify H =
     bind (gets hva_out) (\<lambda>ob.
     bind (CopyFrom H ob) (\<lambda>copied.
     if \<not> copied then fail_with ''Error: failed to copy from local'' else
     bind (gets hva_length) (\<lambda>len.
     bind (gets hva_in1) (\<lambda>b1.
     bind (gets hva_in2) (\<lambda>b2.
     for_fold [0..<unat len] (\<lambda>i ok.
       bind (read_data 2 dec_u16 b1 i) (\<lambda>x1. let f1 = h2f x1 in
       bind (read_data 2 dec_u16 b2 i) (\<lambda>x2. let f2 = h2f x2 in
       bind (read_data 2 dec_u16 ob i) (\<lambda>x. let res = h2f x;
         expected = h2f (f2h (f32_add f1 f2)) in
       if \<not> f32_eq expected res
       then bind (put (mismatch i (Float res) (Float expected))) (\<lambda>_. ret False)
       else ret ok)))) True)))))"

definition fp16_native_main :: "'r hsa \<Rightarrow> 'r HalfVectorAdd \<Rightarrow> (fault + int) \<times> 'r HalfVectorAdd" where
  "fp16_native_main H storage =
     RunMain H (SetupExecutable H (fp16_native_SetupCodeObject H)) (HalfVectorAdd_Setup H) (HalfVectorAdd_Verify H)
       (HalfVectorAdd storage)"

text \<open>The class of fp16_storage.cpp, with the same members.\<close>

definition fp16_storage_HalfVectorAdd :: "'r HalfVectorAdd \<Rightarrow> 'r HalfVectorAdd" where
  "fp16_storage_HalfVectorAdd storage = (Dispatch_Dispatch storage)\<lparr>hva_length := 64\<rparr>"

definition fp16_storage_SetupCodeObject :: "'r hsa \<Rightarrow> ('r HalfVectorAdd, bool) prog" where
  "fp16_storage_SetupCodeObject H = LoadCodeObjectFromFile H ''fp16_storage.co''"

definition fp16_storage_Setup :: "'r hsa \<Rightarrow> ('r HalfVectorAdd, bool) prog" where
  "fp16_storage_Setup H =
     bind (AllocateKernarg H (3 * 8)) (\<lambda>ok.
     if \<not> ok then ret False else
     bind (gets hva_length) (\<lambda>len.
     bind (AllocateBuffer H (ucast len * 4 div 2) True) (\<lambda>b1.
     bind (modify (\<lambda>s. s\<lparr>hva_in1 := b1\<rparr>)) (\<lambda>_.
     bind (AllocateBuffer H (ucast len * 4 div 2) True) (\<lambda>b2.
     bind (modify (\<lambda>s. s\<lparr>hva_in2 := b2\<rparr>)) (\<lambda>_.
     bind (for_each [0..<unat len] (\<lambda>i.
       bind (write_data 2 enc_u16 b1 i (f2h (f32_of_nat i))) (\<lambda>_.
       write_data 2 enc_u16 b2 i (f2h (f32_mul (f32_of_nat i) 0x3fa00000))))) (\<lambda>_.
     bind (CopyTo H b1) (\<lambda>ok.
     if \<not> ok then fail_with ''Error: failed to copy to local'' else
     bind (CopyTo H b2) (\<lambda>ok.
     if \<not> ok then fail_with ''Error: failed to copy to local'' else
     bind (AllocateBuffer H (ucast len * 4 div 2) True) (\<lambda>ob.
     bind (modify (\<lambda>s. s\<lparr>hva_out := ob\<rparr>)) (\<lambda>_.
     bind (Kernarg b1) (\<lambda>_.
     bind (Kernarg b2) (\<lambda>_.
     bind (Kernarg ob) (\<lambda>_.
     bind (SetGridSize 64 1 1) (\<lambda>_.
     bind (SetWorkgroupSize 64 1 1) (\<lambda>_.
     ret True))))))))))))))))"

definition fp16_storage_Verify :: "'r hsa \<Rightarrow> ('r HalfVectorAdd, bool) prog" where
  "fp16_storage_Verify H =
     bind (gets hva_out) (\<lambda>ob.
     bind (CopyFrom H ob) (\<lambda>copied.
     if \<not> copied then fail_with ''Error: failed to copy from local'' else
     bind (gets hva_length) (\<lambda>len.
     bind (gets hva_in1) (\<lambda>b1.
     bind (gets hva_in2) (\<lambda>b2.
     for_fold [0..<unat len] (\<lambda>i ok.
       bind (read_data 2 dec_u16 b1 i) (\<lambda>x1. let f1 = h2f x1 in
       bind (read_data 2 dec_u16 b2 i) (\<lambda>x2. let f2 = h2f x2 in
       bind (read_data 2 dec_u16 ob i) (\<lambda>x. let res = h2f x;
         expected = h2f (f2h (f32_add f1 f2)) in
       if \<not> f32_eq expected res
       then bind (put (mismatch i (Float res) (Float expected))) (\<lambda>_. ret False)
       else ret ok)))) True)))))"

definition fp16_storage_main :: "'r hsa \<Rightarrow> 'r HalfVectorAdd \<Rightarrow> (fault + int) \<times> 'r HalfVectorAdd" where
  "fp16_storage_main H storage =
     RunMain H (SetupExecutable H (fp16_storage_SetupCodeObject H)) (fp16_storage_Setup H) (fp16_storage_Verify H)
       (fp16_storage_HalfVectorAdd storage)"

text \<open>The copies agree, so what is proved of one class holds of the other.\<close>

lemma fp16_storage_class:
  "fp16_storage_HalfVectorAdd = HalfVectorAdd" "fp16_storage_Setup = HalfVectorAdd_Setup" "fp16_storage_Verify = HalfVectorAdd_Verify"
  by (simp_all add: fun_eq_iff fp16_storage_HalfVectorAdd_def HalfVectorAdd_def fp16_storage_Setup_def HalfVectorAdd_Setup_def
      fp16_storage_Verify_def HalfVectorAdd_Verify_def)

lemma quiet_hva_members [stable_intros]:
  "stable quiet (modify (\<lambda>s :: 'r HalfVectorAdd. s\<lparr>hva_in1 := b\<rparr>))"
  "stable quiet (modify (\<lambda>s :: 'r HalfVectorAdd. s\<lparr>hva_in2 := b\<rparr>))"
  "stable quiet (modify (\<lambda>s :: 'r HalfVectorAdd. s\<lparr>hva_out := b\<rparr>))"
  by (rule stable_modify, simp add: quiet_def)+

interpretation fp16_native: example H "SetupExecutable H (fp16_native_SetupCodeObject H)"
  "HalfVectorAdd_Setup H" "HalfVectorAdd_Verify H"
  unfolding fp16_native_SetupCodeObject_def HalfVectorAdd_Setup_def HalfVectorAdd_Verify_def
  by unfold_locales (intro stable_intros)+

interpretation fp16_storage: example H "SetupExecutable H (fp16_storage_SetupCodeObject H)"
  "fp16_storage_Setup H" "fp16_storage_Verify H"
  unfolding fp16_storage_SetupCodeObject_def fp16_storage_Setup_def fp16_storage_Verify_def
  by unfold_locales (intro stable_intros)+

section \<open>Exact half precision values\<close>

text \<open>Nonnegative halves that are zero or normal.\<close>

definition plain :: "half \<Rightarrow> bool" where
  "plain h \<longleftrightarrow> \<not> half_neg h \<and> half_exp h < 31 \<and> (half_exp h \<noteq> 0 \<or> h = 0)"

lemma half_zero: "half_mag_units 0 = 0" "\<not> half_neg 0" "half_exp 0 = 0"
  by (simp_all add: half_mag_units_def half_frac_def half_neg_def half_exp_def)

lemma h2f_0: "h2f 0 = 0"
  by (simp add: h2f_def)

lemma half_units_exact:
  assumes "plain h"
  shows "f32_exact (half_mag_units h * 2 ^ 125)"
proof (cases "half_exp h = 0")
  case True
  then show ?thesis using assms by (auto simp: plain_def half_zero f32_exact_def)
next
  case False
  have "half_exp h < 31" using assms by (simp add: plain_def)
  then have e: "half_exp h - 1 \<le> 29" by linarith
  have f: "half_frac h < 2 ^ 10" using half_field_bounds(2) [of h] by simp
  have "half_mag_units h * 2 ^ 125 = (2 ^ 10 + half_frac h) * 2 ^ (half_exp h - 1 + 125)"
    using False unfolding half_mag_units_def by (simp only: if_False power_add mult.assoc)
  moreover have "(2 ^ 10 + half_frac h) * 2 ^ (half_exp h - 1 + 125) < (2::nat) ^ 277"
  proof -
    have "(2::nat) ^ (half_exp h - 1 + 125) \<le> 2 ^ 154" using e by (intro power_increasing) simp_all
    then have "(2 ^ 10 + half_frac h) * 2 ^ (half_exp h - 1 + 125) \<le> 2 ^ 11 * (2::nat) ^ 154"
      using f by (intro mult_le_mono) simp_all
    then show ?thesis by (rule le_less_trans) simp
  qed
  moreover have "2 ^ 10 + half_frac h < 2 ^ 24" using f by simp
  ultimately show ?thesis by (intro f32_exactI) (assumption | simp)+
qed

lemma h2f_plain:
  assumes "plain h"
  shows "h2f h = f32_pos (half_mag_units h * 2 ^ 125)"
proof (cases "half_exp h = 0")
  case True
  then show ?thesis using assms by (simp add: plain_def h2f_0 half_zero)
next
  case False
  have u: "f32_units (h2f h) = int (half_mag_units h * 2 ^ 125)"
    and fin: "\<not> f32_is_nan (h2f h)" "\<not> f32_is_inf (h2f h)"
    using h2f_exact [of h] assms False by (simp_all add: plain_def half_units_def)
  have pos: "half_mag_units h * 2 ^ 125 \<noteq> 0" using False by (simp add: half_mag_units_def)
  then have neg: "\<not> f32_neg (h2f h)" using u by (auto simp: f32_units_def split: if_splits)
  then have "mag_units (f32_mag (h2f h)) = half_mag_units h * 2 ^ 125" using u by (simp add: f32_units_def)
  moreover have "f32_mag (h2f h) < 0x7f800000"
  proof -
    have nz: "half_exp h \<noteq> 0 \<or> half_frac h \<noteq> 0" using False by simp
    have "f32_exp (h2f h) < 255" using h2f_fields(1) [OF nz] assms by (simp add: plain_def)
    then show ?thesis unfolding f32_exp_def by (simp add: less_mult_imp_div_less div_less_iff_less_mult)
  qed
  ultimately show ?thesis using f32_pos_units [OF _ neg] by simp
qed

lemma plain_inj:
  assumes "plain g" and "plain h" and "half_mag_units g = half_mag_units h"
  shows "g = h"
proof -
  have "h2f g = h2f h" using assms by (simp add: h2f_plain)
  then have "f2h (h2f g) = f2h (h2f h)" by simp
  moreover have "g \<noteq> 0x8000" "h \<noteq> 0x8000"
    using assms(1,2) by (auto simp: plain_def half_exp_def)
  ultimately show ?thesis by (simp add: f2h_h2f_id)
qed

text \<open>The half nearest below \<open>n / 4\<close>; exact for \<open>n\<close> of at most eleven bits.\<close>

definition quarters :: "nat \<Rightarrow> half" where
  "quarters n = f2h (f32_pos (n * 2 ^ 147))"

lemma quarters_exact:
  assumes "n < 2 ^ 11"
  shows "f32_exact (n * 2 ^ 147)"
proof (rule f32_exactI [OF refl])
  show "n < 2 ^ 24" using assms by simp
  have "n * 2 ^ 147 < 2 ^ 11 * (2::nat) ^ 147" using assms by simp
  then show "n * 2 ^ 147 < (2::nat) ^ 277" by (rule less_trans) simp
qed

text \<open>
  Such a float has at most ten significant fraction bits and an exponent in the range of half
  precision, so that nothing is cut off.
\<close>

lemma quarters_float:
  assumes "0 < n" and "n < 2 ^ 11"
  shows "125 \<le> f32_exp (f32_pos (n * 2 ^ 147))" and "f32_exp (f32_pos (n * 2 ^ 147)) \<le> 135"
    and "2 ^ 13 dvd f32_frac (f32_pos (n * 2 ^ 147))"
proof -
  define x where "x = f32_pos (n * 2 ^ 147)"
  define e f where "e = f32_exp x" and "f = f32_frac x"
  have f: "f < 2 ^ 23" by (simp add: f_def f32_frac_def)
  have units: "mag_units (f32_mag x) = n * 2 ^ 147"
    unfolding x_def by (rule f32_pos_mag(2) [OF quarters_exact [OF assms(2)]])
  have "e \<noteq> 0"
  proof
    assume "e = 0"
    then have "n * 2 ^ 147 = f" using units by (simp add: mag_units_def f32_exp_def f32_frac_def e_def f_def)
    moreover have "2 ^ 147 \<le> n * (2::nat) ^ 147" using assms(1) by simp
    moreover have "(2::nat) ^ 23 < 2 ^ 147" by simp
    ultimately show False using f by linarith
  qed
  then obtain k where k: "e = Suc k" by (cases e) simp_all
  then have eq: "(2 ^ 23 + f) * 2 ^ k = n * 2 ^ 147"
    using units unfolding mag_units_def f32_exp_def [symmetric] f32_frac_def [symmetric] e_def [symmetric] f_def [symmetric] by simp
  have lo: "2 ^ (23 + k) \<le> (2 ^ 23 + f) * 2 ^ k" by (simp add: power_add)
  have hi: "(2 ^ 23 + f) * 2 ^ k < 2 ^ (24 + k)" using f by (simp add: power_add)
  have "2 ^ (23 + k) < (2::nat) ^ (11 + 147)"
  proof -
    have "n * 2 ^ 147 < 2 ^ 11 * (2::nat) ^ 147" using assms(2) by simp
    then show ?thesis using lo unfolding eq power_add by linarith
  qed
  then have k_hi: "k \<le> 134" by (subst (asm) power_strict_increasing_iff) simp_all
  have "(2::nat) ^ 147 < 2 ^ (24 + k)"
  proof -
    have "2 ^ 147 \<le> n * (2::nat) ^ 147" using assms(1) by simp
    then show ?thesis using hi unfolding eq by linarith
  qed
  then have k_lo: "124 \<le> k" by (subst (asm) power_strict_increasing_iff) simp_all
  show "125 \<le> f32_exp (f32_pos (n * 2 ^ 147))" and "f32_exp (f32_pos (n * 2 ^ 147)) \<le> 135"
    using k k_lo k_hi unfolding e_def x_def by simp_all
  have "(2::nat) ^ 147 = 2 ^ (147 - k) * 2 ^ k" using k_hi by (simp flip: power_add)
  then have "(2 ^ 23 + f) * 2 ^ k = n * 2 ^ (147 - k) * 2 ^ k" using eq by (simp only: mult.assoc)
  moreover have "(2::nat) ^ k \<noteq> 0" by simp
  ultimately have "2 ^ 23 + f = n * 2 ^ (147 - k)" by (simp only: mult_cancel2) blast
  moreover have "(2::nat) ^ 13 dvd 2 ^ (147 - k)" using k_hi by (intro le_imp_power_dvd) simp
  ultimately have "2 ^ 13 dvd 2 ^ 23 + f" by simp
  moreover have "(2::nat) ^ 13 dvd 2 ^ 23" by (intro le_imp_power_dvd) simp
  ultimately have "2 ^ 13 dvd f" using dvd_add_right_iff by blast
  then show "2 ^ 13 dvd f32_frac (f32_pos (n * 2 ^ 147))" by (simp add: f_def x_def)
qed

lemma quarters_plain:
  assumes "n < 2 ^ 11"
  shows "plain (quarters n)" and "h2f (quarters n) = f32_pos (n * 2 ^ 147)"
    and "half_mag_units (quarters n) = n * 2 ^ 22"
proof -
  have "plain (quarters n) \<and> h2f (quarters n) = f32_pos (n * 2 ^ 147)"
  proof (cases "n = 0")
    case True
    then have "quarters n = 0" by (simp add: quarters_def f2h_def f32_eq_0_iff f32_mag_def)
    then show ?thesis using True by (simp add: plain_def half_zero h2f_0)
  next
    case False
    define x where "x = f32_pos (n * 2 ^ 147)"
    note Q = quarters_float [OF _ assms, folded x_def]
    have Q: "125 \<le> f32_exp x" "f32_exp x \<le> 135" "2 ^ 13 dvd f32_frac x" using Q False by simp_all
    note F = f2h_normal [of x]
    have neg: "\<not> f32_neg x" unfolding x_def by (rule f32_pos_mag(4) [OF quarters_exact [OF assms]])
    have top: "unat x div 2 ^ 31 = 0"
      using neg bit_high [of 31 x] unat_less_2p [of x] by (simp add: f32_neg_def less_mult_imp_div_less)
    have F: "half_exp (f2h x) = f32_exp x - 112" "half_frac (f2h x) = f32_frac x div 2 ^ 13"
      "unat (f2h x) div 2 ^ 15 = 0" using F Q top by simp_all
    have nz: "half_exp (f2h x) \<noteq> 0 \<or> half_frac (f2h x) \<noteq> 0" using F(1) Q by simp
    note H = h2f_fields [OF nz]
    have "f32_exp (h2f (f2h x)) = f32_exp x" using H(1) F(1) Q by simp
    moreover have "f32_frac (h2f (f2h x)) = f32_frac x" using H(2) F(2) Q(3) by simp
    ultimately have "f32_mag (h2f (f2h x)) = f32_mag x" by (simp only: f32_parts(1))
    then have "unat (h2f (f2h x)) = unat x"
      using f32_parts(2) [of x] f32_parts(2) [of "h2f (f2h x)"] H(3) F(3) top by simp
    then have "h2f (f2h x) = x" by (simp add: word_unat_eq_iff)
    moreover have "plain (f2h x)"
      using F Q bit_high [of 15 "f2h x"] by (simp add: plain_def half_neg_def)
    ultimately show ?thesis by (simp add: quarters_def x_def)
  qed
  then show p: "plain (quarters n)" and h: "h2f (quarters n) = f32_pos (n * 2 ^ 147)" by simp_all
  have "f32_pos (half_mag_units (quarters n) * 2 ^ 125) = f32_pos (n * 2 ^ 147)"
    using h2f_plain [OF p] h by simp
  then have "half_mag_units (quarters n) * 2 ^ 125 = n * 2 ^ 147"
    using f32_pos_mag(2) [OF half_units_exact [OF p]] f32_pos_mag(2) [OF quarters_exact [OF assms]] by simp
  then show "half_mag_units (quarters n) = n * 2 ^ 22" by simp
qed

text \<open>The values of the example: \<open>i\<close>, \<open>1.25 i\<close> and their sum \<open>2.25 i\<close>.\<close>

lemma first_input: "f2h (f32_of_nat i) = quarters (4 * i)"
proof -
  have "i * 2 ^ 149 = 4 * i * (2::nat) ^ 147" by simp
  then show ?thesis by (simp only: f32_of_nat_pos quarters_def)
qed

lemma const_1_25: "(0x3fa00000 :: f32) = f32_pos (5 * 2 ^ 147)"
proof -
  have m: "f32_mag 0x3fa00000 = 0x3fa00000" and n: "\<not> f32_neg 0x3fa00000"
    by (simp_all add: f32_mag_def f32_neg_def unat_take_bit bit_high)
  have "mag_units 0x3fa00000 = 5 * 2 ^ 147" by (simp add: mag_units_def)
  then show ?thesis using f32_pos_units [of "0x3fa00000"] m n by simp
qed

lemma mul_1_25:
  assumes "i < 64"
  shows "f32_mul (f32_of_nat i) 0x3fa00000 = f32_pos (5 * i * 2 ^ 147)"
proof -
  have i: "i < 2 ^ 24" and five: "(5::nat) < 2 ^ 11" using assms by simp_all
  note A = f32_of_nat_fields [OF i] and B = f32_pos_fields [OF quarters_exact [OF five]]
  have "f32_units (f32_of_nat i) * f32_units (f32_pos (5 * 2 ^ 147)) = int (5 * i * 2 ^ 147 * 2 ^ 149)"
    by (simp only: A B) simp
  then have "f32_mul (f32_of_nat i) (f32_pos (5 * 2 ^ 147)) = f32_make False (f32_pack 149 (5 * i * 2 ^ 147 * 2 ^ 149))"
    using f32_mul_pos [OF A(3) B(2) A(4) B(3) A(2) f32_pos_mag(4) [OF quarters_exact [OF five]]] by simp
  then show ?thesis
    unfolding const_1_25 f32_pos_def f32_pack_scale by (simp only:)
qed

lemma second_input: "i < 64 \<Longrightarrow> f2h (f32_mul (f32_of_nat i) 0x3fa00000) = quarters (5 * i)"
  by (simp only: mul_1_25 quarters_def)

lemma expected_sum:
  assumes "i < 64"
  shows "h2f (f2h (f32_add (h2f (quarters (4 * i))) (h2f (quarters (5 * i))))) = f32_pos (9 * i * 2 ^ 147)"
proof -
  have b: "4 * i < 2 ^ 11" "5 * i < 2 ^ 11" "9 * i < 2 ^ 11" using assms by simp_all
  have "f32_add (h2f (quarters (4 * i))) (h2f (quarters (5 * i))) = f32_pos (9 * i * 2 ^ 147)"
    unfolding quarters_plain(2) [OF b(1)] quarters_plain(2) [OF b(2)]
    unfolding f32_pos_add [OF quarters_exact [OF b(1)] quarters_exact [OF b(2)]]
    by (rule arg_cong [where f = f32_pos]) simp
  then show ?thesis using quarters_plain(2) [OF b(3)] by (simp add: quarters_def)
qed

section \<open>Setup\<close>

text \<open>The host still holds the inputs it converted.\<close>

definition inputs_kept :: "buffer \<Rightarrow> buffer \<Rightarrow> memory \<Rightarrow> bool" where
  "inputs_kept b1 b2 m \<longleftrightarrow> (\<forall>i<64. element 2 dec_u16 (host_view b1 m) i = f2h (f32_of_nat i) \<and>
     element 2 dec_u16 (host_view b2 m) i = f2h (f32_mul (f32_of_nat i) 0x3fa00000))"

definition HalfVectorAdd_staged :: "buffer \<Rightarrow> buffer \<Rightarrow> buffer \<Rightarrow> 'r HalfVectorAdd \<Rightarrow> bool" where
  "HalfVectorAdd_staged b1 b2 ob t \<longleftrightarrow>
     hva_in1 t = Some b1 \<and> hva_in2 t = Some b2 \<and> hva_out t = Some ob \<and>
     buf_size b1 = 128 \<and> buf_size b2 = 128 \<and> buf_size ob = 128 \<and>
     arguments (kernarg_address (ring t (aql t))) [b1, b2, ob] (mem t) \<and>
     launch 64 64 (ring t (aql t)) \<and>
     (\<forall>i<64. element 2 dec_u16 (device_view b1 (mem t)) i = f2h (f32_of_nat i) \<and>
             element 2 dec_u16 (device_view b2 (mem t)) i = f2h (f32_mul (f32_of_nat i) 0x3fa00000)) \<and>
     inputs_kept b1 b2 (mem t)"

definition HalfVectorAdd_separate :: "'r HalfVectorAdd \<Rightarrow> bool" where
  "HalfVectorAdd_separate t \<longleftrightarrow> (\<forall>b1 b2. hva_in1 t = Some b1 \<longrightarrow> hva_in2 t = Some b2 \<longrightarrow>
     buffers_apart b1 b2 \<and> self_apart b1 \<and> self_apart b2 \<and>
     buffer_apart b1 (kernarg t) 24 \<and> buffer_apart b2 (kernarg t) 24)"

lemma touches_hva_fields:
  fixes s :: "'r HalfVectorAdd"
  assumes "touches_memory s t"
  shows "hva_in1 t = hva_in1 s" "hva_in2 t = hva_in2 s" "hva_out t = hva_out s" "hva_length t = hva_length s"
    "ring t = ring s" "aql t = aql s" "kernarg t = kernarg s" "kernarg_offset t = kernarg_offset s"
  using assms by (auto simp: touches_memory_def)

lemma AllocateKernarg_hva_length:
  fixes s :: "'r HalfVectorAdd"
  assumes "AllocateKernarg H n s = (Inr True, t)"
  shows "hva_length t = hva_length s"
  using assms
  by (auto simp: AllocateKernarg_def hsa_memory_allocate_def hsa_call_def exec split: prod.splits if_splits)

text \<open>The conversion of the two inputs loses nothing.\<close>

lemma inputs_exact:
  assumes "i < 64"
  shows "h2f (f2h (f32_of_nat i)) = f32_of_nat i"
    and "h2f (f2h (f32_mul (f32_of_nat i) 0x3fa00000)) = f32_mul (f32_of_nat i) 0x3fa00000"
proof -
  have b: "4 * i < 2 ^ 11" "5 * i < 2 ^ 11" using assms by simp_all
  have "i * 2 ^ 149 = 4 * i * (2::nat) ^ 147" by simp
  then show "h2f (f2h (f32_of_nat i)) = f32_of_nat i"
    unfolding first_input quarters_plain(2) [OF b(1)] by (simp only: f32_of_nat_pos)
  show "h2f (f2h (f32_mul (f32_of_nat i) 0x3fa00000)) = f32_mul (f32_of_nat i) 0x3fa00000"
    unfolding second_input [OF assms] quarters_plain(2) [OF b(2)] by (simp only: mul_1_25 [OF assms])
qed

lemma HalfVectorAdd_Setup_steps:
  assumes copy: "copies_faithfully H" and len: "hva_length s = 64"
    and run: "HalfVectorAdd_Setup H s = (Inr True, t)" and sep: "HalfVectorAdd_separate t"
  shows "\<exists>b1 b2 ob. HalfVectorAdd_staged b1 b2 ob t"
proof -
  obtain s1 s2 s3 s4 s5 s6 s7 s8 s9 s10 s11 p1 p2 ob u where
    k: "AllocateKernarg H (3 * 8) s = (Inr True, s1)" and
    a1: "AllocateBuffer H (ucast (hva_length s1) * 4 div 2) True s1 = (Inr p1, s2)" and
    a2: "AllocateBuffer H (ucast (hva_length s1) * 4 div 2) True (s2\<lparr>hva_in1 := p1\<rparr>) = (Inr p2, s3)" and
    l: "for_each [0..<unat (hva_length s1)] (\<lambda>i. bind (write_data 2 enc_u16 p1 i (f2h (f32_of_nat i)))
         (\<lambda>_. write_data 2 enc_u16 p2 i (f2h (f32_mul (f32_of_nat i) 0x3fa00000)))) (s3\<lparr>hva_in2 := p2\<rparr>) = (Inr u, s4)" and
    c1: "CopyTo H p1 s4 = (Inr True, s5)" and c2: "CopyTo H p2 s5 = (Inr True, s6)" and
    o: "AllocateBuffer H (ucast (hva_length s1) * 4 div 2) True s6 = (Inr ob, s7)" and
    k1: "Kernarg p1 (s7\<lparr>hva_out := ob\<rparr>) = (Inr (), s8)" and k2: "Kernarg p2 s8 = (Inr (), s9)" and
    ko: "Kernarg ob s9 = (Inr (), s10)" and
    g: "SetGridSize 64 1 1 s10 = (Inr (), s11)" and w: "SetWorkgroupSize 64 1 1 s11 = (Inr (), t)"
    using run unfolding HalfVectorAdd_Setup_def
    by (elim ok_elims) (auto simp: gets_run)
  have len1: "hva_length s1 = 64" using AllocateKernarg_hva_length [OF k] len by simp
  have l64: "for_each [0..<64] (\<lambda>i. bind (write_data 2 enc_u16 p1 i (f2h (f32_of_nat i)))
         (\<lambda>_. write_data 2 enc_u16 p2 i (f2h (f32_mul (f32_of_nat i) 0x3fa00000)))) (s3\<lparr>hva_in2 := p2\<rparr>) = (Inr u, s4)"
    using l by (simp add: len1 del: upt_rec_numeral)
  obtain b c where bc: "p1 = Some b" "p2 = Some c" using write_loop2_SomeD [OF l64] by auto
  obtain d where d: "ob = Some d" using Kernarg_SomeD [OF ko] by blast
  have sizes: "buf_size b = 128" "buf_size c = 128" "buf_size d = 128"
    using AllocateBuffer_Some a1 a2 o bc d len1 by force+
  have loop: "stable touches_memory (for_each [0..<64] (\<lambda>i. bind (write_data 2 enc_u16 p1 i (f2h (f32_of_nat i)))
         (\<lambda>_. write_data 2 enc_u16 p2 i (f2h (f32_mul (f32_of_nat i) 0x3fa00000)))))"
    by (intro stable_intros)
  note T = touches_hva_fields [OF stableD [OF touches_AllocateBuffer a1]]
    touches_hva_fields [OF stableD [OF touches_AllocateBuffer a2]]
    touches_hva_fields [OF stableD [OF loop l64]]
    touches_hva_fields [OF stableD [OF touches_CopyTo c1]]
    touches_hva_fields [OF stableD [OF touches_CopyTo c2]]
    touches_hva_fields [OF stableD [OF touches_AllocateBuffer o]]
  define s70 where "s70 = s7\<lparr>hva_out := ob\<rparr>"
  have members: "hva_in1 s70 = Some b" "hva_in2 s70 = Some c" "hva_out s70 = Some d"
    and seg: "kernarg_offset s70 = 0" "kernarg_address (ring s70 (aql s70)) = kernarg s70"
    using AllocateKernarg_True [OF k] by (simp_all add: s70_def T bc d)
  obtain m where s10: "s10 = s70\<lparr>kernarg_offset := 24, mem := m\<rparr>" and args: "arguments (kernarg s70) [b, c, d] m"
    and views: "\<And>b. device_apart b (kernarg s70) 24 \<Longrightarrow> device_view b m = device_view b (mem s70)"
    and blocks: "\<And>q l. apart q l (kernarg s70) 24 \<Longrightarrow> load_bytes q l m = load_bytes q l (mem s70)"
    using Kernargs_run [OF seg(1), of "[b, c, d]"]
      Kernarg3 [OF k1 [unfolded bc, folded s70_def] k2 [unfolded bc] ko [unfolded d]]
    by auto
  obtain p where t: "t = s10\<lparr>ring := (ring s10)(aql s10 := p)\<rparr>" and p: "launch 64 64 p" "kernarg_address p = kernarg s70"
    using SetSizes_run [OF g w] seg(2) by (auto simp: s10)
  have ap: "buffers_apart b c" "self_apart b" "self_apart c" "buffer_apart b (kernarg s70) 24" "buffer_apart c (kernarg s70) 24"
    using sep members by (auto simp: HalfVectorAdd_separate_def t s10)
  have "\<forall>i<64. element 2 dec_u16 (device_view b (mem s6)) i = f2h (f32_of_nat i) \<and>
      element 2 dec_u16 (device_view c (mem s6)) i = f2h (f32_mul (f32_of_nat i) 0x3fa00000)"
    using l64 c1 c2 unfolding bc by (intro u16_codec.two_inputs [OF copy ap(1)]) (simp_all add: sizes)
  moreover have "inputs_kept b c (mem s6)"
    using l64 c1 c2 unfolding bc inputs_kept_def
    by (intro u16_codec.two_inputs_kept [OF copy ap(1-3)]) (simp_all add: sizes)
  moreover have "host_view b m = host_view b (mem s70)" "host_view c m = host_view c (mem s70)"
    using ap(4,5) blocks by (simp_all add: host_view_def buffer_apart_def)
  moreover have "device_view b m = device_view b (mem s70)" "device_view c m = device_view c (mem s70)"
    using ap(4,5) views by (simp_all add: buffer_apart_def)
  moreover have "mem s70 = mem s6" using AllocateBuffer_mem [OF o] by (simp add: s70_def)
  ultimately have "HalfVectorAdd_staged b c d t"
    using members sizes args p by (simp add: HalfVectorAdd_staged_def inputs_kept_def t s10)
  then show ?thesis by blast
qed

section \<open>Verification\<close>

definition HalfVectorAdd_got :: "buffer \<Rightarrow> memory \<Rightarrow> nat \<Rightarrow> f32" where
  "HalfVectorAdd_got ob m i = h2f (element 2 dec_u16 (device_view ob m) i)"

lemma HalfVectorAdd_Verify_run:
  assumes copy: "copies_faithfully H" and ob: "hva_out s = Some ob" "buf_size ob = 128"
    and ins: "hva_in1 s = Some b1" "hva_in2 s = Some b2" "buf_size b1 = 128" "buf_size b2 = 128"
    and kept: "inputs_kept b1 b2 (mem s)" and ap: "buffers_apart ob b1" "buffers_apart ob b2"
    and len: "hva_length s = 64" and from_: "CopyFrom H (Some ob) s = (Inr True, u)"
  shows "HalfVectorAdd_Verify H s = (Inr (\<forall>i<64. f32_eq (f32_pos (9 * i * 2 ^ 147)) (HalfVectorAdd_got ob (mem s) i)),
    u\<lparr>out_stream := out_stream u @ reports (\<lambda>i. f32_eq (f32_pos (9 * i * 2 ^ 147)) (HalfVectorAdd_got ob (mem s) i))
      (\<lambda>i. mismatch i (Float (HalfVectorAdd_got ob (mem s) i)) (Float (f32_pos (9 * i * 2 ^ 147)))) 64\<rparr>)"
proof -
  let ?got = "HalfVectorAdd_got ob (mem s)"
  let ?body = "\<lambda>i ok.
       bind (read_data 2 dec_u16 (Some b1) i) (\<lambda>x1. let f1 = h2f x1 in
       bind (read_data 2 dec_u16 (Some b2) i) (\<lambda>x2. let f2 = h2f x2 in
       bind (read_data 2 dec_u16 (Some ob) i) (\<lambda>x. let res = h2f x;
         expected = h2f (f2h (f32_add f1 f2)) in
       if \<not> f32_eq expected res
       then bind (put (mismatch i (Float res) (Float expected))) (\<lambda>_. ret False)
       else ret ok)))"
  have "host_view ob (mem u) = device_view ob (mem s)" by (rule CopyFrom_views [OF copy from_])
  then have got: "h2f (dec_u16 (load_bytes (Data 2 ob i) 2 (mem u))) = ?got i" if "i < 64" for i
    using that ob(2) element_host_view [of 2 i ob dec_u16 "mem u"] by (simp add: HalfVectorAdd_got_def)
  have "host_view b1 (mem u) = host_view b1 (mem s)" "host_view b2 (mem u) = host_view b2 (mem s)"
    using CopyFrom_other_views(2) [OF copy from_] ap by blast+
  then have x: "dec_u16 (load_bytes (Data 2 b1 i) 2 (mem u)) = quarters (4 * i)"
      "dec_u16 (load_bytes (Data 2 b2 i) 2 (mem u)) = quarters (5 * i)" if "i < 64" for i
    using that kept ins(3,4) element_host_view [of 2 i b1 dec_u16 "mem u"] element_host_view [of 2 i b2 dec_u16 "mem u"]
      first_input [of i] second_input [OF that]
    by (simp_all add: inputs_kept_def)
  have u: "hva_length u = 64" "hva_in1 u = Some b1" "hva_in2 u = Some b2"
    using touches_hva_fields [OF stableD [OF touches_CopyFrom from_]] len ins by simp_all
  have "for_fold [0..<64] ?body True u = (Inr (\<forall>i<64. f32_eq (f32_pos (9 * i * 2 ^ 147)) (?got i)),
      u\<lparr>out_stream := out_stream u @ reports (\<lambda>i. f32_eq (f32_pos (9 * i * 2 ^ 147)) (?got i))
        (\<lambda>i. mismatch i (Float (?got i)) (Float (f32_pos (9 * i * 2 ^ 147)))) 64\<rparr>)"
  proof (rule check_loop [where v = "\<lambda>i ok. ok"])
    fix i :: nat and ok and t :: "'a HalfVectorAdd" assume i: "i < 64" and m: "mem t = mem u"
    show "?body i ok t = (Inr (ok \<and> f32_eq (f32_pos (9 * i * 2 ^ 147)) (?got i)),
        t\<lparr>out_stream := out_stream t @ (if f32_eq (f32_pos (9 * i * 2 ^ 147)) (?got i) then []
          else mismatch i (Float (?got i)) (Float (f32_pos (9 * i * 2 ^ 147))))\<rparr>)"
      unfolding Let_def bind_run read_data_Some m x [OF i] prod.case sum.case got [OF i] expected_sum [OF i]
      by (simp add: exec)
  qed
  then show ?thesis
    using ob(1) from_ u by (simp add: HalfVectorAdd_Verify_def bind_run gets_run del: upt_rec_numeral)
qed

section \<open>The kernels\<close>

text \<open>
  Both kernels load one half of each input per lane, add, and store one half; they differ in how
  they add. IEEE addition gives the exact sum where it is representable.
\<close>

definition adds_exactly :: "(half \<Rightarrow> half \<Rightarrow> half) \<Rightarrow> bool" where
  "adds_exactly add \<longleftrightarrow> (\<forall>a b c. plain a \<longrightarrow> plain b \<longrightarrow> plain c \<longrightarrow>
     half_mag_units a + half_mag_units b = half_mag_units c \<longrightarrow> add a b = c)"

definition half_add_kernel :: "(half \<Rightarrow> half \<Rightarrow> half) \<Rightarrow> packet \<Rightarrow> memory \<Rightarrow> memory" where
  "half_add_kernel add p m =
     (let arg = \<lambda>k. dec_u64 (load_bytes (kernarg_address p + of_nat (8 * k)) 8 m);
          in1 = \<lambda>i. dec_u16 (load_bytes (elem_addr 2 (arg 0) i) 2 m);
          in2 = \<lambda>i. dec_u16 (load_bytes (elem_addr 2 (arg 1) i) 2 m) in
      fill 2 enc_u16 (arg 2) (\<lambda>i. add (in1 i) (in2 i)) 64 m)"

lemma half_add_exact:
  assumes "adds_exactly add" and "i < 64"
  shows "add (f2h (f32_of_nat i)) (f2h (f32_mul (f32_of_nat i) 0x3fa00000)) = quarters (9 * i)"
proof -
  have b: "4 * i < 2 ^ 11" "5 * i < 2 ^ 11" "9 * i < 2 ^ 11" using assms(2) by simp_all
  have "half_mag_units (quarters (4 * i)) + half_mag_units (quarters (5 * i)) = half_mag_units (quarters (9 * i))"
    unfolding quarters_plain(3) [OF b(1)] quarters_plain(3) [OF b(2)] quarters_plain(3) [OF b(3)] by simp
  then show ?thesis
    unfolding first_input second_input [OF assms(2)]
    using assms(1) quarters_plain(1) b unfolding adds_exactly_def by blast
qed

lemma half_add_kernel_result:
  assumes exact: "adds_exactly add" and staged: "HalfVectorAdd_staged b1 b2 ob s"
    and ptr: "kernarg_address p = kernarg_address (ring s (aql s))"
    and ran: "m = half_add_kernel add p (mem s)" and i: "i < 64"
  shows "HalfVectorAdd_got ob m i = f32_pos (9 * i * 2 ^ 147)"
proof -
  have st: "buf_size b1 = 128" "buf_size b2 = 128" "buf_size ob = 128"
    "arguments (kernarg_address p) [b1, b2, ob] (mem s)"
    "\<And>i. i < 64 \<Longrightarrow> element 2 dec_u16 (device_view b1 (mem s)) i = f2h (f32_of_nat i)"
    "\<And>i. i < 64 \<Longrightarrow> element 2 dec_u16 (device_view b2 (mem s)) i = f2h (f32_mul (f32_of_nat i) 0x3fa00000)"
    using staged by (simp_all add: HalfVectorAdd_staged_def ptr)
  have args: "dec_u64 (load_bytes (kernarg_address p + of_nat (8 * k)) 8 (mem s)) = local_ptr ([b1, b2, ob] ! k)" if "k < 3" for k
    using st(4) that by (simp add: arguments_def)
  have lanes: "dec_u16 (load_bytes (elem_addr 2 (local_ptr b1) i) 2 (mem s)) = f2h (f32_of_nat i)"
      "dec_u16 (load_bytes (elem_addr 2 (local_ptr b2) i) 2 (mem s)) = f2h (f32_mul (f32_of_nat i) 0x3fa00000)"
    using st i element_device_view [of 2 i b1 dec_u16 "mem s"] element_device_view [of 2 i b2 dec_u16 "mem s"] by simp_all
  have "m = fill 2 enc_u16 (local_ptr ob) (\<lambda>i. add (dec_u16 (load_bytes (elem_addr 2 (local_ptr b1) i) 2 (mem s)))
      (dec_u16 (load_bytes (elem_addr 2 (local_ptr b2) i) 2 (mem s)))) 64 (mem s)"
    unfolding ran half_add_kernel_def Let_def using args [of 0] args [of 1] args [of 2] by simp
  then have "dec_u16 (load_bytes (elem_addr 2 (local_ptr ob) i) 2 m) = quarters (9 * i)"
    using u16_codec.load_fill [of i 64 "local_ptr ob"] i half_add_exact [OF exact i]
    by (simp add: fill_def lanes del: upt_rec_numeral)
  moreover have "9 * i < 2 ^ 11" using i by simp
  ultimately show ?thesis
    using i st(3) element_device_view [of 2 i ob dec_u16 m] quarters_plain(2)
    by (simp add: HalfVectorAdd_got_def)
qed

lemma f32_eq_refl: "\<not> f32_is_nan x \<Longrightarrow> f32_eq x x"
  by (simp add: f32_eq_def)

section \<open>Claims\<close>

text \<open>
  The inputs of the half precision examples lose nothing: for the 64 values of the loop
  the halves that \<open>Setup\<close> stores convert back to \<open>i\<close> and to \<open>1.25 i\<close>, and their sum in
  single precision, converted to half and back, is exactly \<open>2.25 i\<close>.
\<close>

theorem fp16_values_exact:
  assumes "i < 64"
  shows "h2f (f2h (f32_of_nat i)) = f32_of_nat i \<and>
    h2f (f2h (f32_mul (f32_of_nat i) 0x3fa00000)) = f32_mul (f32_of_nat i) 0x3fa00000 \<and>
    f32_units (h2f (f2h (f32_add (h2f (f2h (f32_of_nat i))) (h2f (f2h (f32_mul (f32_of_nat i) 0x3fa00000))))))
      = 9 * int i * 2 ^ 147"
proof -
  have b: "9 * i < 2 ^ 11" using assms by simp
  have "f32_units (f32_pos (9 * i * 2 ^ 147)) = 9 * int i * 2 ^ 147"
    using f32_pos_fields(1) [OF quarters_exact [OF b]] by simp
  then show ?thesis
    using inputs_exact [OF assms] expected_sum [OF assms] first_input [of i] second_input [OF assms] by simp
qed

theorem fp16_values_exact_witness: "h2f (f2h (f32_mul (f32_of_nat 63) 0x3fa00000)) = f32_mul (f32_of_nat 63) 0x3fa00000"
  using fp16_values_exact [of 63] by simp

text \<open>
  \<open>HalfVectorAdd::Setup\<close>: when it returns true, one group of 64 work-items is launched on an
  argument segment with the device addresses of \<open>in1\<close>, \<open>in2\<close> and \<open>out\<close> at offsets 0,
  8 and 16, and the device sees the halves of \<open>i\<close> and \<open>1.25 i\<close>.
\<close>

theorem HalfVectorAdd_Setup_prepares:
  assumes "copies_faithfully H" and "hva_length s = 64" and "HalfVectorAdd_Setup H s = (Inr True, t)"
    and "HalfVectorAdd_separate t"
  shows "\<exists>b1 b2 ob. HalfVectorAdd_staged b1 b2 ob t"
  by (rule HalfVectorAdd_Setup_steps [OF assms])

text \<open>
  \<open>HalfVectorAdd::Verify\<close> accepts exactly the sums \<open>2.25 i\<close>: while the host keeps its inputs, it
  returns true if and only if the half the device wrote at every index \<open>i\<close> converts to that
  value, and it reports every other element in order.
\<close>

theorem HalfVectorAdd_Verify_decides:
  assumes "copies_faithfully H" and "hva_out s = Some ob" and "buf_size ob = 128"
    and "hva_in1 s = Some b1" and "hva_in2 s = Some b2" and "buf_size b1 = 128" and "buf_size b2 = 128"
    and "inputs_kept b1 b2 (mem s)" and "buffers_apart ob b1" and "buffers_apart ob b2"
    and "hva_length s = 64" and "CopyFrom H (Some ob) s = (Inr True, u)"
  shows "HalfVectorAdd_Verify H s =
    (Inr (\<forall>i<64. f32_eq (f32_pos (9 * i * 2 ^ 147)) (h2f (element 2 dec_u16 (device_view ob (mem s)) i))),
     u\<lparr>out_stream := out_stream u @ concat (map (\<lambda>i.
       let x = h2f (element 2 dec_u16 (device_view ob (mem s)) i); e = f32_pos (9 * i * 2 ^ 147) in
       if f32_eq e x then [] else mismatch i (Float x) (Float e)) [0..<64])\<rparr>)"
  using HalfVectorAdd_Verify_run [OF assms] by (simp only: reports_def HalfVectorAdd_got_def Let_def)

lemma kernel_keeps_inputs:
  assumes "HalfVectorAdd_staged b1 b2 ob s" and "kernarg_address p = kernarg_address (ring s (aql s))"
    and "buffers_apart ob b1" and "buffers_apart ob b2"
  shows "inputs_kept b1 b2 (half_add_kernel add p (mem s))"
proof -
  have st: "buf_size ob = 128" "arguments (kernarg_address p) [b1, b2, ob] (mem s)" "inputs_kept b1 b2 (mem s)"
    using assms(1,2) by (simp_all add: HalfVectorAdd_staged_def)
  have "dec_u64 (load_bytes (kernarg_address p + of_nat (8 * 2)) 8 (mem s)) = local_ptr ([b1, b2, ob] ! 2)"
    using st(2) unfolding arguments_def by (elim allE [of _ 2]) simp
  then obtain f where k: "half_add_kernel add p (mem s) = fill 2 enc_u16 (local_ptr ob) f 64 (mem s)"
    unfolding half_add_kernel_def Let_def by simp
  have "host_view b (fill 2 enc_u16 (local_ptr ob) f 64 (mem s)) = host_view b (mem s)" if "buffers_apart ob b" for b
    using that st(1) apart_elem [where w = 2 and l = 64 and q = "local_ptr ob"]
    by (auto simp: host_view_def buffers_apart_def buffer_apart_def u16_codec.length_enc intro!: fill_apart)
  then show ?thesis using st(3) assms(3,4) by (simp add: inputs_kept_def k)
qed

lemma HalfVectorAdd_kernel_accepted:
  assumes copy: "copies_faithfully H" and add: "adds_exactly add" and staged: "HalfVectorAdd_staged b1 b2 ob s"
    and ptr: "kernarg_address p = kernarg_address (ring s (aql s))"
    and ran: "mem s' = half_add_kernel add p (mem s)"
    and members: "hva_out s' = Some ob" "hva_in1 s' = Some b1" "hva_in2 s' = Some b2" "hva_length s' = 64"
    and ap: "buffers_apart ob b1" "buffers_apart ob b2" and from_: "CopyFrom H (Some ob) s' = (Inr True, u)"
  shows "\<exists>t. HalfVectorAdd_Verify H s' = (Inr True, t) \<and> out_stream t = out_stream u"
proof -
  have good: "f32_eq (f32_pos (9 * i * 2 ^ 147)) (HalfVectorAdd_got ob (mem s') i)" if "i < 64" for i
  proof -
    have b: "9 * i < 2 ^ 11" using that by simp
    have got: "HalfVectorAdd_got ob (mem s') i = f32_pos (9 * i * 2 ^ 147)"
      by (rule half_add_kernel_result [OF add staged ptr ran that])
    show ?thesis unfolding got by (rule f32_eq_refl [OF f32_pos_fields(2) [OF quarters_exact [OF b]]])
  qed
  then have "reports (\<lambda>i. f32_eq (f32_pos (9 * i * 2 ^ 147)) (HalfVectorAdd_got ob (mem s') i)) rep 64 = []" for rep
    by (auto simp: reports_def simp del: upt_rec_numeral)
  moreover have sz: "buf_size ob = 128" "buf_size b1 = 128" "buf_size b2 = 128"
    using staged by (simp_all add: HalfVectorAdd_staged_def)
  moreover have kept: "inputs_kept b1 b2 (mem s')"
    using kernel_keeps_inputs [OF staged ptr ap] by (simp add: ran)
  ultimately show ?thesis
    using HalfVectorAdd_Verify_run [OF copy members(1) sz(1) members(2,3) sz(2,3) kept ap members(4) from_] good by simp
qed

text \<open>
  C7. Both half precision examples are right: whichever way the kernel adds two halves, if the result is
  exact where it can be, \<open>Verify\<close> accepts what the kernel computes on the staged inputs.
\<close>

theorem HalfVectorAdd_correct:
  assumes "copies_faithfully H" and "adds_exactly add" and "HalfVectorAdd_staged b1 b2 ob s"
    and "kernarg_address p = kernarg_address (ring s (aql s))"
    and "s' = s\<lparr>mem := half_add_kernel add p (mem s)\<rparr>"
    and "buffers_apart ob b1" and "buffers_apart ob b2"
    and "hva_length s = 64" and "CopyFrom H (Some ob) s' = (Inr True, u)"
  shows "\<exists>t. HalfVectorAdd_Verify H s' = (Inr True, t)"
proof -
  have "mem s' = half_add_kernel add p (mem s)" "hva_out s' = Some ob" "hva_in1 s' = Some b1" "hva_in2 s' = Some b2" "hva_length s' = 64"
    using assms(3,5,8) by (simp_all add: HalfVectorAdd_staged_def)
  from HalfVectorAdd_kernel_accepted [OF assms(1-4) this assms(6,7,9)] show ?thesis by blast
qed

section \<open>On the reference runtime\<close>

text \<open>Addition as fp16_storage.s does it: convert to single precision, add, convert back.\<close>

definition half_add_via_f32 :: "half \<Rightarrow> half \<Rightarrow> half" where
  "half_add_via_f32 a b = f2h (f32_add (h2f a) (h2f b))"

lemma half_add_via_f32_exact: "adds_exactly half_add_via_f32"
  unfolding adds_exactly_def
proof (intro allI impI)
  fix a b c
  assume p: "plain a" "plain b" "plain c" and sum: "half_mag_units a + half_mag_units b = half_mag_units c"
  have "f32_add (h2f a) (h2f b) = f32_pos (half_mag_units a * 2 ^ 125 + half_mag_units b * 2 ^ 125)"
    unfolding h2f_plain [OF p(1)] h2f_plain [OF p(2)]
    by (rule f32_pos_add [OF half_units_exact [OF p(1)] half_units_exact [OF p(2)]])
  also have "\<dots> = h2f c" unfolding h2f_plain [OF p(3)] sum [symmetric] distrib_right ..
  finally have "half_add_via_f32 a b = f2h (h2f c)" by (simp add: half_add_via_f32_def)
  moreover have "c \<noteq> 0x8000" using p(3) by (auto simp: plain_def half_exp_def)
  ultimately show "half_add_via_f32 a b = c" by (simp add: f2h_h2f_id)
qed

definition ref_hva_members where
  "ref_hva_members = HalfVectorAdd.fields None None None 64"

definition ref_hva_staged :: "u32 \<Rightarrow> event list \<Rightarrow> memory \<Rightarrow> ref_rt HalfVectorAdd" where
  "ref_hva_staged d es m = (ref_ready d ref_hva_members)\<lparr>rt := ref_start\<lparr>next_block := 0x9000, write_index := 1\<rparr>,
     mem := m, ring := (\<lambda>_. ref_packet)(0 := ref_launch 64 64), events := es, kernarg := 0x2000, kernarg_offset := 24,
     hva_in1 := Some (Buffer 128 0x4000 0x3000), hva_in2 := Some (Buffer 128 0x6000 0x5000),
     hva_out := Some (Buffer 128 0x8000 0x7000)\<rparr>"

lemma ref_hva_setup:
  "\<exists>es m. HalfVectorAdd_Setup (ref_hsa k) (ref_ready d ref_hva_members) = (Inr True, ref_hva_staged d es m)"
  by (simp add: HalfVectorAdd_Setup_def ref_setup ref_hva_members_def ref_hva_staged_def HalfVectorAdd.defs
      del: upt_rec_numeral cong: if_cong)

lemma ref_hva_fields:
  "hva_in1 (ref_hva_staged d es m) = Some (Buffer 128 0x4000 0x3000)"
  "hva_in2 (ref_hva_staged d es m) = Some (Buffer 128 0x6000 0x5000)"
  "hva_out (ref_hva_staged d es m) = Some (Buffer 128 0x8000 0x7000)"
  "kernarg (ref_hva_staged d es m) = 0x2000" "mem (ref_hva_staged d es m) = m"
  "ring (ref_hva_staged d es m) (aql (ref_hva_staged d es m)) = ref_launch 64 64"
  "hva_length (ref_hva_staged d es m) = 64" "hva_length (ref_ready d ref_hva_members) = 64"
  by (simp_all add: ref_hva_staged_def ref_ready_def ref_object_def Dispatch_Dispatch_def ref_storage_def
      ref_hva_members_def HalfVectorAdd.defs)

lemma ref_hva_separate: "HalfVectorAdd_separate (ref_hva_staged d es m)"
  by (simp add: HalfVectorAdd_separate_def ref_hva_fields Buffer_def buffers_apart_def buffer_apart_def
      device_apart_def self_apart_def apart_below)

lemma ref_hva_out_apart:
  "buffers_apart (Buffer 128 0x8000 0x7000) (Buffer 128 0x4000 0x3000)"
  "buffers_apart (Buffer 128 0x8000 0x7000) (Buffer 128 0x6000 0x5000)"
  by (simp_all add: Buffer_def buffers_apart_def buffer_apart_def device_apart_def apart_below)

theorem HalfVectorAdd_Setup_prepares_witness:
  "\<exists>t b1 b2 ob. HalfVectorAdd_Setup (ref_hsa (\<lambda>p m. m)) (ref_ready 0 ref_hva_members) = (Inr True, t) \<and>
    HalfVectorAdd_staged b1 b2 ob t"
proof -
  obtain es m where "HalfVectorAdd_Setup (ref_hsa (\<lambda>p m. m)) (ref_ready 0 ref_hva_members) = (Inr True, ref_hva_staged 0 es m)"
    using ref_hva_setup by blast
  then show ?thesis using HalfVectorAdd_Setup_prepares [OF ref_copies ref_hva_fields(8) _ ref_hva_separate] by blast
qed

lemma ref_hva_staged_ok:
  assumes "HalfVectorAdd_Setup (ref_hsa k) (ref_ready d ref_hva_members) = (Inr True, ref_hva_staged d es m)"
  shows "HalfVectorAdd_staged (Buffer 128 0x4000 0x3000) (Buffer 128 0x6000 0x5000) (Buffer 128 0x8000 0x7000)
    (ref_hva_staged d es m)"
proof -
  obtain b1 b2 ob where st: "HalfVectorAdd_staged b1 b2 ob (ref_hva_staged d es m)"
    using HalfVectorAdd_Setup_steps [OF ref_copies ref_hva_fields(8) assms ref_hva_separate] by blast
  then have "b1 = Buffer 128 0x4000 0x3000 \<and> b2 = Buffer 128 0x6000 0x5000 \<and> ob = Buffer 128 0x8000 0x7000"
    by (simp add: HalfVectorAdd_staged_def ref_hva_fields)
  then show ?thesis using st by simp
qed

theorem HalfVectorAdd_correct_witness:
  "\<exists>es m t. HalfVectorAdd_Verify (ref_hsa (\<lambda>p m. m)) ((ref_hva_staged 0 es m)\<lparr>mem :=
      half_add_kernel half_add_via_f32 (ref_launch 64 64) m\<rparr>) = (Inr True, t)"
proof -
  let ?H = "ref_hsa (\<lambda>p m. m)" and ?b = "Buffer 128 0x8000 0x7000"
  obtain es m where run: "HalfVectorAdd_Setup ?H (ref_ready 0 ref_hva_members) = (Inr True, ref_hva_staged 0 es m)"
    using ref_hva_setup by blast
  let ?s = "ref_hva_staged 0 es m"
  let ?t = "(ref_hva_staged 0 es m)\<lparr>mem := half_add_kernel half_add_via_f32 (ref_launch 64 64) m\<rparr>"
  obtain u where copied: "CopyFrom ?H (Some ?b) ?t = (Inr True, u)" using ref_copy_back by blast
  have "kernarg_address (ref_launch 64 64) = kernarg_address (ring ?s (aql ?s))"
    and "?t = ?s\<lparr>mem := half_add_kernel half_add_via_f32 (ref_launch 64 64) (mem ?s)\<rparr>"
    by (simp_all add: ref_hva_fields)
  then show ?thesis
    using HalfVectorAdd_correct [OF ref_copies half_add_via_f32_exact ref_hva_staged_ok [OF run] _ _
        ref_hva_out_apart ref_hva_fields(7) copied]
    by blast
qed

theorem HalfVectorAdd_Verify_decides_witness:
  "\<exists>es m t. HalfVectorAdd_Verify (ref_hsa (\<lambda>p m. m)) (ref_hva_staged 0 es m) =
    (Inr (\<forall>i<64. f32_eq (f32_pos (9 * i * 2 ^ 147))
      (h2f (element 2 dec_u16 (device_view (Buffer 128 0x8000 0x7000) m) i))), t)"
proof -
  let ?H = "ref_hsa (\<lambda>p m. m)" and ?b = "Buffer 128 0x8000 0x7000"
  obtain es m where run: "HalfVectorAdd_Setup ?H (ref_ready 0 ref_hva_members) = (Inr True, ref_hva_staged 0 es m)"
    using ref_hva_setup by blast
  let ?s = "ref_hva_staged 0 es m"
  obtain u where copied: "CopyFrom ?H (Some ?b) ?s = (Inr True, u)" using ref_copy_back by blast
  note st = ref_hva_staged_ok [OF run, unfolded HalfVectorAdd_staged_def]
  then show ?thesis
    using HalfVectorAdd_Verify_decides [OF ref_copies ref_hva_fields(3) _ ref_hva_fields(1,2) _ _ _ ref_hva_out_apart
        ref_hva_fields(7) copied]
    unfolding ref_hva_fields(5) by blast
qed

end
