(* ===== verification/Asm_Kernel.thy ===== *)
theory Asm_Kernel
  imports Reference_Run Float32
begin

text \<open>
  examples/asm-kernel/asm-kernel.cpp: one work-item stores one float. The argument segment is
  larger than the kernel needs, the output buffer is not an input, and the comparison is
  that of C++ on floats.
\<close>

section \<open>The class\<close>

record 'r AsmKernelDispatch = "'r Dispatch" +
  ak_out :: "buffer option"

definition AsmKernelDispatch :: "'r AsmKernelDispatch \<Rightarrow> 'r AsmKernelDispatch" where
  "AsmKernelDispatch storage = Dispatch_Dispatch storage"

definition AsmKernel_SetupCodeObject :: "'r hsa \<Rightarrow> ('r AsmKernelDispatch, bool) prog" where
  "AsmKernel_SetupCodeObject H = LoadCodeObjectFromFile H ''asm-kernel.co''"

definition AsmKernel_Setup :: "'r hsa \<Rightarrow> ('r AsmKernelDispatch, bool) prog" where
  "AsmKernel_Setup H =
     bind (AllocateKernarg H 1024) (\<lambda>ok.
     if \<not> ok then ret False else
     bind (AllocateBuffer H 1024 True) (\<lambda>ob.
     bind (modify (\<lambda>s. s\<lparr>ak_out := ob\<rparr>)) (\<lambda>_.
     bind (Kernarg ob) (\<lambda>_.
     bind (SetGridSize 1 1 1) (\<lambda>_.
     bind (SetWorkgroupSize 1 1 1) (\<lambda>_.
     ret True))))))"

text \<open>The float nearest to 3.14159, which the source writes \<open>3.14159f\<close>.\<close>

definition f32_3_14159 :: f32 where
  "f32_3_14159 = 0x40490fd0"

definition AsmKernel_Verify :: "'r hsa \<Rightarrow> ('r AsmKernelDispatch, bool) prog" where
  "AsmKernel_Verify H =
     bind (gets ak_out) (\<lambda>ob.
     bind (CopyFrom H ob) (\<lambda>copied.
     if \<not> copied then fail_with ''Error: failed to copy from local'' else
     bind (read_data 4 dec_u32 ob 0) (\<lambda>x.
     if \<not> f32_eq x f32_3_14159
     then bind (put [Str ''Error: validation failed: got '', Float x, Str '' expected '', Str ''3.14159'', Endl])
            (\<lambda>_. ret False)
     else ret True)))"

definition AsmKernel_main :: "'r hsa \<Rightarrow> 'r AsmKernelDispatch \<Rightarrow> (fault + int) \<times> 'r AsmKernelDispatch" where
  "AsmKernel_main H storage =
     RunMain H (SetupExecutable H (AsmKernel_SetupCodeObject H)) (AsmKernel_Setup H) (AsmKernel_Verify H)
       (AsmKernelDispatch storage)"

lemma quiet_ak_member [stable_intros]:
  "stable quiet (modify (\<lambda>s :: 'r AsmKernelDispatch. s\<lparr>ak_out := b\<rparr>))"
  by (rule stable_modify) (simp add: quiet_def)

interpretation asm_kernel: example H "SetupExecutable H (AsmKernel_SetupCodeObject H)"
  "AsmKernel_Setup H" "AsmKernel_Verify H"
  unfolding AsmKernel_SetupCodeObject_def AsmKernel_Setup_def AsmKernel_Verify_def
  by unfold_locales (intro stable_intros)+

section \<open>Setup\<close>

definition AsmKernel_staged :: "buffer \<Rightarrow> 'r AsmKernelDispatch \<Rightarrow> bool" where
  "AsmKernel_staged ob t \<longleftrightarrow> ak_out t = Some ob \<and> buf_size ob = 1024 \<and>
     arguments (kernarg_address (ring t (aql t))) [ob] (mem t) \<and> launch 1 1 (ring t (aql t))"

lemma AsmKernel_Setup_staged:
  assumes "AsmKernel_Setup H s = (Inr True, t)"
  shows "\<exists>ob. AsmKernel_staged ob t"
proof -
  obtain s1 s2 s3 s4 ob where k: "AllocateKernarg H 1024 s = (Inr True, s1)"
    and o: "AllocateBuffer H 1024 True s1 = (Inr ob, s2)"
    and a: "Kernarg ob (s2\<lparr>ak_out := ob\<rparr>) = (Inr (), s3)"
    and g: "SetGridSize 1 1 1 s3 = (Inr (), s4)" and w: "SetWorkgroupSize 1 1 1 s4 = (Inr (), t)"
    using assms unfolding AsmKernel_Setup_def by (elim ok_elims) simp
  obtain b where b: "ob = Some b" using Kernarg_SomeD [OF a] by blast
  have sz: "buf_size b = 1024" using AllocateBuffer_Some [OF o [unfolded b]] by simp
  have kept: "ring s2 = ring s1" "aql s2 = aql s1" "kernarg s2 = kernarg s1" "kernarg_offset s2 = kernarg_offset s1"
    using stableD [OF touches_AllocateBuffer o] by (auto simp: touches_memory_def)
  have seg: "kernarg_offset s2 = 0" "kernarg_address (ring s2 (aql s2)) = kernarg s2"
    using AllocateKernarg_True [OF k] by (simp_all add: kept)
  have "for_each [b] (\<lambda>b. Kernarg (Some b)) (s2\<lparr>ak_out := ob\<rparr>) = (Inr (), s3)"
    using a b by (simp add: bind_def ret_def)
  then obtain m where s3: "s3 = s2\<lparr>ak_out := ob, kernarg_offset := 8, mem := m\<rparr>" and args: "arguments (kernarg s2) [b] m"
    using Kernargs_run [of "s2\<lparr>ak_out := ob\<rparr>" "[b]"] seg(1) by auto
  obtain p where "t = s3\<lparr>ring := (ring s3)(aql s3 := p)\<rparr>" "launch 1 1 p" "kernarg_address p = kernarg s2"
    using SetSizes_run [OF g w] seg(2) by (auto simp: s3)
  then have "AsmKernel_staged b t" using sz args b by (simp add: AsmKernel_staged_def s3)
  then show ?thesis by blast
qed

section \<open>Verification\<close>

text \<open>The float that the device left in the first element of \<open>out\<close>.\<close>

definition AsmKernel_got :: "buffer \<Rightarrow> memory \<Rightarrow> f32" where
  "AsmKernel_got ob m = element 4 dec_u32 (device_view ob m) 0"

lemma AsmKernel_Verify_run:
  assumes copy: "copies_faithfully H" and ob: "ak_out s = Some ob" "buf_size ob = 1024"
    and from_: "CopyFrom H (Some ob) s = (Inr True, u)"
  shows "AsmKernel_Verify H s =
    (if f32_eq (AsmKernel_got ob (mem s)) 0x40490fd0 then (Inr True, u)
     else (Inr False, u\<lparr>out_stream := out_stream u @ [Str ''Error: validation failed: got '',
       Float (AsmKernel_got ob (mem s)), Str '' expected '', Str ''3.14159'', Endl]\<rparr>))"
proof -
  have "host_view ob (mem u) = device_view ob (mem s)" by (rule CopyFrom_views [OF copy from_])
  then have got: "dec_u32 (load_bytes (Data 4 ob 0) 4 (mem u)) = AsmKernel_got ob (mem s)"
    using ob(2) element_host_view [of 4 0 ob dec_u32 "mem u"] by (simp add: AsmKernel_got_def)
  show ?thesis
    using ob(1) from_ by (simp add: AsmKernel_Verify_def exec read_data_Some got f32_3_14159_def)
qed

text \<open>What asm-kernel.s does: it stores the float 3.14159 through its first argument.\<close>

definition asm_kernel :: "packet \<Rightarrow> memory \<Rightarrow> memory" where
  "asm_kernel p m = store_bytes (dec_u64 (load_bytes (kernarg_address p) 8 m)) (enc_u32 0x40490fd0) m"

lemma AsmKernel_kernel_accepted:
  assumes copy: "copies_faithfully H" and staged: "AsmKernel_staged ob s"
    and ptr: "kernarg_address p = kernarg_address (ring s (aql s))"
    and ran: "mem s' = asm_kernel p (mem s)" and out: "ak_out s' = Some ob"
    and from_: "CopyFrom H (Some ob) s' = (Inr True, u)"
  shows "AsmKernel_Verify H s' = (Inr True, u)"
proof -
  have sz: "buf_size ob = 1024" and arg: "dec_u64 (load_bytes (kernarg_address p) 8 (mem s)) = local_ptr ob"
    using staged ptr by (auto simp: AsmKernel_staged_def arguments_def)
  have "AsmKernel_got ob (mem s') = 0x40490fd0"
    using sz by (simp add: AsmKernel_got_def element_device_view ran asm_kernel_def arg elem_addr_def u32_codec.load_same)
  moreover have "f32_eq 0x40490fd0 0x40490fd0"
    by (simp add: f32_eq_def f32_is_nan_def f32_exp_def f32_frac_def f32_mag_def)
  ultimately show ?thesis using AsmKernel_Verify_run [OF copy out sz from_] by simp
qed

text \<open>
  C4. The smallest example is right: whatever \<open>Setup\<close> staged when it returned true, after the kernel has
  run on it \<open>Verify\<close> accepts the result and reports nothing. The runtime copies faithfully
  and the copy back succeeds; nothing is assumed of where the blocks lie.
\<close>

theorem AsmKernel_correct:
  assumes "copies_faithfully H" and "AsmKernel_Setup H s0 = (Inr True, s)"
    and "kernarg_address p = kernarg_address (ring s (aql s))"
    and "mem s' = asm_kernel p (mem s)" and "ak_out s' = ak_out s"
    and "CopyFrom H (ak_out s') s' = (Inr True, u)"
  shows "AsmKernel_Verify H s' = (Inr True, u)"
proof -
  obtain ob where "AsmKernel_staged ob s" using AsmKernel_Setup_staged [OF assms(2)] by blast
  moreover from this have "ak_out s = Some ob" by (simp add: AsmKernel_staged_def)
  ultimately show ?thesis using AsmKernel_kernel_accepted [OF assms(1) _ assms(3,4)] assms(5,6) by simp
qed

section \<open>On the reference runtime\<close>

definition ref_ak_members where
  "ref_ak_members = AsmKernelDispatch.fields None"

lemma ref_ak_setup:
  "\<exists>t. AsmKernel_Setup (ref_hsa k) (ref_ready d ref_ak_members) = (Inr True, t) \<and> ak_out t = Some (Buffer 1024 0x4000 0x3000)"
  by (simp add: AsmKernel_Setup_def ref_setup ref_ak_members_def AsmKernelDispatch.defs cong: if_cong)

theorem AsmKernel_correct_witness:
  "\<exists>s t. AsmKernel_Setup (ref_hsa asm_kernel) (ref_ready 0 ref_ak_members) = (Inr True, s) \<and>
    AsmKernel_Verify (ref_hsa asm_kernel) (s\<lparr>mem := asm_kernel (ring s (aql s)) (mem s)\<rparr>) = (Inr True, t)"
proof -
  let ?H = "ref_hsa asm_kernel"
  obtain s where run: "AsmKernel_Setup ?H (ref_ready 0 ref_ak_members) = (Inr True, s)"
    and out: "ak_out s = Some (Buffer 1024 0x4000 0x3000)" using ref_ak_setup by blast
  let ?s = "s\<lparr>mem := asm_kernel (ring s (aql s)) (mem s)\<rparr>"
  obtain u where "CopyFrom ?H (ak_out ?s) ?s = (Inr True, u)"
    using ref_copy_back out by fastforce
  then have "AsmKernel_Verify ?H ?s = (Inr True, u)"
    by (intro AsmKernel_correct [OF ref_copies run, where p = "ring s (aql s)"]) simp_all
  then show ?thesis using run by blast
qed

end
