(* ===== verification/Gcn_Kernels.thy ===== *)
theory Gcn_Kernels
  imports Gcn Ds_Bpermute Dpp_Reduce Fp16 Asm_Kernel
begin

text \<open>
  The kernels of the examples as programs of the machine, and the proof that they do to the memory
  what the theories of the host programs take them to do.
\<close>

section \<open>The programs\<close>

definition asm_kernel_program :: "instr list" where
  "asm_kernel_program = [
     S_load_dwordx2 0 0 0,
     V_mov_b32 0 (Literal 0x40490fd0),
     S_waitcnt False True,
     V_mov_b32 1 (Sgpr 0),
     V_mov_b32 2 (Sgpr 1),
     Flat_store_dword 1 0,
     S_waitcnt True True,
     S_endpgm]"

definition ds_bpermute_program :: "instr list" where
  "ds_bpermute_program = [
     S_load_dwordx2 4 0 0x10,
     S_load_dwordx4 0 0 0x00,
     V_lshlrev_b32 0 2 0,
     S_waitcnt False True,
     V_add_u32 1 (Sgpr 2) 0,
     V_mov_b32 2 (Sgpr 3),
     V_addc_u32 2 2,
     V_add_u32 3 (Sgpr 0) 0,
     V_mov_b32 4 (Sgpr 1),
     V_addc_u32 4 4,
     Flat_load_dword 1 1,
     Flat_load_dword 2 3,
     S_waitcnt True True,
     V_lshlrev_b32 1 2 1,
     Ds_bpermute_b32 1 1 2,
     V_add_u32 3 (Sgpr 4) 0,
     V_mov_b32 2 (Sgpr 5),
     V_addc_u32 4 2,
     S_waitcnt False True,
     Flat_store_dword 3 1,
     S_endpgm]"

definition dpp_reduce_program :: "instr list" where
  "dpp_reduce_program = [
     S_load_dwordx4 0 0 0x00,
     V_lshlrev_b32 0 2 0,
     S_waitcnt False True,
     V_add_u32 3 (Sgpr 2) 0,
     V_mov_b32 4 (Sgpr 3),
     V_addc_u32 4 4,
     V_add_u32 1 (Sgpr 0) 0,
     V_mov_b32 2 (Sgpr 1),
     V_addc_u32 2 2,
     Flat_load_dword 0 1,
     S_waitcnt True True,
     V_add_f32_dpp 1 0 0 (Row_shr 1) True 0xf 0xf,
     V_add_f32_dpp 1 0 1 (Row_shr 2) True 0xf 0xf,
     V_add_f32_dpp 1 0 1 (Row_shr 3) True 0xf 0xf,
     S_nop,
     S_nop,
     V_add_f32_dpp 1 1 1 (Row_shr 4) False 0xf 0xe,
     S_nop,
     S_nop,
     V_add_f32_dpp 1 1 1 (Row_shr 8) False 0xf 0xc,
     S_nop,
     S_nop,
     V_add_f32_dpp 1 1 1 Row_bcast15 False 0xa 0xf,
     S_nop,
     S_nop,
     V_add_f32_dpp 1 1 1 Row_bcast31 False 0xc 0xf,
     Flat_store_dword 3 1,
     S_endpgm]"

text \<open>The two half precision kernels differ in how they add.\<close>

definition fp16_storage_program :: "instr list" where
  "fp16_storage_program = [
     S_load_dwordx2 4 0 0x10,
     S_load_dwordx4 0 0 0x00,
     V_lshlrev_b32 0 1 0,
     S_waitcnt True True,
     V_add_u32 1 (Sgpr 0) 0,
     V_mov_b32 2 (Sgpr 1),
     V_addc_u32 2 2,
     Flat_load_ushort 3 1,
     V_add_u32 1 (Sgpr 2) 0,
     V_mov_b32 2 (Sgpr 3),
     V_addc_u32 2 2,
     Flat_load_ushort 2 1,
     V_add_u32 0 (Sgpr 4) 0,
     V_mov_b32 1 (Sgpr 5),
     V_addc_u32 1 1,
     S_waitcnt True True,
     V_cvt_f32_f16 3 3,
     V_cvt_f32_f16 2 2,
     V_add_f32 3 3 2,
     V_cvt_f16_f32 3 3,
     Flat_store_short 0 3,
     S_endpgm]"

definition fp16_native_program :: "instr list" where
  "fp16_native_program = [
     S_load_dwordx2 4 0 0x10,
     S_load_dwordx4 0 0 0x00,
     V_lshlrev_b32 0 1 0,
     S_waitcnt True True,
     V_add_u32 1 (Sgpr 0) 0,
     V_mov_b32 2 (Sgpr 1),
     V_addc_u32 2 2,
     Flat_load_ushort 3 1,
     V_add_u32 1 (Sgpr 2) 0,
     V_mov_b32 2 (Sgpr 3),
     V_addc_u32 2 2,
     Flat_load_ushort 2 1,
     V_add_u32 0 (Sgpr 4) 0,
     V_mov_b32 1 (Sgpr 5),
     V_addc_u32 1 1,
     S_waitcnt True True,
     V_add_f16 3 3 2,
     Flat_store_short 0 3,
     S_endpgm]"

text \<open>A device that computes by the conversions and the addition of the host.\<close>

definition ref_alu :: alu where
  "ref_alu = \<lparr>alu_add_f32 = f32_add, alu_add_f16 = (\<lambda>a b. f2h (f32_add (h2f a) (h2f b))),
     alu_cvt_f32_f16 = h2f, alu_cvt_f16_f32 = f2h, 
     alu_cvt_f32_i32 = (\<lambda>x. if sint x < 0 then 0x80000000 OR f32_of_nat (nat (- sint x)) else f32_of_nat (nat (sint x)))\<rparr>"

section \<open>Lanes and arguments\<close>

text \<open>Byte offsets and lane numbers of a wavefront.\<close>

lemma lane_offset:
  assumes "i < 64" and "k \<le> 2"
  shows "ucast (push_bit k (of_nat i) :: u32) = (of_nat (2 ^ k * i) :: u64)"
proof -
  have "2 ^ k \<le> (2 ^ 2 :: nat)" using assms(2) by (rule power_increasing) simp
  then have "2 ^ k * i < 2 ^ 2 * 64" using assms(1) by (intro mult_le_less_imp_less) simp_all
  then have "unat (push_bit k (of_nat i) :: u32) = 2 ^ k * i"
    using assms(1) by (subst unat_push_bit) (simp_all add: mult.commute)
  moreover have "ucast (push_bit k (of_nat i) :: u32) = (of_nat (unat (push_bit k (of_nat i) :: u32)) :: u64)" by simp
  ultimately show ?thesis by (simp only:)
qed

lemma lane_number: "unat (push_bit 2 x :: u32) div 4 mod 64 = unat x mod 64"
proof -
  have "unat (push_bit 2 x) = 4 * unat x mod (4 * 2 ^ 30)"
    by (simp only: unsigned_push_bit_eq) (simp add: push_bit_eq_mult take_bit_eq_mod mult.commute)
  also have "\<dots> = 4 * (unat x mod 2 ^ 30)" by (rule mult_mod_right [symmetric])
  finally have "unat (push_bit 2 x) div 4 = unat x mod 2 ^ 30" by simp
  then show ?thesis by (simp add: mod_mod_cancel)
qed

text \<open>The three kernel arguments, loaded as pairs of scalar registers.\<close>

lemma loaded_arguments:
  "pair64 (dec_u32 (load_bytes (p + 4) 4 m)) (dec_u32 (load_bytes p 4 m)) = dec_u64 (load_bytes p 8 m)"
  "pair64 (dec_u32 (load_bytes (p + 12) 4 m)) (dec_u32 (load_bytes (p + 8) 4 m)) = dec_u64 (load_bytes (p + 8) 8 m)"
  "pair64 (dec_u32 (load_bytes (p + 20) 4 m)) (dec_u32 (load_bytes (p + 16) 4 m)) = dec_u64 (load_bytes (p + 16) 8 m)"
  "pair64 (dec_u32 (load_bytes (20 + p) 4 m)) (dec_u32 (load_bytes (p + 16) 4 m)) = dec_u64 (load_bytes (p + 16) 8 m)"
  using pair64_load [of p m] pair64_load [of "p + 8" m] pair64_load [of "p + 16" m] by (simp_all add: ac_simps)

lemma lane_offset_half: "i < 64 \<Longrightarrow> ucast (of_nat i * 2 :: u32) = (2 * of_nat i :: u64)"
  using lane_offset [of i 1] by (simp add: push_bit_eq_mult)

lemma half_register: "ucast (ucast h :: u32) = h" for h :: half
  by (rule bit_word_eqI) (simp add: bit_simps)

text \<open>What the data parallel primitives read agrees where the lanes below 64 agree.\<close>

definition same_lanes :: "'a lanes \<Rightarrow> 'a lanes \<Rightarrow> bool" where
  "same_lanes x y \<longleftrightarrow> (\<forall>i<64. x i = y i)"

lemma same_lanes_refl: "same_lanes x x"
  by (simp add: same_lanes_def)

lemma same_lanes_map: "same_lanes f g \<Longrightarrow> same_lanes (lane_map (mask 64) f old) g"
  by (simp add: same_lanes_def lane_map_def)

lemma same_lanes_v_add:
  assumes "same_lanes d d'" and "same_lanes x x'" and "same_lanes y y'"
  shows "same_lanes (v_add add bound row bank d (dpp_operand c x) y) (v_add add bound row bank d' (dpp_operand c x') y')"
proof -
  have "dpp_operand c x i = dpp_operand c x' i" if "i < 64" for i
    using assms(2) that less_imp_diff_less [of i 64] div_times_less_eq_dividend [of i 16]
    by (cases c) (auto simp: dpp_operand_def row_shr_def row_bcast15_def row_bcast31_def same_lanes_def)
  then show ?thesis using assms(1,3) by (auto simp: same_lanes_def v_add_def split: option.split)
qed

section \<open>Running them\<close>

lemmas run_rules = run_wave_halted run_wave_step halted_def step_def busy_def hazard_def Let_def
  alu_writes_def dpp_reads_def dst_regs_def lanes_of_64 lanes_of_1

lemmas wave_rules = wave_start_def load_sgprs_def set_lanes_def flat_addr_def

lemmas lane_rules = lane_map_def pair64_offset lane_offset lane_offset_half half_register lane_number elem_addr_def loaded_arguments

text \<open>The low half of an element address.\<close>

lemma low_word_address:
  assumes "i < 64"
  shows "(ucast (elem_addr 4 (dec_u64 (load_bytes p 8 m)) i) :: u32) = dec_u32 (load_bytes p 4 m) + push_bit 2 (of_nat i)"
proof -
  have "(ucast (pair64 hi lo + ucast y :: u64) :: u32) = lo + y" for hi lo y :: u32
  proof -
    have "pair64 hi lo + ucast y = pair64 (hi + of_bool (carry lo y False)) (lo + y)" by (rule pair64_offset [symmetric])
    then show ?thesis by simp
  qed
  then have "(ucast (dec_u64 (load_bytes p 8 m) + ucast (push_bit 2 (of_nat i) :: u32) :: u64) :: u32) = dec_u32 (load_bytes p 4 m) + push_bit 2 (of_nat i)"
    unfolding pair64_load [symmetric] .
  then show ?thesis using assms by (simp add: elem_addr_def lane_offset)
qed

text \<open>
  dpp_reduce.s in three parts: the eleven instructions up to the loaded input, the additions, in which
  only \<open>v1\<close> changes, and the store.
\<close>

lemma dpp_reduce_loads:
  "\<exists>w. steps A dpp_reduce_program 11 (wave_start 64 p m t undef) = Some w \<and>
     pc w = 11 \<and> exec_mask w = mask 64 \<and> pend_lgkm w = [] \<and> pend_flat w = [] \<and> recent w = (None, None) \<and> gmem w = m \<and>
     (\<forall>i<64. vreg w 0 i = dec_u32 (load_bytes (elem_addr 4 (dec_u64 (load_bytes p 8 m)) i) 4 m) \<and>
        vreg w 1 i = dec_u32 (load_bytes p 4 m) + push_bit 2 (of_nat i) \<and>
        flat_addr (vreg w) 3 i = elem_addr 4 (dec_u64 (load_bytes (p + 8) 8 m)) i)"
  by (simp add: run_rules dpp_reduce_program_def wave_rules lane_rules)

definition summing :: "wave \<Rightarrow> nat \<Rightarrow> nat option \<times> nat option \<Rightarrow> u32 lanes \<Rightarrow> wave" where
  "summing w k r v = w\<lparr>pc := k, recent := r, vreg := (vreg w)(1 := v)\<rparr>"

lemma summing_add:
  assumes w: "exec_mask w = mask 64" "pend_lgkm w = []" "pend_flat w = []"
    and add: "k < length prog" "prog ! k = V_add_f32_dpp 1 a b c bound row bank"
    and free: "fst r \<noteq> Some a" "snd r \<noteq> Some a"
    and same: "same_lanes v u"
  shows "\<exists>v'. run_wave A prog (summing w k r v) = run_wave A prog (summing w (Suc k) (Some 1, fst r) v') \<and>
    same_lanes v' (v_add (alu_add_f32 A) (if bound then Some 0 else None) row bank u
      (dpp_operand c (if a = 1 then u else vreg w a)) (if b = 1 then u else vreg w b))"
proof -
  let ?v' = "lane_map (mask 64) (v_add (alu_add_f32 A) (if bound then Some 0 else None) row bank v
      (dpp_operand c (if a = 1 then v else vreg w a)) (if b = 1 then v else vreg w b)) v"
  have "step A prog (summing w k r v) = Some (summing w (Suc k) (Some 1, fst r) ?v')"
    using w add free by (auto simp: step_def summing_def busy_def hazard_def set_lanes_def alu_writes_def dpp_reads_def)
  then have "run_wave A prog (summing w k r v) = run_wave A prog (summing w (Suc k) (Some 1, fst r) ?v')"
    using run_wave_step step_not_halted by blast
  moreover have "same_lanes ?v' (v_add (alu_add_f32 A) (if bound then Some 0 else None) row bank u
      (dpp_operand c (if a = 1 then u else vreg w a)) (if b = 1 then u else vreg w b))"
    using same by (intro same_lanes_map same_lanes_v_add) (simp_all add: same_lanes_refl)
  ultimately show ?thesis by blast
qed

lemma summing_nop:
  assumes "k < length prog" and "prog ! k = S_nop"
  shows "run_wave A prog (summing w k r v) = run_wave A prog (summing w (Suc k) (None, fst r) v)"
  using assms by (intro run_wave_step) (auto simp: step_def summing_def busy_def hazard_def halted_def alu_writes_def dpp_reads_def)

text \<open>What a sequence of additions makes of \<open>v1\<close>, given \<open>v0\<close>; \<open>None\<close> where one comes too early.\<close>

fun lane_sums :: "alu \<Rightarrow> u32 lanes \<Rightarrow> instr list \<Rightarrow> nat option \<times> nat option \<Rightarrow> u32 lanes \<Rightarrow> u32 lanes option" where
  "lane_sums A x (V_add_f32_dpp d a b c bound row bank # is) r u =
     (if d \<noteq> 1 \<or> a \<notin> {0, 1} \<or> b \<notin> {0, 1} \<or> Some a \<in> {fst r, snd r} then None else
      lane_sums A x is (Some 1, fst r)
       (v_add (alu_add_f32 A) (if bound then Some 0 else None) row bank u
         (dpp_operand c (if a = 1 then u else x)) (if b = 1 then u else x)))"
| "lane_sums A x (S_nop # is) r u = lane_sums A x is (None, fst r) u"
| "lane_sums A x [] r u = Some u"
| "lane_sums A x is r u = None"

lemma summing_run:
  assumes "exec_mask w = mask 64" "pend_lgkm w = []" "pend_flat w = []"
  shows "take (length is) (drop k prog) = is \<Longrightarrow> lane_sums A (vreg w 0) is r u = Some y \<Longrightarrow> same_lanes v u \<Longrightarrow>
    \<exists>v' r'. run_wave A prog (summing w k r v) = run_wave A prog (summing w (k + length is) r' v') \<and> same_lanes v' y"
proof (induction A "vreg w 0" "is" r u arbitrary: k v rule: lane_sums.induct)
  case (1 A d a b c bound row bank "is" r u)
  have ok: "d = 1" "a = 0 \<or> a = 1" "b = 0 \<or> b = 1" "fst r \<noteq> Some a" "snd r \<noteq> Some a"
    and y: "lane_sums A (vreg w 0) is (Some 1, fst r) (v_add (alu_add_f32 A) (if bound then Some 0 else None) row bank u
      (dpp_operand c (if a = 1 then u else vreg w 0)) (if b = 1 then u else vreg w 0)) = Some y"
    using 1(3) by (auto split: if_splits)
  note code = segment_Cons [OF 1(2)]
  have ab: "(if a = 1 then u else vreg w a) = (if a = 1 then u else vreg w 0)" "(if b = 1 then u else vreg w b) = (if b = 1 then u else vreg w 0)"
    using ok by auto
  obtain v' where v': "run_wave A prog (summing w k r v) = run_wave A prog (summing w (Suc k) (Some 1, fst r) v')"
    "same_lanes v' (v_add (alu_add_f32 A) (if bound then Some 0 else None) row bank u
      (dpp_operand c (if a = 1 then u else vreg w 0)) (if b = 1 then u else vreg w 0))"
    using summing_add [OF assms code(1) code(2) [unfolded ok(1)] ok(4,5) 1(4)] unfolding ab by blast
  have "\<not> (d \<noteq> 1 \<or> a \<notin> {0, 1} \<or> b \<notin> {0, 1} \<or> Some a \<in> {fst r, snd r})" using ok by auto
  from 1(1) [OF this code(3) y v'(2)] show ?case unfolding v'(1) by simp
next
  case (2 A "is" r u)
  note code = segment_Cons [OF 2(2)]
  from 2(1) [OF code(3) _ 2(4)] 2(3) show ?case unfolding summing_nop [OF code(1,2)] by simp
qed auto

lemma dpp_operand_simps:
  "dpp_operand (Row_shr k) x = row_shr k x" "dpp_operand Row_bcast15 x = row_bcast15 x" "dpp_operand Row_bcast31 x = row_bcast31 x"
  by (simp_all add: dpp_operand_def fun_eq_iff)

lemma dpp_lanes_same:
  assumes "same_lanes v0 a" and "same_lanes v1 b"
  shows "same_lanes (dpp_lanes add z v0 v1) (dpp_lanes add z a b)"
  unfolding dpp_lanes_def Let_def dpp_operand_simps [symmetric]
  by (intro same_lanes_v_add assms)

lemma dpp_reduce_sums:
  "lane_sums A x (take 15 (drop 11 dpp_reduce_program)) (None, None) u = Some (dpp_lanes (alu_add_f32 A) 0 x u)"
  by (simp add: dpp_reduce_program_def dpp_lanes_def Let_def dpp_operand_simps)

lemma dpp_reduce_run:
  assumes "alu_add_f32 A = f32_add"
  shows "\<exists>w. run_wave A dpp_reduce_program (wave_start 64 (kernarg_address p) m t undef) = Some w \<and> gmem w = dpp_reduce_kernel p m"
proof -
  obtain w where start: "steps A dpp_reduce_program 11 (wave_start 64 (kernarg_address p) m t undef) = Some w"
    and w: "pc w = 11" "exec_mask w = mask 64" "pend_lgkm w = []" "pend_flat w = []" "recent w = (None, None)" "gmem w = m"
    and in_: "\<And>i. i < 64 \<Longrightarrow> vreg w 0 i = dec_u32 (load_bytes (elem_addr 4 (dec_u64 (load_bytes (kernarg_address p) 8 m)) i) 4 m)"
    and low: "\<And>i. i < 64 \<Longrightarrow> vreg w 1 i = ucast (elem_addr 4 (dec_u64 (load_bytes (kernarg_address p) 8 m)) i)"
    and out: "\<And>i. i < 64 \<Longrightarrow> flat_addr (vreg w) 3 i = elem_addr 4 (dec_u64 (load_bytes (kernarg_address p + 8) 8 m)) i"
    using dpp_reduce_loads [of A "kernarg_address p" m t undef] low_word_address by (auto simp del: upt_rec_numeral)
  let ?run = "\<lambda>w. run_wave A dpp_reduce_program w"
  have "?run (wave_start 64 (kernarg_address p) m t undef) = ?run (summing w 11 (None, None) (vreg w 1))"
  proof -
    have "summing w 11 (None, None) (vreg w 1) = w" using w by (simp add: summing_def)
    then show ?thesis using run_wave_steps [OF start] by simp
  qed
  moreover obtain r v where "?run (summing w 11 (None, None) (vreg w 1)) = ?run (summing w 26 r v)"
    and v: "same_lanes v (dpp_lanes f32_add 0 (vreg w 0) (vreg w 1))"
  proof -
    have "length (take 15 (drop 11 dpp_reduce_program)) = 15" by (simp add: dpp_reduce_program_def)
    then show ?thesis
      using that summing_run [OF w(2-4) _ dpp_reduce_sums same_lanes_refl, of 11 dpp_reduce_program A "vreg w 1"]
      by (auto simp: assms)
  qed
  moreover have "?run (summing w 26 r v) =
      Some (summing w 27 (None, fst r) v\<lparr>gmem := fold (\<lambda>i. store_bytes (flat_addr (vreg w) 3 i) (enc_u32 (v i))) [0..<64] m\<rparr>)"
    by (simp add: run_rules dpp_reduce_program_def summing_def w flat_addr_def del: upt_rec_numeral)
  moreover have "fold (\<lambda>i. store_bytes (flat_addr (vreg w) 3 i) (enc_u32 (v i))) [0..<64] m = dpp_reduce_kernel p m"
  proof -
    let ?in = "dec_u64 (load_bytes (kernarg_address p) 8 m)"
    have "same_lanes (dpp_lanes f32_add 0 (vreg w 0) (vreg w 1))
        (dpp_lanes f32_add 0 (\<lambda>i. dec_u32 (load_bytes (elem_addr 4 ?in i) 4 m)) (\<lambda>i. ucast (elem_addr 4 ?in i)))"
      by (rule dpp_lanes_same) (simp_all add: same_lanes_def in_ low [simplified])
    with v show ?thesis
      unfolding dpp_reduce_kernel_def fill_def Let_def
      by (intro fold_cong refl) (simp add: same_lanes_def out del: upt_rec_numeral)
  qed
  ultimately show ?thesis by simp
qed

lemma asm_kernel_run:
  "\<exists>w. run_wave A asm_kernel_program (wave_start 1 (kernarg_address p) m t undef) = Some w \<and> gmem w = asm_kernel p m"
  by (simp add: run_rules asm_kernel_program_def wave_rules lane_map_def pair64_load asm_kernel_def)

lemma ds_bpermute_run:
  "\<exists>w. run_wave A ds_bpermute_program (wave_start 64 (kernarg_address p) m t undef) = Some w \<and> gmem w = ds_bpermute_kernel p m"
  apply (simp add: run_rules ds_bpermute_program_def wave_rules del: upt_rec_numeral)
  unfolding ds_bpermute_kernel_def fill_def Let_def
  by (rule fold_cong [OF refl refl]) (simp add: lane_rules del: upt_rec_numeral)

lemma fp16_storage_run:
  "\<exists>w. run_wave A fp16_storage_program (wave_start 64 (kernarg_address p) m t undef) = Some w \<and>
     gmem w = half_add_kernel (\<lambda>a b. alu_cvt_f16_f32 A (alu_add_f32 A (alu_cvt_f32_f16 A a) (alu_cvt_f32_f16 A b))) p m"
  apply (simp add: run_rules fp16_storage_program_def wave_rules del: upt_rec_numeral)
  unfolding half_add_kernel_def fill_def Let_def
  by (rule fold_cong [OF refl refl]) (simp add: lane_rules del: upt_rec_numeral)

lemma fp16_native_run:
  "\<exists>w. run_wave A fp16_native_program (wave_start 64 (kernarg_address p) m t undef) = Some w \<and>
     gmem w = half_add_kernel (alu_add_f16 A) p m"
  apply (simp add: run_rules fp16_native_program_def wave_rules del: upt_rec_numeral)
  unfolding half_add_kernel_def fill_def Let_def
  by (rule fold_cong [OF refl refl]) (simp add: lane_rules del: upt_rec_numeral)

section \<open>The claims\<close>

text \<open>
  C8. The kernels asm-kernel.s, ds_bpermute.s, fp16_storage.s and fp16_native.s, instruction by
  instruction: started on one work-item and on 64 with the argument address of a packet, each
  runs to its end without touching a register that a load has not yet delivered, and leaves the
  memory as the effect on which the verification of the host programs rests. fp16_storage.s adds in
  single precision, fp16_native.s in half precision.
\<close>

theorem kernels_refine:
  "(\<exists>w. run_wave A asm_kernel_program (wave_start 1 (kernarg_address p) m t undef) = Some w \<and> gmem w = asm_kernel p m) \<and>
   (\<exists>w. run_wave A ds_bpermute_program (wave_start 64 (kernarg_address p) m t undef) = Some w \<and>
      gmem w = ds_bpermute_kernel p m) \<and>
   (\<exists>w. run_wave A fp16_storage_program (wave_start 64 (kernarg_address p) m t undef) = Some w \<and>
      gmem w = half_add_kernel
        (\<lambda>a b. alu_cvt_f16_f32 A (alu_add_f32 A (alu_cvt_f32_f16 A a) (alu_cvt_f32_f16 A b))) p m) \<and>
   (\<exists>w. run_wave A fp16_native_program (wave_start 64 (kernarg_address p) m t undef) = Some w \<and>
      gmem w = half_add_kernel (alu_add_f16 A) p m)"
  by (intro conjI asm_kernel_run ds_bpermute_run fp16_storage_run fp16_native_run)

text \<open>
  C9. The kernel dpp_reduce.s, instruction by instruction, on a device that adds floats by the
  IEEE rules: it runs to its end, so its \<open>s_nop\<close>s keep every data parallel primitive two
  instructions away from the result it reads, and it stores the prefix sums. When the 64 elements of the
  first argument are the floats of natural numbers below \<open>2 ^ 17\<close>, element \<open>l\<close> of the second
  argument becomes the float of the sum of the numbers up to \<open>l\<close>, exactly, and nothing else is written.
\<close>

theorem dpp_reduce_refines:
  assumes "alu_add_f32 A = f32_add"
    and "\<And>k. k < 64 \<Longrightarrow>
      dec_u32 (load_bytes (elem_addr 4 (dec_u64 (load_bytes args 8 m)) k) 4 m) = f32_of_nat (a k) \<and> a k < 2 ^ 17"
  shows "\<exists>w. run_wave A dpp_reduce_program (wave_start 64 args m t undef) = Some w \<and>
     gmem w = fill 4 enc_u32 (dec_u64 (load_bytes (args + 8) 8 m)) (\<lambda>l. f32_of_nat (\<Sum>k\<le>l. a k)) 64 m"
proof -
  let ?p = "ref_packet\<lparr>kernarg_address := args\<rparr>"
  define v0 where "v0 = (\<lambda>i. dec_u32 (load_bytes (elem_addr 4 (dec_u64 (load_bytes args 8 m)) i) 4 m))"
  have "holds (2 ^ 17 - 1) v0 a" using assms(2) by (fastforce simp: holds_def v0_def)
  then have "dpp_lanes f32_add 0 v0 v1 l = f32_of_nat (\<Sum>k\<le>l. a k)" if "l < 64" for v1 l
    using dpp_lanes_f32 [of "2 ^ 17 - 1" v0 a l v1] that by (simp add: atMost_atLeast0)
  then have "dpp_reduce_kernel ?p m =
      fill 4 enc_u32 (dec_u64 (load_bytes (args + 8) 8 m)) (\<lambda>l. f32_of_nat (\<Sum>k\<le>l. a k)) 64 m"
    unfolding dpp_reduce_kernel_def Let_def fill_def by (intro fold_cong) (simp_all add: v0_def del: upt_rec_numeral)
  then show ?thesis using dpp_reduce_run [OF assms(1), of ?p m t undef] by simp
qed

theorem dpp_reduce_refines_witness:
  "\<exists>m w. run_wave ref_alu dpp_reduce_program (wave_start 64 0x2000 m 0 blank_wave) = Some w \<and>
     gmem w = fill 4 enc_u32 (dec_u64 (load_bytes 0x2008 8 m)) (\<lambda>l. f32_of_nat (\<Sum>k\<le>l. k)) 64 m"
proof -
  obtain es m where run: "DppReduce_Setup (ref_hsa (\<lambda>p m. m)) (ref_ready 0 ref_dpp_members) = (Inr True, ref_dpp_staged 0 es m)"
    using ref_dpp_setup by blast
  obtain ib ob where st: "DppReduce_staged ib ob (ref_dpp_staged 0 es m)"
    using DppReduce_Setup_staged [OF ref_copies ref_dpp_fields(7) run ref_dpp_separate] by blast
  have sz: "buf_size ib = 256" and args: "arguments 0x2000 [ib, ob] m"
    and el: "\<And>i. i < 64 \<Longrightarrow> element 4 dec_u32 (device_view ib m) i = f32_of_nat i"
    using st by (simp_all add: DppReduce_staged_def ref_dpp_fields ref_launch_def)
  have "dec_u64 (load_bytes 0x2000 8 m) = local_ptr ib" using args by (auto simp: arguments_def)
  then have "dec_u32 (load_bytes (elem_addr 4 (dec_u64 (load_bytes 0x2000 8 m)) k) 4 m) = f32_of_nat k \<and> k < 2 ^ 17" if "k < 64" for k
    using that el [OF that] sz element_device_view [of 4 k ib dec_u32 m] by simp
  from dpp_reduce_refines [of ref_alu, OF _ this, of 0 blank_wave] show ?thesis by (auto simp: ref_alu_def)
qed

end
