(* ===== verification/Packet_Device.thy ===== *)
theory Packet_Device
  imports Gcn_Kernels
begin

text \<open>
  The device behind the runtime: what it makes of a packet that was published to it. The runtime and the
  device are parameters of the model; here is what they are taken to do with the packet that the doorbell
  names, so that host program and kernel can be put together, and the proof that the packet the stages
  prepare is one that makes the device run the kernel on the work-items and arguments meant.
\<close>

section \<open>The contract\<close>

text \<open>
  The number of work-items of a packet, as far as the machine of \<open>Gcn\<close> has a meaning for it: a kernel
  dispatch in one dimension with acquire and release fences of system scope, whose grid is one work-group
  that fits into a wavefront.
\<close>

definition wavefront :: "packet \<Rightarrow> nat option" where
  "wavefront p =
     (if take_bit 8 (pkt_header p) = 2 \<and> take_bit 2 (drop_bit 9 (pkt_header p)) = 2 \<and> take_bit 2 (drop_bit 11 (pkt_header p)) = 2 \<and>
         take_bit 2 (pkt_setup p) = 1 \<and> grid_size_y p = 1 \<and> grid_size_z p = 1 \<and> workgroup_size_y p = 1 \<and> workgroup_size_z p = 1 \<and>
         grid_size_x p = ucast (workgroup_size_x p) \<and> 0 < unat (workgroup_size_x p) \<and> unat (workgroup_size_x p) \<le> 64
      then Some (unat (workgroup_size_x p)) else None)"

text \<open>
  A memory after a packet is executed. The program is that of the packet's kernel object, started on the
  packet's argument address at any time and with any rest in the registers. Nothing is said of a packet
  that is no single wavefront, of an object that names no program, or of a program that gets stuck.
\<close>

definition performs :: "alu \<Rightarrow> (u64 \<Rightarrow> instr list option) \<Rightarrow> packet \<Rightarrow> memory \<Rightarrow> memory \<Rightarrow> bool" where
  "performs A code p m m' \<longleftrightarrow> (\<forall>lanes prog. wavefront p = Some lanes \<longrightarrow> code (kernel_object p) = Some prog \<longrightarrow>
     (\<exists>t undef. case run_wave A prog (wave_start lanes (kernarg_address p) m t undef) of
        Some w \<Rightarrow> m' = gmem w | None \<Rightarrow> True))"

text \<open>
  The device serves a queue. \<open>pending r\<close> is the packet index that the doorbell was last rung with, until
  the packet is complete: ringing sets it and reading the clock keeps it. A wait on the completion signal of
  that packet, in the slot of its index, either gives up with a value other than 0, and the packet
  is still pending, or it returns 0, and the packet has been executed on the memory as it was.
\<close>

definition carries_out :: "'r hsa \<Rightarrow> alu \<Rightarrow> (u64 \<Rightarrow> instr list option) \<Rightarrow> hsa_queue \<Rightarrow> ('r \<Rightarrow> u64 option) \<Rightarrow> bool" where
  "carries_out H A code q pending \<longleftrightarrow>
     (\<forall>i r. pending (api_signal_store H (q_doorbell q) i r) = Some i) \<and>
     (\<forall>r. pending (snd (api_clock H r)) = pending r) \<and>
     (\<forall>i g m r. pending r = Some i \<longrightarrow> (let p = g (i AND ucast (q_size q - 1)) in
        case api_signal_wait H (completion_signal p) g m r of ((v, g', m'), r') \<Rightarrow>
          if v = 0 then performs A code p m m' else g' = g \<and> m' = m \<and> pending r' = Some i))"

text \<open>The symbol \<open>hello_world\<close> of a loaded executable is the kernel of the example.\<close>

definition names_program :: "'r hsa \<Rightarrow> (u64 \<Rightarrow> instr list option) \<Rightarrow> instr list \<Rightarrow> bool" where
  "names_program H code prog \<longleftrightarrow> (\<forall>exe a r sym ko.
     api_executable_get_symbol H exe ''hello_world'' a r = (HSA_STATUS_SUCCESS, sym) \<longrightarrow>
     api_symbol_kernel_object H sym r = (HSA_STATUS_SUCCESS, ko) \<longrightarrow> code ko = Some prog)"

section \<open>What the stages keep\<close>

text \<open>The members of a subclass, by the stages of the base class.\<close>

definition same_members :: "('r, 'z) Dispatch_scheme \<Rightarrow> ('r, 'z) Dispatch_scheme \<Rightarrow> bool" where
  "same_members s t \<longleftrightarrow> Dispatch.more t = Dispatch.more s"

interpretation same_members: frame same_members
  by unfold_locales (simp_all add: same_members_def)

lemma touches_same_members: "stable touches_memory m \<Longrightarrow> stable same_members m"
  by (erule stable_mono) (auto simp: touches_memory_def same_members_def)

lemma same_members_hsa_check: "stable same_members m \<Longrightarrow> stable same_members (hsa_check H msg st m)"
  by (simp add: hsa_check_def touches_same_members touches_HsaError)

lemma same_members_LoadCodeObjectFromFile: "stable same_members (LoadCodeObjectFromFile H f)"
  unfolding LoadCodeObjectFromFile_def AllocateSystemMemory_def hsa_memory_allocate_def hsa_query_def Let_def
  by (intro same_members.stable_bind same_members.stable_gets same_members.stable_case_option same_members.stable_ret
      same_members.stable_if same_members.stable_case_prod same_members_hsa_check
      touches_put [THEN touches_same_members] touches_hsa_call [THEN touches_same_members] touches_HsaError [THEN touches_same_members]
      stable_modify)
     (simp_all add: same_members_def)

lemma SetupExecutable_run:
  assumes "SetupExecutable H L s = (Inr True, t)" and "stable same_members L"
  shows "Dispatch.more t = Dispatch.more s \<and> (\<exists>exe a r sym.
    api_executable_get_symbol H exe ''hello_world'' a r = (HSA_STATUS_SUCCESS, sym) \<and>
    api_symbol_kernel_object H sym r = (HSA_STATUS_SUCCESS, kernel_object (ring t (aql t))))"
proof -
  obtain u where u: "L s = (Inr True, u)"
    using assms(1) unfolding SetupExecutable_def by (elim bind_elim [of L] if_ret_False_elim) simp
  have "Dispatch.more u = Dispatch.more s" using stableD [OF assms(2) u] by (simp add: same_members_def)
  then show ?thesis
    using assms(1) u
    by (auto simp: SetupExecutable_def exec hsa_call_def HsaError_def Let_def split: prod.splits if_splits) blast
qed

text \<open>The kernel of the claimed packet, by what \<open>Setup\<close> does.\<close>

definition same_kernel :: "('r, 'z) Dispatch_scheme \<Rightarrow> ('r, 'z) Dispatch_scheme \<Rightarrow> bool" where
  "same_kernel s t \<longleftrightarrow> aql t = aql s \<and> kernel_object (ring t (aql t)) = kernel_object (ring s (aql s))"

interpretation same_kernel: frame same_kernel
  by unfold_locales (auto simp: same_kernel_def)

lemma touches_same_kernel: "stable touches_memory m \<Longrightarrow> stable same_kernel m"
  by (erule stable_mono) (auto simp: touches_memory_def same_kernel_def)

lemmas same_kernel_touches = touches_AllocateBuffer [THEN touches_same_kernel] touches_CopyTo [THEN touches_same_kernel]
  touches_write_data [THEN touches_same_kernel] touches_put [THEN touches_same_kernel]

lemma same_kernel_updates:
  "stable same_kernel (SetGridSize x y z)" "stable same_kernel (SetWorkgroupSize a b c)"
  "stable same_kernel (KernargRaw src n al)" "stable same_kernel (Kernarg bp)" "stable same_kernel (AllocateKernarg H k)"
proof -
  show raw: "stable same_kernel (KernargRaw src n al)" for src n al
    unfolding KernargRaw_def
    by (intro same_kernel.stable_bind same_kernel.stable_assert same_kernel.stable_if same_kernel.stable_raise stable_modify)
       (simp_all add: same_kernel_def)
  show "stable same_kernel (Kernarg bp)"
    unfolding Kernarg_def by (intro same_kernel.stable_bind same_kernel.stable_deref raw)
qed (auto simp: stable_def same_kernel_def SetGridSize_def SetWorkgroupSize_def AllocateKernarg_def hsa_memory_allocate_def
      hsa_call_def exec split: prod.splits)

lemma same_kernel_fail_with: "stable same_kernel (fail_with msg)"
  unfolding fail_with_def by (intro same_kernel.stable_bind same_kernel.stable_ret same_kernel_touches)

lemmas same_kernel_intros = same_kernel.stable_bind same_kernel.stable_ret same_kernel.stable_gets same_kernel.stable_if
  same_kernel.stable_for_each same_kernel.stable_Let same_kernel_touches same_kernel_updates same_kernel_fail_with

lemma same_kernel_Setups:
  "stable same_kernel (AsmKernel_Setup H)" "stable same_kernel (DsBPermute_Setup H)"
  "stable same_kernel (DppReduce_Setup H)" "stable same_kernel (HalfVectorAdd_Setup H)"
  unfolding AsmKernel_Setup_def DsBPermute_Setup_def DppReduce_Setup_def HalfVectorAdd_Setup_def and_then_def
  by (intro same_kernel_intros stable_modify; simp add: same_kernel_def)+

section \<open>Up to publication\<close>

text \<open>What the stages before publication make of the claimed packet, apart from what \<open>Setup\<close> puts into it.\<close>

lemma before_publication_packet:
  assumes ex: "example (SetupExecutable H L) vSetup vVerify"
    and before: "before_publication H (SetupExecutable H L) vSetup s0 = (Inr True, s)"
    and members: "stable same_members L" and kernel: "stable same_kernel vSetup"
  shows "\<exists>q s3. queue s = Some q \<and> aql s = packet_index s AND ucast (q_size q - 1) \<and>
    completion_signal (ring s (aql s)) = signal s \<and>
    (names_program H code prog \<longrightarrow> code (kernel_object (ring s (aql s))) = Some prog) \<and>
    vSetup s3 = (Inr True, s) \<and> Dispatch.more s3 = Dispatch.more s0"
proof -
  obtain s1 s2 s3 where init: "Init H s0 = (Inr True, s1)" and claim: "InitDispatch H s1 = (Inr True, s2)"
    and exe: "SetupExecutable H L s2 = (Inr True, s3)" and prep: "vSetup s3 = (Inr True, s)"
    using before unfolding before_publication_def and_then_True by blast
  obtain q where q: "queue s1 = Some q" and m1: "Dispatch.more s1 = Dispatch.more s0"
    using Init_cases [where H = H and s = s0] init by (auto simp: init_done_def)
  obtain i r where "api_queue_add_write_index H 1 (rt s1) = (i, r)" by fastforce
  then have s2: "queue s2 = Some q" "aql s2 = packet_index s2 AND ucast (q_size q - 1)"
      "completion_signal (ring s2 (aql s2)) = signal s2" "Dispatch.more s2 = Dispatch.more s1"
    using claim q by (auto simp: InitDispatch_run Let_def fresh_packet_def)
  have quiet: "quiet s2 s3" "quiet s3 s"
    using stableD [OF example.quiet_SetupExecutable [OF ex] exe] stableD [OF example.quiet_Setup [OF ex] prep] .
  obtain exe a r sym where m3: "Dispatch.more s3 = Dispatch.more s2"
    and sym: "api_executable_get_symbol H exe ''hello_world'' a r = (HSA_STATUS_SUCCESS, sym)"
      "api_symbol_kernel_object H sym r = (HSA_STATUS_SUCCESS, kernel_object (ring s3 (aql s3)))"
    using SetupExecutable_run [OF exe members] by blast
  have "kernel_object (ring s (aql s)) = kernel_object (ring s3 (aql s3))"
    using stableD [OF kernel prep] by (auto simp: same_kernel_def)
  then have "names_program H code prog \<longrightarrow> code (kernel_object (ring s (aql s))) = Some prog"
    using sym by (auto simp: names_program_def)
  then show ?thesis using quiet s2 prep m1 m3 by (auto simp: quiet_def)
qed

section \<open>Publication and waiting\<close>

lemma carries_out_wait:
  assumes "carries_out H A code q pending" and "pending r = Some i"
    and "completion_signal (g (i AND ucast (q_size q - 1))) = sig"
    and "api_signal_wait H sig g m r = ((v, g', m'), r')"
  shows "if v = 0 then performs A code (g (i AND ucast (q_size q - 1))) m m' else g' = g \<and> m' = m \<and> pending r' = Some i"
proof -
  have "\<forall>i g m r. pending r = Some i \<longrightarrow> (let p = g (i AND ucast (q_size q - 1)) in
        case api_signal_wait H (completion_signal p) g m r of ((v, g', m'), r') \<Rightarrow>
          if v = 0 then performs A code p m m' else g' = g \<and> m' = m \<and> pending r' = Some i)"
    using assms(1) unfolding carries_out_def by blast
  from this [rule_format, OF assms(2), of g m] show ?thesis by (simp add: Let_def assms(3,4))
qed

text \<open>While the wait goes on, packets and memory stay, and the packet is pending.\<close>

lemma env_pending:
  assumes dev: "carries_out H A code q pending" and pend: "pending (rt s) = Some i"
    and sig: "completion_signal (ring s (i AND ucast (q_size q - 1))) = signal s"
  shows "(\<And>k. k < n \<Longrightarrow> signal_in H s k \<noteq> 0) \<Longrightarrow> \<exists>r. env_before H s n = (ring s, mem s, r) \<and> pending r = Some i"
proof (induction n)
  case 0
  then show ?case using dev pend by (simp add: carries_out_def)
next
  case (Suc n)
  obtain r where r: "env_before H s n = (ring s, mem s, r)" "pending r = Some i" using Suc by auto
  obtain v g m r' where w: "api_signal_wait H (signal s) (ring s) (mem s) r = ((v, g, m), r')" by (metis surj_pair)
  obtain now r'' where c: "api_clock H r' = (now, r'')" by fastforce
  have "v \<noteq> 0" using Suc.prems [of n] by (simp add: signal_in_def r wait_once_def w c Let_def)
  then have "g = ring s \<and> m = mem s \<and> pending r' = Some i"
    using carries_out_wait [OF dev r(2) sig w] by simp
  moreover have "pending r'' = pending r'" using dev c by (metis carries_out_def snd_conv)
  ultimately show ?case by (simp add: r wait_once_def w c Let_def)
qed

lemma Wait_True:
  assumes dev: "carries_out H A code q pending" and pend: "pending (rt s) = Some i"
    and sig: "completion_signal (ring s (i AND ucast (q_size q - 1))) = signal s"
    and run: "Wait H s = (Inr True, t)"
  shows "performs A code (ring s (i AND ucast (q_size q - 1))) (mem s) (mem t) \<and> Dispatch.more t = Dispatch.more s"
proof -
  have "\<not> (\<forall>n. goes_on H s n)" using Wait_diverges [of H s] run by auto
  then obtain n where n: "\<not> goes_on H s n" "\<And>k. k < n \<Longrightarrow> goes_on H s k" using first_stop by metis
  obtain r where r: "env_before H s n = (ring s, mem s, r)" "pending r = Some i"
    using env_pending [OF dev pend sig, of n] n(2) by (auto simp: goes_on_def)
  obtain v g m r' where w: "api_signal_wait H (signal s) (ring s) (mem s) r = ((v, g, m), r')" by (metis surj_pair)
  obtain now r'' where c: "api_clock H r' = (now, r'')" by fastforce
  have e: "env_before H s (Suc n) = (g, m, r'')" by (simp add: r wait_once_def w c Let_def)
  have "Wait H s = (let late = wait_limit H < elapsed_in H s n in
     (Inr (\<not> late), (having_waited (Suc n) (g, m, r'') s)
        \<lparr>out_stream := out_stream s @ (if late then timeout_report (elapsed_in H s n) else [])\<rparr>))"
    unfolding e [symmetric] by (rule Wait_ends) (use n in simp_all)
  then have within: "\<not> wait_limit H < elapsed_in H s n" and t: "mem t = m" "Dispatch.more t = Dispatch.more s"
    using run by (auto simp: Let_def having_waited_def)
  have "v = 0" using n(1) within by (simp add: goes_on_def signal_in_def r wait_once_def w c Let_def)
  then show ?thesis using carries_out_wait [OF dev r(2) sig w] t by simp
qed

text \<open>The published packet is a wavefront, and so its program has run.\<close>

lemma launched:
  assumes const: "documented_constants H" and q: "queue s = Some q" "aql s = packet_index s AND ucast (q_size q - 1)"
    and sig: "completion_signal (ring s (aql s)) = signal s"
    and dev: "carries_out H A code q pending" and code: "code (kernel_object (ring s (aql s))) = Some prog"
    and launch: "launch (ucast g) g (ring s (aql s))" "0 < unat g" "unat g \<le> 64"
    and run: "and_then (RunDispatch H) (Wait H) s = (Inr True, s')"
    and ends: "\<And>t undef. \<exists>w. run_wave A prog (wave_start (unat g) (kernarg_address (ring s (aql s))) (mem s) t undef) = Some w \<and> gmem w = m"
  shows "mem s' = m \<and> Dispatch.more s' = Dispatch.more s"
proof -
  obtain s1 where d: "RunDispatch H s = (Inr True, s1)" and w: "Wait H s1 = (Inr True, s')"
    using run unfolding and_then_True by blast
  have setup0: "PACKET_SETUP_DIMENSIONS H = 0" using const by (simp add: documented_constants_def)
  define p where "p = (ring s (aql s))\<lparr>group_segment_size := group_static_size s + group_dynamic_size s,
      pkt_header := 0x1502, pkt_setup := 1\<rparr>"
  have "packet_dim (ring s (aql s)) = 1" using launch(1) by (simp add: packet_dim_cases launch_def)
  then have s1: "ring s1 = (ring s)(aql s := p)" "rt s1 = api_signal_store H (q_doorbell q) (packet_index s) (rt s)"
      "mem s1 = mem s" "signal s1 = signal s" "Dispatch.more s1 = Dispatch.more s"
    using d by (auto simp: RunDispatch_run [OF setup0 q(1)] Let_def p_def packet_header_documented [OF const])
  have "pending (rt s1) = Some (packet_index s)" using dev by (simp add: s1 carries_out_def)
  moreover have at: "ring s1 (packet_index s AND ucast (q_size q - 1)) = p" by (simp add: s1 flip: q(2))
  moreover have "completion_signal p = signal s1" using sig by (simp add: p_def s1)
  ultimately have ran: "performs A code p (mem s) (mem s')" "Dispatch.more s' = Dispatch.more s"
    using Wait_True [OF dev _ _ w, of "packet_index s"] by (simp_all add: s1)
  have "wavefront p = Some (unat g)" using launch by (simp add: wavefront_def p_def launch_def)
  moreover have "code (kernel_object p) = Some prog" using code by (simp add: p_def)
  ultimately obtain t undef where "case run_wave A prog (wave_start (unat g) (kernarg_address p) (mem s) t undef) of
      Some w \<Rightarrow> mem s' = gmem w | None \<Rightarrow> True"
    using ran(1) unfolding performs_def by blast
  moreover obtain w where "run_wave A prog (wave_start (unat g) (kernarg_address p) (mem s) t undef) = Some w" "gmem w = m"
    using ends [of t undef] by (auto simp: p_def)
  ultimately show ?thesis using ran(2) by simp
qed

end
