(* ===== verification/S_Memrealtime.thy ===== *)
theory S_Memrealtime
  imports Reference_Run
begin

text \<open>
  examples/gfx8/s_memrealtime.cpp and s_memrealtime_inline.cpp, whose classes differ only in the code object
  they load: a kernel that waits for a number of ticks of the real time counter, which
  the host passes by value. The kernels are in the theory \<open>S_Memrealtime_Kernel\<close>.
\<close>

section \<open>The class\<close>

text \<open>The class \<open>SMemRealtimeDispatch\<close> adds no members and does not override \<open>Verify\<close>.\<close>

definition SMemRealtimeDispatch :: "'r Dispatch \<Rightarrow> 'r Dispatch" where
  "SMemRealtimeDispatch storage = Dispatch_Dispatch storage"

definition SMemRealtime_SetupCodeObject :: "'r hsa \<Rightarrow> ('r Dispatch, bool) prog" where
  "SMemRealtime_SetupCodeObject H = LoadCodeObjectFromFile H ''s_memrealtime.co''"

definition SMemRealtime_Setup :: "'r hsa \<Rightarrow> ('r Dispatch, bool) prog" where
  "SMemRealtime_Setup H =
     bind (AllocateKernarg H 8) (\<lambda>ok.
     if \<not> ok then ret False else
     let ticks_to_wait = 27000000 :: u64 in
     bind (KernargRaw (enc_u64 ticks_to_wait) 8 1) (\<lambda>_.
     bind (SetGridSize 1 1 1) (\<lambda>_.
     bind (SetWorkgroupSize 1 1 1) (\<lambda>_.
     ret True))))"

definition SMemRealtime_main :: "'r hsa \<Rightarrow> 'r Dispatch \<Rightarrow> (fault + int) \<times> 'r Dispatch" where
  "SMemRealtime_main H storage =
     RunMain H (SetupExecutable H (SMemRealtime_SetupCodeObject H)) (SMemRealtime_Setup H) Verify
       (SMemRealtimeDispatch storage)"

text \<open>The class of s_memrealtime_inline.cpp.\<close>

definition SMemRealtime_inline :: "'r Dispatch \<Rightarrow> 'r Dispatch" where
  "SMemRealtime_inline storage = Dispatch_Dispatch storage"

definition SMemRealtime_inline_SetupCodeObject :: "'r hsa \<Rightarrow> ('r Dispatch, bool) prog" where
  "SMemRealtime_inline_SetupCodeObject H = LoadCodeObjectFromFile H ''s_memrealtime_inline.co''"

definition SMemRealtime_inline_Setup :: "'r hsa \<Rightarrow> ('r Dispatch, bool) prog" where
  "SMemRealtime_inline_Setup H =
     bind (AllocateKernarg H 8) (\<lambda>ok.
     if \<not> ok then ret False else
     let ticks_to_wait = 27000000 :: u64 in
     bind (KernargRaw (enc_u64 ticks_to_wait) 8 1) (\<lambda>_.
     bind (SetGridSize 1 1 1) (\<lambda>_.
     bind (SetWorkgroupSize 1 1 1) (\<lambda>_.
     ret True))))"

definition SMemRealtime_inline_main :: "'r hsa \<Rightarrow> 'r Dispatch \<Rightarrow> (fault + int) \<times> 'r Dispatch" where
  "SMemRealtime_inline_main H storage =
     RunMain H (SetupExecutable H (SMemRealtime_inline_SetupCodeObject H)) (SMemRealtime_inline_Setup H) Verify
       (SMemRealtime_inline storage)"

lemma SMemRealtime_inline_class:
  "SMemRealtime_inline = SMemRealtimeDispatch" "SMemRealtime_inline_Setup = SMemRealtime_Setup"
  by (simp_all add: fun_eq_iff SMemRealtime_inline_def SMemRealtimeDispatch_def SMemRealtime_inline_Setup_def SMemRealtime_Setup_def)

lemma quiet_SMemRealtime_Setup: "stable quiet (SMemRealtime_Setup H)"
  unfolding SMemRealtime_Setup_def by (intro stable_intros)

lemma quiet_base_Verify: "stable quiet Verify"
  unfolding Verify_def by (intro stable_intros)

interpretation s_memrealtime: example H "SetupExecutable H (SMemRealtime_SetupCodeObject H)"
  "SMemRealtime_Setup H" Verify
  unfolding SMemRealtime_SetupCodeObject_def
  by unfold_locales (intro stable_intros quiet_SMemRealtime_Setup quiet_base_Verify)+

interpretation s_memrealtime_inline: example H "SetupExecutable H (SMemRealtime_inline_SetupCodeObject H)"
  "SMemRealtime_inline_Setup H" Verify
  unfolding SMemRealtime_inline_SetupCodeObject_def SMemRealtime_inline_class
  by unfold_locales (intro stable_intros quiet_SMemRealtime_Setup quiet_base_Verify)+

section \<open>Setup\<close>

definition SMemRealtime_staged :: "('r, 'z) Dispatch_scheme \<Rightarrow> bool" where
  "SMemRealtime_staged t \<longleftrightarrow> launch 1 1 (ring t (aql t)) \<and>
     dec_u64 (load_bytes (kernarg_address (ring t (aql t))) 8 (mem t)) = 27000000"

lemma KernargRaw_u64_start:
  assumes "kernarg_offset s = 0"
  shows "KernargRaw (enc_u64 x) 8 1 s =
    (Inr (), s\<lparr>mem := store_bytes (kernarg s) (enc_u64 x) (mem s), kernarg_offset := 8\<rparr>)"
  using assms by (simp add: KernargRaw_def exec align_up_def u64_codec.length_enc)

lemma SMemRealtime_Setup_staged:
  assumes "SMemRealtime_Setup H s = (Inr True, t)"
  shows "SMemRealtime_staged t"
proof -
  obtain s1 s2 s3 where k: "AllocateKernarg H 8 s = (Inr True, s1)"
    and r: "KernargRaw (enc_u64 27000000) 8 1 s1 = (Inr (), s2)"
    and g: "SetGridSize 1 1 1 s2 = (Inr (), s3)" and w: "SetWorkgroupSize 1 1 1 s3 = (Inr (), t)"
    using assms unfolding SMemRealtime_Setup_def Let_def by (elim ok_elims) simp
  have seg: "kernarg_offset s1 = 0" "kernarg_address (ring s1 (aql s1)) = kernarg s1"
    using AllocateKernarg_True [OF k] by simp_all
  have s2: "s2 = s1\<lparr>mem := store_bytes (kernarg s1) (enc_u64 27000000) (mem s1), kernarg_offset := 8\<rparr>"
    using r KernargRaw_u64_start [OF seg(1)] by simp
  have "dec_u64 (load_bytes (kernarg s1) 8 (mem s2)) = 27000000"
    by (simp add: s2 u64_codec.load_same)
  then show ?thesis
    using SetSizes_run [OF g w] seg(2) by (auto simp: SMemRealtime_staged_def s2)
qed

end
