(* ===== verification/S_Memrealtime_Kernel.thy ===== *)
theory S_Memrealtime_Kernel
  imports S_Memrealtime Gcn_Kernels
begin

unbundle bit_operations_syntax

text \<open>
  The kernel s_memrealtime.s, instruction by instruction, while the real time counter runs: any
  number of ticks may pass with every instruction. A read of the counter yields its value when the
  read is issued. The kernel waits as long as its argument says, never gets stuck, and stops
  within a fixed number of instructions once the time is up.
\<close>

section \<open>The program\<close>

definition s_memrealtime_program :: "instr list" where
  "s_memrealtime_program = [
     S_memrealtime 4,
     S_load_dwordx2 2 0 0x00,
     S_waitcnt True True,
     S_add_u32 0 2 4,
     S_addc_u32 1 3 5,
     S_memrealtime 4,
     S_waitcnt True True,
     S_cmp_lt_u32 5 1,
     S_cbranch_scc1 5,
     S_cmp_gt_u32 5 1,
     S_cbranch_scc1 13,
     S_cmp_lt_u32 4 0,
     S_cbranch_scc1 5,
     S_endpgm]"

text \<open>The time at which the kernel may stop, for the argument at \<open>p\<close> and a start at time \<open>t\<close>.\<close>

definition finish :: "memory \<Rightarrow> addr \<Rightarrow> nat \<Rightarrow> u64" where
  "finish m p t = dec_u64 (load_bytes p 8 m) + of_nat t"

abbreviation "reg64 w r \<equiv> pair64 (sreg w (r + 1)) (sreg w r)"

text \<open>A value the counter had up to now.\<close>

definition was_time :: "nat \<Rightarrow> u64 \<Rightarrow> bool" where
  "was_time now x \<longleftrightarrow> (\<exists>r \<le> now. x = of_nat r)"

lemma was_time_now: "was_time now (of_nat now)"
  by (auto simp: was_time_def)

lemma was_time_later: "was_time now x \<Longrightarrow> was_time (now + d) x"
  by (auto simp: was_time_def intro: trans_le_add1)

definition timing :: "memory \<Rightarrow> addr \<Rightarrow> nat \<Rightarrow> wave \<Rightarrow> bool" where
  "timing m p t w \<longleftrightarrow> pc w \<le> 13 \<and> gmem w = m \<and> t \<le> rtc w \<and> pend_flat w = [] \<and>
     pend_lgkm w = (if pc w = 1 \<or> pc w = 6 then [S 4, S 5] else if pc w = 2 then [S 2, S 3, S 4, S 5] else []) \<and>
     (pc w = 0 \<longrightarrow> rtc w = t) \<and>
     (pc w \<le> 1 \<longrightarrow> reg64 w 0 = p) \<and>
     (pc w \<in> {1..4} \<longrightarrow> reg64 w 4 = of_nat t) \<and>
     (pc w \<in> {2..4} \<longrightarrow> reg64 w 2 = dec_u64 (load_bytes p 8 m)) \<and>
     (pc w = 4 \<longrightarrow> sreg w 0 = sreg w 2 + sreg w 4 \<and> scc w = carry (sreg w 2) (sreg w 4) False) \<and>
     (5 \<le> pc w \<longrightarrow> reg64 w 0 = finish m p t) \<and>
     (6 \<le> pc w \<longrightarrow> was_time (rtc w) (reg64 w 4)) \<and>
     (pc w = 8 \<longrightarrow> scc w = (sreg w 5 < sreg w 1)) \<and>
     (9 \<le> pc w \<longrightarrow> \<not> sreg w 5 < sreg w 1) \<and>
     (pc w = 10 \<longrightarrow> scc w = (sreg w 1 < sreg w 5)) \<and>
     (pc w = 11 \<or> pc w = 12 \<longrightarrow> sreg w 5 = sreg w 1) \<and>
     (pc w = 12 \<longrightarrow> scc w = (sreg w 4 < sreg w 0)) \<and>
     (pc w = 13 \<longrightarrow> \<not> reg64 w 4 < finish m p t)"

lemma timing_start: "timing m p t (wave_start lanes p m t undef)"
  by (simp add: timing_def wave_start_def)

lemma pc_cases:
  assumes "n \<le> 13"
  obtains "n = 0" | "n = 1" | "n = 2" | "n = 3" | "n = 4" | "n = 5" | "n = 6" | "n = (7 :: nat)"
    | "n = 8" | "n = 9" | "n = 10" | "n = 11" | "n = 12" | "n = 13"
  using assms by atomize_elim presburger

lemmas kernel_step = s_memrealtime_program_def step_def busy_def hazard_def Let_def alu_writes_def dpp_reads_def

text \<open>The kernel stops at its end only, and every step keeps the invariant.\<close>

lemma timing_step:
  assumes "timing m p t w"
  shows "case step A s_memrealtime_program w of None \<Rightarrow> pc w = 13 | Some w' \<Rightarrow> timing m p t w' \<and> rtc w' = rtc w"
proof -
  have "pc w \<le> 13" using assms by (simp add: timing_def)
  then show ?thesis
  proof (cases rule: pc_cases)
    case 5
    with assms pair64_add [of "sreg w 3" "sreg w 5" "sreg w 2" "sreg w 4"] show ?thesis
      by (auto simp: timing_def kernel_step finish_def)
  next
    case 11
    with assms pair64_less [of "sreg w 5" "sreg w 4" "sreg w 1" "sreg w 0"] show ?thesis
      by (auto simp: timing_def kernel_step)
  next
    case 12
    with assms show ?thesis by (auto simp: timing_def kernel_step)
  next
    case 13
    with assms pair64_less [of "sreg w 5" "sreg w 4" "sreg w 1" "sreg w 0"] show ?thesis
      by (auto simp: timing_def kernel_step)
  qed (use assms in \<open>auto simp: timing_def kernel_step pair64_split [simplified] was_time_now load_sgprs_def pair64_load\<close>)
qed

lemma timing_step_Some: "timing m p t w \<Longrightarrow> step A s_memrealtime_program w = Some w' \<Longrightarrow> timing m p t w' \<and> rtc w' = rtc w"
  using timing_step [of m p t w A] by simp

lemma timing_passes:
  assumes "timing m p t w" and "pc w \<noteq> 0"
  shows "timing m p t (w\<lparr>rtc := rtc w + d\<rparr>)"
  using assms unfolding timing_def by (elim conjE, intro conjI) (simp_all add: was_time_later trans_le_add1)

lemma step_leaves_start:
  assumes "timing m p t w" and "step A s_memrealtime_program w = Some w'"
  shows "pc w' \<noteq> 0"
proof -
  have "pc w \<le> 13" using assms(1) by (simp add: timing_def)
  then show ?thesis
    using assms(2) by (cases rule: pc_cases) (auto simp: kernel_step split: if_splits)
qed

lemma timing_wave_step:
  assumes "wave_step A s_memrealtime_program w w'" and "timing m p t w"
  shows "timing m p t w'"
  using assms by (auto elim!: wave_stepE dest: timing_step_Some step_leaves_start intro!: timing_passes)

lemma timing_reachable:
  assumes "(wave_step A s_memrealtime_program)\<^sup>*\<^sup>* (wave_start lanes p m t undef) w"
  shows "timing m p t w"
  using assms by (induction rule: rtranclp_induct) (auto intro: timing_start timing_wave_step)

section \<open>It waits\<close>

lemma unat_finish:
  assumes "t + unat (dec_u64 (load_bytes p 8 m)) < 2 ^ 64"
  shows "unat (finish m p t) = t + unat (dec_u64 (load_bytes p 8 m))"
proof -
  have "finish m p t = of_nat (t + unat (dec_u64 (load_bytes p 8 m)))" by (simp add: finish_def)
  moreover have "unat (of_nat (t + unat (dec_u64 (load_bytes p 8 m))) :: u64) = t + unat (dec_u64 (load_bytes p 8 m))"
    using assms by (intro unat_of_nat_lt) simp
  ultimately show ?thesis by (simp only:)
qed

lemma timing_waited:
  assumes "timing m p t w" and "pc w = 13" and "rtc w < 2 ^ 64" and "t + unat (dec_u64 (load_bytes p 8 m)) < 2 ^ 64"
  shows "t + unat (dec_u64 (load_bytes p 8 m)) \<le> rtc w"
proof -
  obtain r where r: "r \<le> rtc w" "\<not> of_nat r < finish m p t"
    using assms(1,2) by (auto simp: timing_def was_time_def)
  have "unat (of_nat r :: u64) = r" using r(1) assms(3) by (intro unat_of_nat_lt) simp
  then show ?thesis using r unat_finish [OF assms(4)] by (simp add: word_less_nat_alt)
qed

section \<open>It stops\<close>

text \<open>
  The instructions still to come once the time is up: those up to the end, and once more those of
  the loop when the last read was too early.
\<close>

definition rank :: "memory \<Rightarrow> addr \<Rightarrow> nat \<Rightarrow> wave \<Rightarrow> nat" where
  "rank m p t w = (13 - pc w) + (if 6 \<le> pc w \<and> reg64 w 4 < finish m p t then 8 else 0)"

lemma rank_bound: "rank m p t w \<le> 15"
  by (auto simp: rank_def)

lemma rank_step:
  assumes "timing m p t w" and "finish m p t \<le> of_nat (rtc w)" and "step A s_memrealtime_program w = Some w'"
  shows "rank m p t w' < rank m p t w"
proof -
  have "pc w \<le> 13" using assms(1) by (simp add: timing_def)
  then show ?thesis
  proof (cases rule: pc_cases)
    case 6
    with assms show ?thesis by (auto simp: timing_def kernel_step rank_def pair64_split [simplified])
  next
    case 9
    with assms pair64_less [of "sreg w 5" "sreg w 4" "sreg w 1" "sreg w 0"] show ?thesis
      by (auto simp: timing_def kernel_step rank_def split: if_splits)
  next
    case 13
    with assms pair64_less [of "sreg w 5" "sreg w 4" "sreg w 1" "sreg w 0"] show ?thesis
      by (auto simp: timing_def kernel_step rank_def split: if_splits)
  qed (use assms in \<open>auto simp: timing_def kernel_step rank_def split: if_splits\<close>)
qed

lemma time_up:
  assumes "t + unat (dec_u64 (load_bytes p 8 m)) \<le> rtc w" and "rtc w < 2 ^ 64"
  shows "finish m p t \<le> of_nat (rtc w)"
proof -
  have "unat (of_nat (rtc w) :: u64) = rtc w" using assms(2) by (intro unat_of_nat_lt) simp
  then show ?thesis using assms unat_finish [of t p m] by (simp add: word_le_nat_alt)
qed

lemma effect_rtc: "rtc (effect A i w) = rtc w"
  by (cases i) (simp_all add: set_dst_def split: dst.split)

lemma step_rtc: "step A prog w = Some w' \<Longrightarrow> rtc w' = rtc w"
  by (auto simp: step_def Let_def effect_rtc split: if_splits)

lemma rank_wave_steps:
  assumes "(wave_step A s_memrealtime_program ^^ k) w w'" and "timing m p t w"
    and "t + unat (dec_u64 (load_bytes p 8 m)) \<le> rtc w" and "rtc w' < 2 ^ 64"
  shows "k + rank m p t w' \<le> rank m p t w \<and> timing m p t w' \<and> rtc w \<le> rtc w'"
  using assms(1,4)
proof (induction k arbitrary: w')
  case (Suc k)
  then obtain v where v: "(wave_step A s_memrealtime_program ^^ k) w v" "wave_step A s_memrealtime_program v w'" by auto
  then obtain v' d where v': "step A s_memrealtime_program v = Some v'" and w': "w' = v'\<lparr>rtc := rtc v' + d\<rparr>"
    by (auto elim: wave_stepE)
  have "rtc v' = rtc v" by (rule step_rtc [OF v'])
  then have later: "rtc v \<le> rtc w'" "rtc v < 2 ^ 64" using Suc.prems(2) by (simp_all add: w')
  note IH = Suc.IH [OF v(1) later(2)]
  have "finish m p t \<le> of_nat (rtc v)" using IH later assms(3) by (intro time_up) simp_all
  then have "rank m p t v' < rank m p t v" using IH v' by (intro rank_step) simp_all
  moreover have "timing m p t w'" using timing_wave_step [OF v(2)] IH by simp
  moreover have "rank m p t w' = rank m p t v'" by (simp add: rank_def w')
  ultimately show ?case using IH later by simp
qed (use assms(2) in simp)

lemma runs_to_end:
  assumes "timing m p t w" and "t + unat (dec_u64 (load_bytes p 8 m)) \<le> rtc w" and "rtc w < 2 ^ 64"
  shows "\<exists>k w'. steps A s_memrealtime_program k w = Some w' \<and> pc w' = 13 \<and> rtc w' = rtc w \<and> gmem w' = m"
  using assms
proof (induction "rank m p t w" arbitrary: w rule: less_induct)
  case less
  show ?case
  proof (cases "step A s_memrealtime_program w")
    case None
    then have "pc w = 13" using timing_step [OF less(2), of A] by simp
    moreover have "gmem w = m" using less(2) by (simp add: timing_def)
    ultimately show ?thesis by (intro exI [of _ 0] exI [of _ w]) simp
  next
    case (Some v)
    have "timing m p t v" "rtc v = rtc w" using timing_step_Some [OF less(2) Some] by simp_all
    with less(1) [OF rank_step [OF less(2) time_up [OF less(3,4)] Some]] less(3,4)
    obtain k w' where "steps A s_memrealtime_program k v = Some w'" "pc w' = 13" "rtc w' = rtc w" "gmem w' = m" by auto
    with Some show ?thesis by (intro exI [of _ "Suc k"] exI [of _ w']) simp
  qed
qed

lemma halted_end: "halted s_memrealtime_program w \<longleftrightarrow> pc w = 13"
proof (cases "pc w \<le> 13")
  case True
  then show ?thesis by (cases rule: pc_cases) (simp_all add: halted_def s_memrealtime_program_def)
qed (simp add: halted_def s_memrealtime_program_def)

lemma steps_wave_steps: "steps A prog k w = Some w' \<Longrightarrow> (wave_step A prog ^^ k) w w'"
proof (induction k arbitrary: w)
  case (Suc k)
  then obtain v where v: "step A prog w = Some v" "(wave_step A prog ^^ k) v w'"
    by (auto simp: bind_eq_Some_conv)
  have "wave_step A prog w v" using wave_step.intros [OF v(1), of 0] by simp
  then show ?case using v(2) by (rule relpowp_Suc_I2)
qed simp

lemma end_reached:
  assumes "unat (dec_u64 (load_bytes p 8 m)) \<le> d" and "t + d < 2 ^ 64"
  shows "\<exists>w. (wave_step A s_memrealtime_program)\<^sup>*\<^sup>* (wave_start lanes p m t undef) w \<and> pc w = 13 \<and> rtc w = t + d"
proof -
  let ?w0 = "wave_start lanes p m t undef"
  have "step A s_memrealtime_program ?w0 \<noteq> None"
    using timing_step [OF timing_start [of m p t lanes undef], of A] by (auto simp: wave_start_def split: option.splits)
  then obtain v where v: "step A s_memrealtime_program ?w0 = Some v" by blast
  let ?w1 = "v\<lparr>rtc := rtc v + d\<rparr>"
  have first: "wave_step A s_memrealtime_program ?w0 ?w1" by (rule wave_step.intros [OF v])
  have "rtc v = t" using step_rtc [OF v] by (simp add: wave_start_def)
  with runs_to_end [OF timing_wave_step [OF first timing_start], of A] assms
  obtain k w where "steps A s_memrealtime_program k ?w1 = Some w" "pc w = 13" "rtc w = t + d" by auto
  with first show ?thesis by (blast intro: converse_rtranclp_into_rtranclp steps_wave_steps relpowp_imp_rtranclp)
qed

section \<open>The inline variant\<close>

text \<open>
  The OpenCL kernel s_memrealtime_inline.cl over the values the counter yields: \<open>clock k\<close> is the
  result of the read number \<open>k\<close>. The loop returns the last value it read, if it returns.
\<close>

partial_function (option) inline_loop :: "(nat \<Rightarrow> u64) \<Rightarrow> u64 \<Rightarrow> nat \<Rightarrow> u64 \<Rightarrow> u64 option" where
  "inline_loop clock finish_time k curr_time =
     (if curr_time < finish_time then inline_loop clock finish_time (Suc k) (clock k) else Some curr_time)"

definition inline_kernel :: "(nat \<Rightarrow> u64) \<Rightarrow> u64 \<Rightarrow> u64 option" where
  "inline_kernel clock ticks_to_wait =
     (let start_time = clock 0; finish_time = start_time + ticks_to_wait in
      inline_loop clock finish_time 1 start_time)"

text \<open>It returns exactly when some read reaches the finish time, and then the first such read.\<close>

lemma inline_loop_skip:
  "\<forall>j<n. clock (k + j) < e \<Longrightarrow> inline_loop clock e (Suc k) (clock k) = inline_loop clock e (Suc (k + n)) (clock (k + n))"
proof (induction n)
  case (Suc n)
  then have "inline_loop clock e (Suc k) (clock k) = inline_loop clock e (Suc (k + n)) (clock (k + n))" "clock (k + n) < e"
    by simp_all
  then show ?case by (simp add: inline_loop.simps [of clock e "Suc (k + n)"])
qed simp

lemma inline_loop_returns:
  assumes "inline_loop clock e k x = Some y"
  shows "e \<le> y"
proof (rule inline_loop.raw_induct [where P = "\<lambda>clock e k x y. e \<le> y", OF _ assms])
  fix loop clock k y and e x :: u64
  assume "\<And>clock e k x y. loop clock e k x = Some y \<Longrightarrow> e \<le> (y :: u64)"
    and "(if x < e then loop clock e (Suc k) (clock k) else Some x) = Some y"
  then show "e \<le> y" by (auto split: if_splits)
qed

lemma inline_kernel_returns:
  "inline_kernel clock wait = Some (clock n)"
  if "clock 0 + wait \<le> clock n" and "\<forall>j<n. clock j < clock 0 + wait"
  using inline_loop_skip [of n clock 0 "clock 0 + wait"] that(2) leD [OF that(1)]
  by (simp add: inline_kernel_def Let_def inline_loop.simps [of clock _ "Suc n"] not_less)

lemma inline_kernel_waits:
  "inline_kernel clock wait = Some x \<Longrightarrow> clock 0 + wait \<le> x"
  unfolding inline_kernel_def Let_def by (auto dest: inline_loop_returns)

section \<open>The claims\<close>

text \<open>
  C10. The example s_memrealtime waits for at least the second it asks for: after \<open>Setup\<close> has returned
  true, a wavefront that starts the kernel at time \<open>t\<close> with the arguments of the packet, while any
  time passes, is not at its end before time \<open>t + 27000000\<close>. The counter does not wrap.
\<close>

theorem SMemRealtime_waits:
  assumes "SMemRealtime_Setup H s = (Inr True, u)"
    and "(wave_step A s_memrealtime_program)\<^sup>*\<^sup>*
      (wave_start lanes (kernarg_address (ring u (aql u))) (mem u) t undef) w"
    and "halted s_memrealtime_program w" and "t + 27000000 < 2 ^ 64" and "rtc w < 2 ^ 64"
  shows "t + 27000000 \<le> rtc w"
  using SMemRealtime_Setup_staged [OF assms(1)] timing_waited [OF timing_reachable [OF assms(2)] _ assms(5)] assms(3,4)
  by (simp add: SMemRealtime_staged_def halted_end)

text \<open>
  C11. The kernel s_memrealtime.s does not get stuck and does not wait for ever: once the counter shows the start time
  plus the number of ticks in its argument, at most 15 more instructions
  execute, and as long as the end is not reached the next instruction can execute.
\<close>

theorem s_memrealtime_stops:
  assumes "(wave_step A s_memrealtime_program)\<^sup>*\<^sup>* (wave_start lanes p m t undef) w"
    and "t + unat (dec_u64 (load_bytes p 8 m)) \<le> rtc w"
    and "(wave_step A s_memrealtime_program ^^ k) w w'" and "rtc w' < 2 ^ 64"
  shows "k \<le> 15 \<and> (halted s_memrealtime_program w' \<or> step A s_memrealtime_program w' \<noteq> None)"
proof -
  have w': "k + rank m p t w' \<le> rank m p t w" "timing m p t w'"
    using rank_wave_steps [OF assms(3) timing_reachable [OF assms(1)] assms(2,4)] by simp_all
  then have "k \<le> 15" using rank_bound [of m p t w] by simp
  moreover have "pc w' = 13 \<or> step A s_memrealtime_program w' \<noteq> None"
    using timing_step [OF w'(2), of A] by (auto split: option.splits)
  ultimately show ?thesis by (simp add: halted_end)
qed

section \<open>On the reference runtime\<close>

lemma ref_sm_setup: "\<exists>t. SMemRealtime_Setup (ref_hsa k) (ref_ready d ()) = (Inr True, t)"
  by (simp add: SMemRealtime_Setup_def ref_setup cong: if_cong)

theorem SMemRealtime_waits_witness:
  "\<exists>u w. SMemRealtime_Setup (ref_hsa (\<lambda>p m. m)) (ref_ready 0 ()) = (Inr True, u) \<and>
    (wave_step ref_alu s_memrealtime_program)\<^sup>*\<^sup>* (wave_start 1 (kernarg_address (ring u (aql u))) (mem u) 7 blank_wave) w \<and>
    rtc w = 27000012 \<and> 7 + 27000000 \<le> rtc w"
proof -
  obtain u where u: "SMemRealtime_Setup (ref_hsa (\<lambda>p m. m)) (ref_ready 0 ()) = (Inr True, u)"
    using ref_sm_setup by blast
  then have "unat (dec_u64 (load_bytes (kernarg_address (ring u (aql u))) 8 (mem u))) \<le> 27000005"
    using SMemRealtime_Setup_staged [OF u] by (simp add: SMemRealtime_staged_def)
  from end_reached [OF this, of 7 ref_alu 1 blank_wave] obtain w where w: "(wave_step ref_alu s_memrealtime_program)\<^sup>*\<^sup>*
      (wave_start 1 (kernarg_address (ring u (aql u))) (mem u) 7 blank_wave) w" "pc w = 13" "rtc w = 27000012"
    by auto
  have "7 + 27000000 \<le> rtc w"
    using SMemRealtime_waits [OF u w(1)] w(2,3) by (simp add: halted_end)
  then show ?thesis using u w by blast
qed

theorem s_memrealtime_stops_witness:
  "\<exists>k w. (wave_step ref_alu s_memrealtime_program ^^ k) (wave_start 1 0 (\<lambda>_. 0) 7 blank_wave) w \<and>
    k \<le> 15 \<and> halted s_memrealtime_program w"
proof -
  let ?w = "wave_start 1 0 (\<lambda>_. 0) 7 blank_wave"
  have now: "7 + unat (dec_u64 (load_bytes 0 8 (\<lambda>_. 0))) \<le> rtc ?w"
    by (simp add: wave_start_def dec_u64_def load_bytes_def upt_rec)
  then obtain k w where w: "steps ref_alu s_memrealtime_program k ?w = Some w" "pc w = 13" "rtc w = 7"
    using runs_to_end [OF timing_start now, of ref_alu] by (auto simp: wave_start_def)
  note path = steps_wave_steps [OF w(1)]
  have "k \<le> 15"
    using s_memrealtime_stops [OF rtranclp.rtrancl_refl now path] w(3) by simp
  then show ?thesis using path w(2) by (auto simp: halted_end)
qed

end
