(* ===== verification/End_To_End.thy ===== *)
theory End_To_End
  imports Packet_Device S_Memrealtime_Kernel
begin

text \<open>
  Host program and kernel together: the examples from \<open>main\<close> to the exit code, on any runtime whose
  device carries out the packets that are published to it.
\<close>

section \<open>A run that goes through\<close>

text \<open>
  The stages before publication return true, in the state \<open>s\<close>; the device serves the queue that the object
  has then and knows the example's kernel under its symbol; publication and waiting return true; and the
  result buffer is copied back, in the state \<open>u\<close>.
\<close>

definition goes_through ::
  "'r hsa \<Rightarrow> alu \<Rightarrow> instr list \<Rightarrow> ('r, 'z, bool) operation \<Rightarrow> ('r, 'z, bool) operation \<Rightarrow> (('r, 'z) Dispatch_scheme \<Rightarrow> buffer option) \<Rightarrow>
    ('r, 'z) Dispatch_scheme \<Rightarrow> ('r, 'z) Dispatch_scheme \<Rightarrow> ('r, 'z) Dispatch_scheme \<Rightarrow> bool" where
  "goes_through H A prog load vSetup result s0 s u \<longleftrightarrow>
     before_publication H (SetupExecutable H load) vSetup s0 = (Inr True, s) \<and>
     (\<exists>q pending code. queue s = Some q \<and> carries_out H A code q pending \<and> names_program H code prog) \<and>
     (\<exists>s'. and_then (RunDispatch H) (Wait H) s = (Inr True, s') \<and> CopyFrom H (result s') s' = (Inr True, u))"

text \<open>\<open>main\<close> returns 0, and prints what the object had to say and "Success".\<close>

definition reports_success :: "(fault + int) \<times> ('r, 'z) Dispatch_scheme \<Rightarrow> ('r, 'z) Dispatch_scheme \<Rightarrow> ('r, 'z) Dispatch_scheme \<Rightarrow> bool" where
  "reports_success r s0 u \<longleftrightarrow> fst r = Inr 0 \<and> cout (snd r) = cout s0 @ verdict True (out_stream u)"

lemma goes_through_ran:
  assumes ex: "example (SetupExecutable H load) vSetup vVerify" and const: "documented_constants H"
    and members: "stable same_members load" and kernel: "stable same_kernel vSetup"
    and through: "goes_through H A prog load vSetup result s0 s u"
    and launch: "launch (ucast g) g (ring s (aql s))" "0 < unat g" "unat g \<le> 64"
    and ends: "\<And>t undef. \<exists>w. run_wave A prog (wave_start (unat g) (kernarg_address (ring s (aql s))) (mem s) t undef) = Some w \<and> gmem w = m"
    and verified: "\<And>s'. mem s' = m \<Longrightarrow> Dispatch.more s' = Dispatch.more s \<Longrightarrow> CopyFrom H (result s') s' = (Inr True, u) \<Longrightarrow>
      \<exists>t. vVerify s' = (Inr True, t) \<and> out_stream t = out_stream u"
  shows "reports_success (RunMain H (SetupExecutable H load) vSetup vVerify s0) s0 u"
proof -
  obtain q pending code s' where before: "before_publication H (SetupExecutable H load) vSetup s0 = (Inr True, s)"
    and q: "queue s = Some q" and dev: "carries_out H A code q pending" and named: "names_program H code prog"
    and run: "and_then (RunDispatch H) (Wait H) s = (Inr True, s')" and copy: "CopyFrom H (result s') s' = (Inr True, u)"
    using through unfolding goes_through_def by blast
  have p: "aql s = packet_index s AND ucast (q_size q - 1)" "completion_signal (ring s (aql s)) = signal s"
    "code (kernel_object (ring s (aql s))) = Some prog"
    using before_publication_packet [OF ex before members kernel, of code prog] q named by auto
  have "mem s' = m \<and> Dispatch.more s' = Dispatch.more s"
    by (rule launched [OF const q p(1,2) dev p(3) launch run ends])
  then obtain t where t: "vVerify s' = (Inr True, t)" "out_stream t = out_stream u" using verified copy by blast
  have "run_stages H (SetupExecutable H load) vSetup vVerify s0 = (Inr True, t)"
    using before run t(1) unfolding run_stages_split after_publication_def and_then_True by blast
  from example.RunMain_succeeds [OF ex this] show ?thesis
    by (auto simp: reports_success_def t(2))
qed

text \<open>The state in which \<open>Setup\<close> begins, and that it ends in the state before publication.\<close>

lemma goes_through_prepared:
  assumes "example (SetupExecutable H load) vSetup vVerify" and "stable same_members load" and "stable same_kernel vSetup"
    and "goes_through H A prog load vSetup result s0 s u"
  obtains s3 where "vSetup s3 = (Inr True, s)" and "Dispatch.more s3 = Dispatch.more s0"
proof -
  have "before_publication H (SetupExecutable H load) vSetup s0 = (Inr True, s)" using assms(4) unfolding goes_through_def by blast
  from before_publication_packet [OF assms(1) this assms(2,3)] show ?thesis using that by blast
qed

section \<open>The examples\<close>

lemma code_objects:
  "stable same_members (AsmKernel_SetupCodeObject H)" "stable same_members (DsBPermute_SetupCodeObject H)"
  "stable same_members (DppReduce_SetupCodeObject H)" "stable same_members (fp16_storage_SetupCodeObject H)"
  "stable same_members (fp16_native_SetupCodeObject H)"
  unfolding AsmKernel_SetupCodeObject_def DsBPermute_SetupCodeObject_def DppReduce_SetupCodeObject_def
    fp16_storage_SetupCodeObject_def fp16_native_SetupCodeObject_def
  by (rule same_members_LoadCodeObjectFromFile)+

lemma AsmKernel_reports_success:
  assumes "documented_constants H" and copy: "copies_faithfully H"
    and through: "goes_through H A asm_kernel_program (AsmKernel_SetupCodeObject H) (AsmKernel_Setup H) ak_out
      (AsmKernelDispatch storage) s u"
  shows "reports_success (AsmKernel_main H storage) storage u"
proof -
  note ex = asm_kernel.example_axioms [of H]
  obtain s3 where "AsmKernel_Setup H s3 = (Inr True, s)"
    using goes_through_prepared [OF ex code_objects(1) same_kernel_Setups(1) through] .
  then obtain ob where st: "AsmKernel_staged ob s" using AsmKernel_Setup_staged by blast
  let ?p = "ring s (aql s)"
  have "reports_success (RunMain H (SetupExecutable H (AsmKernel_SetupCodeObject H)) (AsmKernel_Setup H) (AsmKernel_Verify H)
      (AsmKernelDispatch storage)) (AsmKernelDispatch storage) u"
  proof (rule goes_through_ran [OF ex assms(1) code_objects(1) same_kernel_Setups(1) through, where g = 1 and m = "asm_kernel ?p (mem s)"])
    fix s' :: "'a AsmKernelDispatch"
    assume "mem s' = asm_kernel ?p (mem s)" "Dispatch.more s' = Dispatch.more s" and c: "CopyFrom H (ak_out s') s' = (Inr True, u)"
    moreover from this(2) have ob: "ak_out s' = Some ob" using st by (cases s; cases s') (simp add: AsmKernel_staged_def)
    ultimately have "AsmKernel_Verify H s' = (Inr True, u)"
      using AsmKernel_kernel_accepted [OF copy st refl _ ob] by simp
    then show "\<exists>t. AsmKernel_Verify H s' = (Inr True, t) \<and> out_stream t = out_stream u" by blast
  qed (use st asm_kernel_run [of A ?p] in \<open>simp_all add: AsmKernel_staged_def\<close>)
  then show ?thesis by (simp add: AsmKernel_main_def reports_success_def AsmKernelDispatch_def Dispatch_Dispatch_def)
qed

lemma DsBPermute_reports_success:
  assumes "documented_constants H" and copy: "copies_faithfully H"
    and through: "goes_through H A ds_bpermute_program (DsBPermute_SetupCodeObject H) (DsBPermute_Setup H) bp_out
      (DsBPermuteDispatch storage) s u" and sep: "DsBPermute_separate s"
  shows "reports_success (DsBPermute_main H storage) storage u"
proof -
  note ex = ds_bpermute.example_axioms [of H]
  obtain s3 where "DsBPermute_Setup H s3 = (Inr True, s)"
    using goes_through_prepared [OF ex code_objects(2) same_kernel_Setups(2) through] .
  then obtain ib xb ob where st: "DsBPermute_staged ib xb ob s" using DsBPermute_Setup_staged [OF copy _ sep] by blast
  let ?p = "ring s (aql s)"
  have "reports_success (RunMain H (SetupExecutable H (DsBPermute_SetupCodeObject H)) (DsBPermute_Setup H) (DsBPermute_Verify H)
      (DsBPermuteDispatch storage)) (DsBPermuteDispatch storage) u"
  proof (rule goes_through_ran [OF ex assms(1) code_objects(2) same_kernel_Setups(2) through, where g = 64 and m = "ds_bpermute_kernel ?p (mem s)"])
    fix s' :: "'a DsBPermuteDispatch"
    assume "mem s' = ds_bpermute_kernel ?p (mem s)" "Dispatch.more s' = Dispatch.more s" and c: "CopyFrom H (bp_out s') s' = (Inr True, u)"
    moreover from this(2) have ob: "bp_out s' = Some ob" using st by (cases s; cases s') (simp add: DsBPermute_staged_def)
    ultimately show "\<exists>t. DsBPermute_Verify H s' = (Inr True, t) \<and> out_stream t = out_stream u"
      using DsBPermute_kernel_accepted [OF copy st refl _ ob] by simp
  qed (use st ds_bpermute_run [of A ?p] in \<open>simp_all add: DsBPermute_staged_def\<close>)
  then show ?thesis by (simp add: DsBPermute_main_def reports_success_def DsBPermuteDispatch_def Dispatch_Dispatch_def)
qed

text \<open>The length that the constructors set is the one that \<open>Setup\<close> and \<open>Verify\<close> use.\<close>

definition same_lengths :: "('s \<Rightarrow> u32) \<Rightarrow> 's \<Rightarrow> 's \<Rightarrow> bool" where
  "same_lengths len s t \<longleftrightarrow> len t = len s"

interpretation same_lengths: frame "same_lengths len"
  by unfold_locales (simp_all add: same_lengths_def)

lemma members_lengths:
  "stable same_members m \<Longrightarrow> stable (same_lengths dpp_length) m"
  "stable same_members n \<Longrightarrow> stable (same_lengths hva_length) n"
  by (erule stable_mono, rename_tac s t, case_tac s; case_tac t; simp add: same_members_def same_lengths_def)+

lemma same_members_updates:
  "stable same_members (SetGridSize x y z)" "stable same_members (SetWorkgroupSize a b c)"
  "stable same_members (Kernarg bp)" "stable same_members (AllocateKernarg H k)"
proof -
  show "stable same_members (Kernarg bp)"
    unfolding Kernarg_def KernargRaw_def
    by (intro same_members.stable_bind same_members.stable_deref same_members.stable_assert same_members.stable_if
        same_members.stable_raise stable_modify) (simp_all add: same_members_def)
qed (auto simp: stable_def same_members_def SetGridSize_def SetWorkgroupSize_def AllocateKernarg_def hsa_memory_allocate_def
      hsa_call_def exec split: prod.splits)

lemma same_members_fail_with: "stable same_members (fail_with msg)"
  unfolding fail_with_def by (intro same_members.stable_bind same_members.stable_ret touches_put [THEN touches_same_members])

lemmas same_lengths_operations = members_lengths [OF same_members_updates(1)] members_lengths [OF same_members_updates(2)]
  members_lengths [OF same_members_updates(3)] members_lengths [OF same_members_updates(4)] members_lengths [OF same_members_fail_with]
  touches_AllocateBuffer [THEN touches_same_members, THEN members_lengths(1)] touches_AllocateBuffer [THEN touches_same_members, THEN members_lengths(2)]
  touches_CopyTo [THEN touches_same_members, THEN members_lengths(1)] touches_CopyTo [THEN touches_same_members, THEN members_lengths(2)]
  touches_write_data [THEN touches_same_members, THEN members_lengths(1)] touches_write_data [THEN touches_same_members, THEN members_lengths(2)]

lemma same_lengths_Setup:
  "stable (same_lengths dpp_length) (DppReduce_Setup H)" "stable (same_lengths hva_length) (HalfVectorAdd_Setup H)"
  unfolding DppReduce_Setup_def HalfVectorAdd_Setup_def
  by (intro same_lengths.stable_bind same_lengths.stable_ret same_lengths.stable_gets same_lengths.stable_if
      same_lengths.stable_for_each same_lengths_operations stable_modify; simp add: same_lengths_def)+

lemma DppReduce_reports_success:
  assumes "documented_constants H" and copy: "copies_faithfully H" and "alu_add_f32 A = f32_add"
    and through: "goes_through H A dpp_reduce_program (DppReduce_SetupCodeObject H) (DppReduce_Setup H) dpp_out
      (DppReduce storage) s u" and sep: "\<forall>b. dpp_in s = Some b \<longrightarrow> device_apart b (kernarg s) 16"
  shows "reports_success (DppReduce_main H storage) storage u"
proof -
  note ex = dpp_reduce.example_axioms [of H]
  obtain s3 where prep: "DppReduce_Setup H s3 = (Inr True, s)" and "Dispatch.more s3 = Dispatch.more (DppReduce storage)"
    using goes_through_prepared [OF ex code_objects(3) same_kernel_Setups(3) through] .
  then have "dpp_length s3 = dpp_length (DppReduce storage)" by (cases s3; cases "DppReduce storage") simp
  then have len: "dpp_length s3 = 64" by (simp add: DppReduce_def)
  then have len': "dpp_length s = 64" using stableD [OF same_lengths_Setup(1) prep] by (simp add: same_lengths_def)
  obtain ib ob where st: "DppReduce_staged ib ob s" using DppReduce_Setup_staged [OF copy len prep] sep by blast
  let ?p = "ring s (aql s)"
  have "reports_success (RunMain H (SetupExecutable H (DppReduce_SetupCodeObject H)) (DppReduce_Setup H) (DppReduce_Verify H)
      (DppReduce storage)) (DppReduce storage) u"
  proof (rule goes_through_ran [OF ex assms(1) code_objects(3) same_kernel_Setups(3) through, where g = 64 and m = "dpp_reduce_kernel ?p (mem s)"])
    fix s' :: "'a DppReduce"
    assume "mem s' = dpp_reduce_kernel ?p (mem s)" "Dispatch.more s' = Dispatch.more s" and c: "CopyFrom H (dpp_out s') s' = (Inr True, u)"
    moreover from this(2) have "dpp_out s' = Some ob" "dpp_length s' = 64"
      using st len' by (cases s; cases s'; simp add: DppReduce_staged_def)+
    ultimately show "\<exists>t. DppReduce_Verify H s' = (Inr True, t) \<and> out_stream t = out_stream u"
      using DppReduce_kernel_accepted [OF copy st refl] by simp
  qed (use st dpp_reduce_run [OF assms(3), of ?p] in \<open>simp_all add: DppReduce_staged_def\<close>)
  then show ?thesis by (simp add: DppReduce_main_def reports_success_def DppReduce_def Dispatch_Dispatch_def)
qed

text \<open>The two half precision examples; the blocks of the result do not overlap those of the inputs.\<close>

definition HalfVectorAdd_apart :: "'r HalfVectorAdd \<Rightarrow> bool" where
  "HalfVectorAdd_apart s \<longleftrightarrow> HalfVectorAdd_separate s \<and>
     (\<forall>ob b. hva_out s = Some ob \<longrightarrow> Some b \<in> {hva_in1 s, hva_in2 s} \<longrightarrow> buffers_apart ob b)"

lemma HalfVectorAdd_reports_success:
  assumes "documented_constants H" and copy: "copies_faithfully H" and exact: "adds_exactly add"
    and ex: "example (SetupExecutable H load) (HalfVectorAdd_Setup H) (HalfVectorAdd_Verify H)" and load: "stable same_members load"
    and through: "goes_through H A prog load (HalfVectorAdd_Setup H) hva_out (HalfVectorAdd storage) s u" and sep: "HalfVectorAdd_apart s"
    and ran: "\<And>t undef. \<exists>w. run_wave A prog (wave_start 64 (kernarg_address (ring s (aql s))) (mem s) t undef) = Some w \<and>
      gmem w = half_add_kernel add (ring s (aql s)) (mem s)"
  shows "reports_success (RunMain H (SetupExecutable H load) (HalfVectorAdd_Setup H) (HalfVectorAdd_Verify H) (HalfVectorAdd storage)) storage u"
proof -
  obtain s3 where prep: "HalfVectorAdd_Setup H s3 = (Inr True, s)" and "Dispatch.more s3 = Dispatch.more (HalfVectorAdd storage)"
    using goes_through_prepared [OF ex load same_kernel_Setups(4) through] .
  then have "hva_length s3 = hva_length (HalfVectorAdd storage)" by (cases s3; cases "HalfVectorAdd storage") simp
  then have len: "hva_length s3 = 64" by (simp add: HalfVectorAdd_def)
  then have len': "hva_length s = 64" using stableD [OF same_lengths_Setup(2) prep] by (simp add: same_lengths_def)
  obtain b1 b2 ob where st: "HalfVectorAdd_staged b1 b2 ob s"
    using HalfVectorAdd_Setup_steps [OF copy len prep] sep by (auto simp: HalfVectorAdd_apart_def)
  then have ap: "buffers_apart ob b1" "buffers_apart ob b2"
    using sep by (simp_all add: HalfVectorAdd_apart_def HalfVectorAdd_staged_def)
  let ?p = "ring s (aql s)"
  have "reports_success (RunMain H (SetupExecutable H load) (HalfVectorAdd_Setup H) (HalfVectorAdd_Verify H)
      (HalfVectorAdd storage)) (HalfVectorAdd storage) u"
  proof (rule goes_through_ran [OF ex assms(1) load same_kernel_Setups(4) through, where g = 64 and m = "half_add_kernel add ?p (mem s)"])
    fix s' :: "'a HalfVectorAdd"
    assume "mem s' = half_add_kernel add ?p (mem s)" "Dispatch.more s' = Dispatch.more s" and c: "CopyFrom H (hva_out s') s' = (Inr True, u)"
    moreover from this(2) have "hva_out s' = Some ob" "hva_in1 s' = Some b1" "hva_in2 s' = Some b2" "hva_length s' = 64"
      using st len' by (cases s; cases s'; simp add: HalfVectorAdd_staged_def)+
    ultimately show "\<exists>t. HalfVectorAdd_Verify H s' = (Inr True, t) \<and> out_stream t = out_stream u"
      using HalfVectorAdd_kernel_accepted [OF copy exact st refl _ _ _ _ _ ap] by simp
  qed (use st ran in \<open>simp_all add: HalfVectorAdd_staged_def\<close>)
  then show ?thesis by (simp add: reports_success_def HalfVectorAdd_def Dispatch_Dispatch_def)
qed

lemma fp16_reports_success:
  assumes "documented_constants H" and "copies_faithfully H" and "HalfVectorAdd_apart s"
  shows "adds_exactly (\<lambda>a b. alu_cvt_f16_f32 A (alu_add_f32 A (alu_cvt_f32_f16 A a) (alu_cvt_f32_f16 A b))) \<Longrightarrow>
      goes_through H A fp16_storage_program (fp16_storage_SetupCodeObject H) (fp16_storage_Setup H) hva_out (fp16_storage_HalfVectorAdd storage) s u \<Longrightarrow>
      reports_success (fp16_storage_main H storage) storage u"
    and "adds_exactly (alu_add_f16 A) \<Longrightarrow>
      goes_through H A fp16_native_program (fp16_native_SetupCodeObject H) (HalfVectorAdd_Setup H) hva_out (HalfVectorAdd storage) s u \<Longrightarrow>
      reports_success (fp16_native_main H storage) storage u"
  unfolding fp16_storage_main_def fp16_native_main_def fp16_storage_class
  using HalfVectorAdd_reports_success [OF assms(1,2) _ fp16_storage.example_axioms [of H, unfolded fp16_storage_class] code_objects(4) _ assms(3) fp16_storage_run]
    HalfVectorAdd_reports_success [OF assms(1,2) _ fp16_native.example_axioms [of H] code_objects(5) _ assms(3) fp16_native_run]
  by blast+

section \<open>A device for the reference runtime\<close>

text \<open>It executes the packets that the contract speaks of, with all registers 0, and ignores the others.\<close>

definition packet_device :: "alu \<Rightarrow> instr list \<Rightarrow> packet \<Rightarrow> memory \<Rightarrow> memory" where
  "packet_device A prog p m =
     (case wavefront p of
        Some lanes \<Rightarrow> if kernel_object p \<noteq> 33 then m else
          (case run_wave A prog (wave_start lanes (kernarg_address p) m 0 blank_wave) of Some w \<Rightarrow> gmem w | None \<Rightarrow> m)
      | None \<Rightarrow> m)"

definition ref_kernels :: "instr list \<Rightarrow> u64 \<Rightarrow> instr list option" where
  "ref_kernels prog ko = (if ko = 33 then Some prog else None)"

abbreviation ref_runtime :: "instr list \<Rightarrow> ref_rt hsa" where
  "ref_runtime prog \<equiv> ref_hsa (packet_device ref_alu prog)"

lemma ref_device: "carries_out (ref_runtime prog) ref_alu (ref_kernels prog) ref_queue rung"
proof -
  have "performs ref_alu (ref_kernels prog) p m (packet_device ref_alu prog p m)" for p m
    unfolding performs_def packet_device_def ref_kernels_def
    by (intro allI impI exI [of _ 0] exI [of _ blank_wave]) (auto split: option.splits if_splits)
  then show ?thesis by (simp add: carries_out_def ref_hsa_def ref_wait_def ref_queue_def Let_def)
qed

lemma ref_names: "names_program (ref_runtime prog) (ref_kernels prog) prog"
  by (simp add: names_program_def ref_hsa_def ref_kernels_def)

definition ref_prepared :: "u32 \<Rightarrow> u16 \<Rightarrow> (ref_rt, 'z) Dispatch_scheme \<Rightarrow> bool" where
  "ref_prepared n g s \<longleftrightarrow> queue s = Some ref_queue \<and> signal s = 21 \<and> aql s = 0 \<and> packet_index s = 0 \<and>
     ring s 0 = ref_launch n g \<and> ticks (rt s) = 0 \<and> rung (rt s) = None"

lemma ref_goes_through:
  fixes s :: "(ref_rt, 'z) Dispatch_scheme"
  assumes s: "vSetup (ref_ready d z) = (Inr True, s)" "ref_prepared n g s"
    and result: "\<And>s'. Dispatch.more s' = Dispatch.more s \<Longrightarrow> result s' = Some b"
  shows "\<exists>u. goes_through (ref_runtime prog) ref_alu prog (LoadCodeObjectFromFile (ref_runtime prog) code) vSetup result
    (Dispatch_Dispatch (ref_storage d z)) s u"
proof -
  let ?H = "ref_runtime prog"
  have f: "queue s = Some ref_queue" "signal s = 21" "aql s = 0" "packet_index s = 0" "ring s 0 = ref_launch n g"
    "ticks (rt s) = 0" "rung (rt s) = None"
    using s(2) by (simp_all add: ref_prepared_def)
  obtain r es p s' where run: "and_then (RunDispatch ?H) (Wait ?H) s = (Inr True, s')"
    and s': "s' = s\<lparr>ring := (ring s)(0 := p\<lparr>pkt_header := 1\<rparr>), mem := packet_device ref_alu prog p (mem s), events := es, rt := r\<rparr>"
    using ref_dispatched [OF f, of "packet_device ref_alu prog"] by blast
  obtain u where "CopyFrom ?H (result s') s' = (Inr True, u)"
    using ref_copy_back [of "packet_device ref_alu prog" b s'] result [of s'] by (auto simp: s')
  moreover have "before_publication ?H (SetupExecutable ?H (LoadCodeObjectFromFile ?H code)) vSetup (Dispatch_Dispatch (ref_storage d z)) = (Inr True, s)"
    using ref_ready_reached [of "packet_device ref_alu prog" code d z] s(1) unfolding before_publication_def and_then_True by blast
  ultimately show ?thesis using run f(1) ref_device ref_names unfolding goes_through_def by blast
qed

lemma ref_hva_apart: "HalfVectorAdd_apart (ref_hva_staged d es m)"
  using ref_hva_separate ref_hva_out_apart by (auto simp: HalfVectorAdd_apart_def ref_hva_fields)

lemma ref_alu_simps:
  "alu_add_f32 ref_alu = f32_add" "alu_add_f16 ref_alu = half_add_via_f32"
  "(\<lambda>a b. alu_cvt_f16_f32 ref_alu (alu_add_f32 ref_alu (alu_cvt_f32_f16 ref_alu a) (alu_cvt_f32_f16 ref_alu b))) = half_add_via_f32"
  by (simp_all add: ref_alu_def half_add_via_f32_def fun_eq_iff)

text \<open>The runs of the five examples on it.\<close>

lemma ref_asm_kernel:
  "\<exists>s u. goes_through (ref_runtime asm_kernel_program) ref_alu asm_kernel_program (AsmKernel_SetupCodeObject (ref_runtime asm_kernel_program))
     (AsmKernel_Setup (ref_runtime asm_kernel_program)) ak_out (AsmKernelDispatch (ref_storage d ref_ak_members)) s u"
proof -
  obtain s where s: "AsmKernel_Setup (ref_runtime asm_kernel_program) (ref_ready d ref_ak_members) = (Inr True, s)" "ref_prepared 1 1 s"
      "ak_out s = Some (Buffer 1024 0x4000 0x3000)"
    by (simp add: AsmKernel_Setup_def ref_prepared_def ref_setup ref_ak_members_def AsmKernelDispatch.defs cong: if_cong)
  have "ak_out s' = Some (Buffer 1024 0x4000 0x3000)" if "Dispatch.more s' = Dispatch.more s" for s' :: "ref_rt AsmKernelDispatch"
    using that s(3) by (cases s; cases s') simp
  from ref_goes_through [where result = ak_out and vSetup = "AsmKernel_Setup (ref_runtime asm_kernel_program)", OF s(1,2) this] show ?thesis
    unfolding AsmKernel_SetupCodeObject_def AsmKernelDispatch_def by blast
qed

lemma ref_ds_bpermute:
  "\<exists>s u. goes_through (ref_runtime ds_bpermute_program) ref_alu ds_bpermute_program (DsBPermute_SetupCodeObject (ref_runtime ds_bpermute_program))
     (DsBPermute_Setup (ref_runtime ds_bpermute_program)) bp_out (DsBPermuteDispatch (ref_storage d ref_bp_members)) s u \<and> DsBPermute_separate s"
proof -
  obtain es m where s: "DsBPermute_Setup (ref_runtime ds_bpermute_program) (ref_ready d ref_bp_members) = (Inr True, ref_bp_staged d es m)"
    using ref_bp_setup by blast
  have p: "ref_prepared 64 64 (ref_bp_staged d es m)" "bp_out (ref_bp_staged d es m) = Some (Buffer 256 0x8000 0x7000)"
    by (simp_all add: ref_prepared_def ref_bp_staged_def ref_ready_def ref_defs)
  have "bp_out s' = Some (Buffer 256 0x8000 0x7000)" if "Dispatch.more s' = Dispatch.more (ref_bp_staged d es m)" for s'
    using that p(2) by (cases "ref_bp_staged d es m"; cases s') simp
  from ref_goes_through [where result = bp_out and vSetup = "DsBPermute_Setup (ref_runtime ds_bpermute_program)", OF s p(1) this] show ?thesis
    using ref_bp_separate unfolding DsBPermute_SetupCodeObject_def DsBPermuteDispatch_def by blast
qed

lemma ref_dpp_reduce:
  "\<exists>s u. goes_through (ref_runtime dpp_reduce_program) ref_alu dpp_reduce_program (DppReduce_SetupCodeObject (ref_runtime dpp_reduce_program))
     (DppReduce_Setup (ref_runtime dpp_reduce_program)) dpp_out (DppReduce (ref_storage d ref_dpp_members)) s u \<and>
     (\<forall>b. dpp_in s = Some b \<longrightarrow> device_apart b (kernarg s) 16)"
proof -
  obtain es m where s: "DppReduce_Setup (ref_runtime dpp_reduce_program) (ref_ready d ref_dpp_members) = (Inr True, ref_dpp_staged d es m)"
    using ref_dpp_setup by blast
  have p: "ref_prepared 64 64 (ref_dpp_staged d es m)"
    by (simp add: ref_prepared_def ref_dpp_staged_def ref_ready_def ref_defs)
  have "dpp_out s' = Some (Buffer 256 0x6000 0x5000)" if "Dispatch.more s' = Dispatch.more (ref_dpp_staged d es m)" for s'
    using that ref_dpp_fields(2) [of d es m] by (cases "ref_dpp_staged d es m"; cases s') simp
  moreover have "DppReduce (ref_storage d ref_dpp_members) = Dispatch_Dispatch (ref_storage d ref_dpp_members)"
    by (simp add: DppReduce_def ref_dpp_members_def DppReduce.defs Dispatch_Dispatch_def ref_storage_def)
  ultimately show ?thesis
    using ref_goes_through [where result = dpp_out and vSetup = "DppReduce_Setup (ref_runtime dpp_reduce_program)", OF s p] ref_dpp_separate [of d es m] unfolding DppReduce_SetupCodeObject_def by fastforce
qed

lemma ref_fp16:
  "\<exists>s u. goes_through (ref_runtime prog) ref_alu prog (LoadCodeObjectFromFile (ref_runtime prog) code)
     (HalfVectorAdd_Setup (ref_runtime prog)) hva_out (HalfVectorAdd (ref_storage d ref_hva_members)) s u \<and> HalfVectorAdd_apart s"
proof -
  obtain es m where s: "HalfVectorAdd_Setup (ref_runtime prog) (ref_ready d ref_hva_members) = (Inr True, ref_hva_staged d es m)"
    using ref_hva_setup by blast
  have p: "ref_prepared 64 64 (ref_hva_staged d es m)"
    by (simp add: ref_prepared_def ref_hva_staged_def ref_ready_def ref_defs)
  have "hva_out s' = Some (Buffer 128 0x8000 0x7000)" if "Dispatch.more s' = Dispatch.more (ref_hva_staged d es m)" for s'
    using that ref_hva_fields(3) [of d es m] by (cases "ref_hva_staged d es m"; cases s') simp
  moreover have "HalfVectorAdd (ref_storage d ref_hva_members) = Dispatch_Dispatch (ref_storage d ref_hva_members)"
    by (simp add: HalfVectorAdd_def ref_hva_members_def HalfVectorAdd.defs Dispatch_Dispatch_def ref_storage_def)
  ultimately show ?thesis using ref_goes_through [where result = hva_out and vSetup = "HalfVectorAdd_Setup (ref_runtime prog)", OF s p] ref_hva_apart by fastforce
qed

section \<open>All of them\<close>

text \<open>
  C1. Host program and kernel together, on any runtime with the documented constants whose copies are faithful: if the
  stages before publication return true, the device carries out the packet in the slot the doorbell names, by the
  program of the packet's kernel object on the work-items and the arguments of the packet, waiting returns true
  and the result is copied back, then \<open>main\<close> of each of the five examples with a result returns 0 and prints
  "Success". Where results are compared with staged inputs, the blocks of the runtime do not overlap, and where floats are added,
  the device adds floats by the IEEE rules, or half precision numbers exactly where the sum is one.
\<close>

theorem examples_succeed:
  assumes "documented_constants H" and "copies_faithfully H"
  shows
  "(goes_through H A asm_kernel_program (AsmKernel_SetupCodeObject H) (AsmKernel_Setup H) ak_out (AsmKernelDispatch o1) s1 u1 \<longrightarrow>
      reports_success (AsmKernel_main H o1) o1 u1) \<and>
   (goes_through H A ds_bpermute_program (DsBPermute_SetupCodeObject H) (DsBPermute_Setup H) bp_out (DsBPermuteDispatch o2) s2 u2 \<and>
      DsBPermute_separate s2 \<longrightarrow> reports_success (DsBPermute_main H o2) o2 u2) \<and>
   (goes_through H A dpp_reduce_program (DppReduce_SetupCodeObject H) (DppReduce_Setup H) dpp_out (DppReduce o3) s3 u3 \<and>
      (\<forall>b. dpp_in s3 = Some b \<longrightarrow> device_apart b (kernarg s3) 16) \<and> alu_add_f32 A = f32_add \<longrightarrow>
      reports_success (DppReduce_main H o3) o3 u3) \<and>
   (goes_through H A fp16_storage_program (fp16_storage_SetupCodeObject H) (fp16_storage_Setup H) hva_out (fp16_storage_HalfVectorAdd o4) s4 u4 \<and>
      HalfVectorAdd_apart s4 \<and> adds_exactly (\<lambda>a b. alu_cvt_f16_f32 A (alu_add_f32 A (alu_cvt_f32_f16 A a) (alu_cvt_f32_f16 A b))) \<longrightarrow>
      reports_success (fp16_storage_main H o4) o4 u4) \<and>
   (goes_through H A fp16_native_program (fp16_native_SetupCodeObject H) (HalfVectorAdd_Setup H) hva_out (HalfVectorAdd o5) s5 u5 \<and>
      HalfVectorAdd_apart s5 \<and> adds_exactly (alu_add_f16 A) \<longrightarrow> reports_success (fp16_native_main H o5) o5 u5)"
  using AsmKernel_reports_success [OF assms] DsBPermute_reports_success [OF assms] DppReduce_reports_success [OF assms] fp16_reports_success [OF assms]
  by blast

theorem examples_succeed_witness:
  "\<exists>u1 u2 u3 u4 u5.
     reports_success (AsmKernel_main (ref_runtime asm_kernel_program) (ref_storage 0 ref_ak_members)) (ref_storage 0 ref_ak_members) u1 \<and>
     reports_success (DsBPermute_main (ref_runtime ds_bpermute_program) (ref_storage 0 ref_bp_members)) (ref_storage 0 ref_bp_members) u2 \<and>
     reports_success (DppReduce_main (ref_runtime dpp_reduce_program) (ref_storage 0 ref_dpp_members)) (ref_storage 0 ref_dpp_members) u3 \<and>
     reports_success (fp16_storage_main (ref_runtime fp16_storage_program) (ref_storage 0 ref_hva_members)) (ref_storage 0 ref_hva_members) u4 \<and>
     reports_success (fp16_native_main (ref_runtime fp16_native_program) (ref_storage 0 ref_hva_members)) (ref_storage 0 ref_hva_members) u5"
proof -
  note right = examples_succeed [OF ref_constants ref_copies, where A = ref_alu]
  note storage = ref_fp16 [of fp16_storage_program "''fp16_storage.co''", folded fp16_storage_SetupCodeObject_def, folded fp16_storage_class]
  note native = ref_fp16 [of fp16_native_program "''fp16_native.co''", folded fp16_native_SetupCodeObject_def]
  show ?thesis
    using ref_asm_kernel [of 0] right [THEN conjunct1]
      ref_ds_bpermute [of 0] right [THEN conjunct2, THEN conjunct1]
      ref_dpp_reduce [of 0] right [THEN conjunct2, THEN conjunct2, THEN conjunct1]
      storage [of 0] right [THEN conjunct2, THEN conjunct2, THEN conjunct2, THEN conjunct1]
      native [of 0] right [THEN conjunct2, THEN conjunct2, THEN conjunct2, THEN conjunct2]
      half_add_via_f32_exact ref_alu_simps by metis
qed

end
