(* ===== verification/Amdphdrs.thy ===== *)
theory Amdphdrs
  imports Prelude
begin

text \<open>
  amdphdrs/amdphdrs.c: a tool that copies an ELF file and adds the program headers under which
  the HSA loader finds the code and the global data of a kernel. The copy loop is modelled
  on the contents of the two files; libelf, which is not part of the repository, and the
  results of the system calls are parameters over a hidden state of type \<open>'r\<close>. The local
  variables of \<open>main\<close> are members of the state record.
\<close>

section \<open>Data\<close>

record shdr =
  sh_name :: u32
  sh_type :: u32
  sh_flags :: u64
  sh_addr :: u64
  sh_offset :: u64
  sh_size :: u64
  sh_link :: u32
  sh_info :: u32
  sh_addralign :: u64
  sh_entsize :: u64

record phdr =
  p_type :: u32
  p_flags :: u32
  p_offset :: u64
  p_vaddr :: u64
  p_paddr :: u64
  p_filesz :: u64
  p_memsz :: u64
  p_align :: u64

text \<open>
  The parameters. Opening gives the contents of the file, \<open>None\<close> on failure. \<open>sys_read\<close> is asked
  for a number of bytes of a file with a number of bytes left; it and \<open>sys_write\<close> give the
  return value of the call. A section is a handle; \<open>elf_getshdr\<close> gives what the
  variable holds after \<open>gelf_getshdr\<close>, whose result the source ignores, and \<open>elf_shstrndx\<close>
  likewise. \<open>elf_update\<close> is asked to write the file or only to compute the layout.
\<close>

record 'r platform =
  sys_open_input :: "string \<Rightarrow> 'r \<Rightarrow> u8 list option \<times> 'r"
  sys_open_output :: "string \<Rightarrow> 'r \<Rightarrow> u8 list option \<times> 'r"
  sys_read :: "nat \<Rightarrow> nat \<Rightarrow> 'r \<Rightarrow> int \<times> 'r"
  sys_write :: "nat \<Rightarrow> 'r \<Rightarrow> int \<times> 'r"
  sys_rewind :: "'r \<Rightarrow> int \<times> 'r"
  sys_error_text :: "'r \<Rightarrow> string"
  elf_begin :: "u8 list \<Rightarrow> 'r \<Rightarrow> bool \<times> 'r"
  elf_getehdr :: "'r \<Rightarrow> bool"
  elf_set_type_exec :: "'r \<Rightarrow> 'r"
  elf_shstrndx :: "'r \<Rightarrow> nat"
  elf_nextscn :: "nat option \<Rightarrow> 'r \<Rightarrow> nat option"
  elf_getshdr :: "nat \<Rightarrow> 'r \<Rightarrow> shdr"
  elf_strptr :: "nat \<Rightarrow> u32 \<Rightarrow> 'r \<Rightarrow> string option"
  elf_newphdr :: "nat \<Rightarrow> 'r \<Rightarrow> bool \<times> 'r"
  elf_update_shdr :: "nat \<Rightarrow> shdr \<Rightarrow> 'r \<Rightarrow> 'r"
  elf_update_phdr :: "nat \<Rightarrow> phdr \<Rightarrow> 'r \<Rightarrow> bool \<times> 'r"
  elf_update :: "bool \<Rightarrow> 'r \<Rightarrow> int \<times> 'r"
  elf_errmsg :: "'r \<Rightarrow> string"

text \<open>The calls that change the ELF descriptor or the file, in program order.\<close>

datatype elf_call =
    Set_type_exec
  | New_phdrs nat
  | Update_layout
  | Update_shdr nat shdr
  | Update_phdr nat phdr
  | Update_file
  | End_elf

record 'r tool =
  env :: 'r
  unread :: "u8 list"
  out_bytes :: "u8 list"
  out_pos :: nat
  read_buf :: "u8 list"
  cur_section :: "nat option"
  has_data :: bool
  virtual_addr :: u64
  stderr_text :: string
  calls :: "elf_call list"

definition READ_SIZE :: nat where
  "READ_SIZE = 1024"

definition fprintf_stderr :: "string list \<Rightarrow> ('r tool, unit) prog" where
  "fprintf_stderr xs = modify (\<lambda>s. s\<lparr>stderr_text := stderr_text s @ concat xs @ [CHR 0x0A]\<rparr>)"

text \<open>\<open>fprintf(stderr, ...); return EXIT_FAILURE;\<close>\<close>

definition exit_failure :: "string list \<Rightarrow> ('r tool, int) prog" where
  "exit_failure xs = bind (fprintf_stderr xs) (\<lambda>_. ret 1)"

definition print_usage :: "('r tool, unit) prog" where
  "print_usage = fprintf_stderr [''amdphdrs <input> <output>'']"

text \<open>A call of the environment.\<close>

definition call :: "('r \<Rightarrow> 'a \<times> 'r) \<Rightarrow> ('r tool, 'a) prog" where
  "call f s = (Inr (fst (f (env s))), s\<lparr>env := snd (f (env s))\<rparr>)"

definition log_call :: "elf_call \<Rightarrow> ('r tool, unit) prog" where
  "log_call c = modify (\<lambda>s. s\<lparr>calls := calls s @ [c]\<rparr>)"

section \<open>The copy loop\<close>

text \<open>\<open>read\<close> fills the front of the buffer and leaves the rest of it as it was.\<close>

definition read_input :: "'r platform \<Rightarrow> ('r tool, int) prog" where
  "read_input P s =
     (let (n, e) = sys_read P READ_SIZE (length (unread s)) (env s) in
      (Inr n, s\<lparr>env := e, unread := drop (nat n) (unread s),
        read_buf := take (nat n) (unread s) @ drop (nat n) (read_buf s)\<rparr>))"

definition overwrite :: "nat \<Rightarrow> 'a list \<Rightarrow> 'a list \<Rightarrow> 'a list" where
  "overwrite i xs ys = take i ys @ xs @ drop (i + length xs) ys"

definition write_output :: "'r platform \<Rightarrow> ('r tool, int) prog" where
  "write_output P s =
     (let (n, e) = sys_write P READ_SIZE (env s); xs = take (nat n) (take READ_SIZE (read_buf s)) in
      (Inr n, s\<lparr>env := e, out_bytes := overwrite (out_pos s) xs (out_bytes s), out_pos := out_pos s + length xs\<rparr>))"

text \<open>
  One round: \<open>None\<close> to go on, the value of \<open>read_bytes\<close> where the loop ends, and \<open>Inl\<close> for the
  return from the middle of the loop.
\<close>

definition copy_round :: "'r platform \<Rightarrow> ('r tool, (unit + int) option) prog" where
  "copy_round P =
     bind (read_input P) (\<lambda>read_bytes.
     if \<not> 0 < read_bytes then ret (Some (Inr read_bytes)) else
     bind (write_output P) (\<lambda>write_bytes.
     if write_bytes < 0 then ret (Some (Inl ())) else ret None))"

definition copy_loop :: "'r platform \<Rightarrow> ('r tool, unit + int) prog" where
  "copy_loop P = repeat_until (copy_round P)"

section \<open>The section loops\<close>

text \<open>\<open>section = elf_nextscn(elf, section)\<close> as the condition of a loop.\<close>

definition next_section :: "'r platform \<Rightarrow> ('r tool, nat option) prog" where
  "next_section P =
     bind (gets (\<lambda>s. elf_nextscn P (cur_section s) (env s))) (\<lambda>x.
     bind (modify (\<lambda>s. s\<lparr>cur_section := x\<rparr>)) (\<lambda>_. ret x))"

text \<open>The header and the name of a section; a name that is not found is a null pointer.\<close>

definition section_info :: "'r platform \<Rightarrow> nat \<Rightarrow> nat \<Rightarrow> ('r tool, shdr \<times> string) prog" where
  "section_info P section_str_index x =
     bind (gets (\<lambda>s. elf_getshdr P x (env s))) (\<lambda>section_header.
     bind (gets (\<lambda>s. elf_strptr P section_str_index (sh_name section_header) (env s))) (\<lambda>p.
     bind (deref p) (\<lambda>name. ret (section_header, name))))"

definition scan_round :: "'r platform \<Rightarrow> nat \<Rightarrow> ('r tool, unit option) prog" where
  "scan_round P section_str_index =
     bind (next_section P) (\<lambda>section.
     case section of None \<Rightarrow> ret (Some ())
     | Some x \<Rightarrow>
         bind (section_info P section_str_index x) (\<lambda>(section_header, name).
         bind (if name = ''.hsadata_global_program'' then modify (\<lambda>s. s\<lparr>has_data := True\<rparr>) else ret ()) (\<lambda>_.
         ret None)))"

definition code_phdr :: "shdr \<Rightarrow> phdr" where
  "code_phdr h = \<lparr>p_type = 0x60000003, p_flags = 0x00000005, p_offset = sh_offset h, p_vaddr = sh_addr h,
     p_paddr = sh_addr h, p_filesz = sh_size h, p_memsz = sh_size h, p_align = 0x100\<rparr>"

definition global_program_phdr :: "shdr \<Rightarrow> phdr" where
  "global_program_phdr h = \<lparr>p_type = 0x60000000, p_flags = 0x00000006, p_offset = sh_offset h, p_vaddr = sh_addr h,
     p_paddr = sh_addr h, p_filesz = sh_size h, p_memsz = sh_size h, p_align = 4\<rparr>"

text \<open>Giving a section its address and writing the program header at an index.\<close>

definition place_section :: "'r platform \<Rightarrow> nat \<Rightarrow> shdr \<Rightarrow> nat \<Rightarrow> (shdr \<Rightarrow> phdr) \<Rightarrow> ('r tool, int option) prog" where
  "place_section P x section_header i mk =
     bind (gets virtual_addr) (\<lambda>va.
     let section_header = section_header\<lparr>sh_addr := va\<rparr> in
     bind (modify (\<lambda>s. s\<lparr>virtual_addr := virtual_addr s + sh_size section_header\<rparr>)) (\<lambda>_.
     bind (log_call (Update_shdr x section_header)) (\<lambda>_.
     bind (modify (\<lambda>s. s\<lparr>env := elf_update_shdr P x section_header (env s)\<rparr>)) (\<lambda>_.
     bind (log_call (Update_phdr i (mk section_header))) (\<lambda>_.
     bind (call (elf_update_phdr P i (mk section_header))) (\<lambda>ok.
     if \<not> ok
     then bind (gets (\<lambda>s. elf_errmsg P (env s))) (\<lambda>msg.
          bind (exit_failure [''Error updating code phdr:'', msg, '' '']) (\<lambda>code. ret (Some code)))
     else ret None))))))"

definition place_round :: "'r platform \<Rightarrow> nat \<Rightarrow> ('r tool, int option option) prog" where
  "place_round P section_str_index =
     bind (next_section P) (\<lambda>section.
     case section of None \<Rightarrow> ret (Some None)
     | Some x \<Rightarrow>
         bind (section_info P section_str_index x) (\<lambda>(section_header, name).
         bind (if name = ''.hsatext'' then place_section P x section_header 0 code_phdr
               else if name = ''.hsadata_global_program'' then place_section P x section_header 1 global_program_phdr
               else ret None) (\<lambda>failed.
         ret (map_option Some failed))))"

section \<open>The tool\<close>

text \<open>What follows the opening of the ELF handle.\<close>

definition add_phdrs :: "'r platform \<Rightarrow> ('r tool, int) prog" where
  "add_phdrs P =
     bind (log_call Set_type_exec) (\<lambda>_.
     bind (modify (\<lambda>s. s\<lparr>env := elf_set_type_exec P (env s)\<rparr>)) (\<lambda>_.
     bind (gets (\<lambda>s. elf_shstrndx P (env s))) (\<lambda>section_str_index.
     bind (repeat_until (scan_round P section_str_index)) (\<lambda>_.
     bind (gets (\<lambda>s. if has_data s then 2 else 1)) (\<lambda>n.
     bind (log_call (New_phdrs n)) (\<lambda>_.
     bind (call (elf_newphdr P n)) (\<lambda>ok.
     if \<not> ok then bind (gets (\<lambda>s. elf_errmsg P (env s))) (\<lambda>msg. exit_failure [''Error newphdr:'', msg, '' '']) else
     bind (log_call Update_layout) (\<lambda>_.
     bind (call (elf_update P False)) (\<lambda>r.
     if r = 0 then bind (gets (\<lambda>s. elf_errmsg P (env s))) (\<lambda>msg. exit_failure [''Error elf_update:'', msg, '' '']) else
     bind (modify (\<lambda>s. s\<lparr>cur_section := None\<rparr>)) (\<lambda>_.
     bind (repeat_until (place_round P section_str_index)) (\<lambda>failed.
     case failed of Some code \<Rightarrow> ret code
     | None \<Rightarrow>
         bind (log_call Update_file) (\<lambda>_.
         bind (call (elf_update P True)) (\<lambda>r.
         if r = 0 then bind (gets (\<lambda>s. elf_errmsg P (env s))) (\<lambda>msg. exit_failure [''Error elf_update:'', msg, '' '']) else
         bind (log_call End_elf) (\<lambda>_. ret 0))))))))))))))"

definition amdphdrs_main :: "'r platform \<Rightarrow> string list \<Rightarrow> ('r tool, int) prog" where
  "amdphdrs_main P argv =
     (case argv of
       [_, in_file, out_file] \<Rightarrow>
         bind (call (sys_open_input P in_file)) (\<lambda>infd.
         bind (call (sys_open_output P out_file)) (\<lambda>outfd.
         case infd of None \<Rightarrow> exit_failure [''Failed to open input file: '', in_file]
         | Some input \<Rightarrow>
         (case outfd of None \<Rightarrow>
             bind (fprintf_stderr [''Failed to open output file: '', out_file]) (\<lambda>_.
             bind (gets (\<lambda>s. sys_error_text P (env s))) (\<lambda>msg. exit_failure [msg]))
         | Some old \<Rightarrow>
         bind (modify (\<lambda>s. s\<lparr>unread := input, out_bytes := old, out_pos := 0,
           cur_section := None, has_data := False, virtual_addr := 0x10000\<rparr>)) (\<lambda>_.
         bind (copy_loop P) (\<lambda>copied.
         case copied of Inl _ \<Rightarrow> exit_failure [''Error writing output file: '', out_file]
         | Inr read_bytes \<Rightarrow>
         if read_bytes < 0 then exit_failure [''Error reading input file: '', in_file] else
         bind (call (sys_rewind P)) (\<lambda>pos.
         if pos \<noteq> 0 then exit_failure [''Failed to rewind file descriptor''] else
         bind (gets out_bytes) (\<lambda>file.
         bind (call (elf_begin P file)) (\<lambda>elf.
         if \<not> elf then exit_failure [''Failed to create ELF handle for output.''] else
         bind (gets (\<lambda>s. elf_getehdr P (env s))) (\<lambda>ehdr.
         if \<not> ehdr then bind (gets (\<lambda>s. elf_errmsg P (env s))) (\<lambda>msg. exit_failure [''Failed to get ehdr: '', msg]) else
         add_phdrs P)))))))))
     | _ \<Rightarrow> bind print_usage (\<lambda>_. ret 1))"

lemma tool_run [exec]:
  "fprintf_stderr xs s = (Inr (), s\<lparr>stderr_text := stderr_text s @ concat xs @ [CHR 0x0A]\<rparr>)"
  "exit_failure xs s = (Inr 1, s\<lparr>stderr_text := stderr_text s @ concat xs @ [CHR 0x0A]\<rparr>)"
  "log_call c s = (Inr (), s\<lparr>calls := calls s @ [c]\<rparr>)"
  by (simp_all add: fprintf_stderr_def exit_failure_def log_call_def bind_def modify_def ret_def)

section \<open>The copy\<close>

text \<open>Regular files: a read is short only at the end of the file, and a write is never short.\<close>

definition whole_reads :: "'r platform \<Rightarrow> bool" where
  "whole_reads P \<longleftrightarrow> (\<forall>k r. fst (sys_read P READ_SIZE k r) = int (min READ_SIZE k))"

definition whole_writes :: "'r platform \<Rightarrow> bool" where
  "whole_writes P \<longleftrightarrow> (\<forall>r. fst (sys_write P READ_SIZE r) = int READ_SIZE)"

text \<open>
  What the loop writes: whole buffers, the last of them with what was left in the buffer behind
  the last bytes of the input.
\<close>

function padded :: "u8 list \<Rightarrow> u8 list \<Rightarrow> u8 list" where
  "padded buf xs =
     (if xs = [] then []
      else let buf' = take READ_SIZE xs @ drop (min READ_SIZE (length xs)) buf in buf' @ padded buf' (drop READ_SIZE xs))"
  by pat_completeness auto

termination
  by (relation "measure (\<lambda>(buf, xs). length xs)") (auto simp: READ_SIZE_def)

declare padded.simps [simp del]

lemma padded_Nil [simp]: "padded buf [] = []"
  by (simp add: padded.simps)

lemma padded_prefix:
  assumes "length buf = READ_SIZE"
  shows "take (length xs) (padded buf xs) = xs"
  using assms
proof (induction buf xs rule: padded.induct)
  case (1 buf xs)
  show ?case
  proof (cases "xs = []")
    case False
    let ?buf = "take READ_SIZE xs @ drop (min READ_SIZE (length xs)) buf"
    have len: "length ?buf = READ_SIZE" using 1 by (simp add: min_def)
    have "take (length xs) (?buf @ padded ?buf (drop READ_SIZE xs)) = xs"
    proof (cases "length xs \<le> READ_SIZE")
      case True
      then show ?thesis by simp
    next
      case long: False
      have "take (length (drop READ_SIZE xs)) (padded ?buf (drop READ_SIZE xs)) = drop READ_SIZE xs"
        using 1 False len by simp
      then show ?thesis using long len by simp
    qed
    then show ?thesis using False by (subst padded.simps) (simp add: Let_def)
  qed simp
qed

lemma block_count:
  assumes "0 < (l :: nat)"
  shows "1024 + 1024 * ((l - 1024 + 1023) div 1024) = 1024 * ((l + 1023) div 1024)"
proof -
  have "Suc ((l - 1024 + 1023) div 1024) = (l + 1023) div 1024"
  proof (cases "l \<le> 1024")
    case True
    then show ?thesis using assms by (simp add: div_nat_eqI)
  next
    case False
    then obtain k where "l = 1024 + k" by (metis le_Suc_ex nat_le_linear)
    then show ?thesis by simp
  qed
  then show ?thesis by (metis mult_Suc_right)
qed

lemma length_padded:
  assumes "length buf = READ_SIZE"
  shows "length (padded buf xs) = READ_SIZE * ((length xs + (READ_SIZE - 1)) div READ_SIZE)"
  using assms
proof (induction buf xs rule: padded.induct)
  case (1 buf xs)
  show ?case
  proof (cases "xs = []")
    case True
    then show ?thesis by (simp add: READ_SIZE_def)
  next
    case False
    let ?buf = "take READ_SIZE xs @ drop (min READ_SIZE (length xs)) buf"
    have len: "length ?buf = READ_SIZE" using 1 by (simp add: min_def)
    have "length (padded buf xs) = READ_SIZE + length (padded ?buf (drop READ_SIZE xs))"
      using False len by (subst padded.simps) (simp add: Let_def)
    also have "\<dots> = READ_SIZE + READ_SIZE * ((length xs - READ_SIZE + (READ_SIZE - 1)) div READ_SIZE)"
      using 1(1) False len by simp
    also have "\<dots> = READ_SIZE * ((length xs + (READ_SIZE - 1)) div READ_SIZE)"
      using block_count [of "length xs"] False by (simp add: READ_SIZE_def)
    finally show ?thesis .
  qed
qed

lemma overwrite_overwrite:
  "i \<le> length zs \<Longrightarrow> overwrite (i + length xs) ys (overwrite i xs zs) = overwrite i (xs @ ys) zs"
  by (simp add: overwrite_def ac_simps)

lemma length_overwrite: "i \<le> length zs \<Longrightarrow> i + length xs \<le> length (overwrite i xs zs)"
  by (simp add: overwrite_def)

text \<open>The part of the state that the copy does not touch.\<close>

definition rest_of :: "'r tool \<Rightarrow> nat option \<times> bool \<times> u64 \<times> string \<times> elf_call list" where
  "rest_of s = (cur_section s, has_data s, virtual_addr s, stderr_text s, calls s)"

lemma copy_loop_run:
  assumes "whole_reads P" and "whole_writes P" and "length (read_buf s) = READ_SIZE" and "out_pos s \<le> length (out_bytes s)"
  shows "\<exists>t. copy_loop P s = (Inr (Inr 0), t) \<and> rest_of t = rest_of s \<and> unread t = [] \<and>
    out_bytes t = overwrite (out_pos s) (padded (read_buf s) (unread s)) (out_bytes s)"
  using assms(3,4)
proof (induction "read_buf s" "unread s" arbitrary: s rule: padded.induct)
  case (1 s)
  let ?n = "length (unread s)"
  obtain e where e: "sys_read P READ_SIZE ?n (env s) = (int (min READ_SIZE ?n), e)"
    using assms(1) by (metis whole_reads_def prod.collapse)
  show ?case
  proof (cases "unread s = []")
    case True
    then have "copy_round P s = (Inr (Some (Inr 0)), s\<lparr>env := e\<rparr>)"
      using e by (simp add: copy_round_def read_input_def exec Let_def)
    then show ?thesis
      using True 1(3) by (simp add: copy_loop_def repeat_until_done rest_of_def overwrite_def)
  next
    case False
    let ?buf = "take READ_SIZE (unread s) @ drop (min READ_SIZE ?n) (read_buf s)"
    have len: "length ?buf = READ_SIZE" using 1(2) by (simp add: min_def)
    obtain e' where e': "sys_write P READ_SIZE e = (int READ_SIZE, e')"
      using assms(2) by (metis whole_writes_def prod.collapse)
    have take_unread: "take (min READ_SIZE ?n) (unread s) = take READ_SIZE (unread s)"
      and drop_unread: "drop (min READ_SIZE ?n) (unread s) = drop READ_SIZE (unread s)"
      by (simp_all add: min_def)
    define s1 where "s1 = s\<lparr>unread := drop READ_SIZE (unread s), read_buf := ?buf, env := e',
      out_bytes := overwrite (out_pos s) ?buf (out_bytes s), out_pos := out_pos s + READ_SIZE\<rparr>"
    have pos: "0 < min READ_SIZE ?n" using False by (simp add: READ_SIZE_def)
    have nat_eq: "nat (int (min READ_SIZE ?n)) = min READ_SIZE ?n" "nat (int READ_SIZE) = READ_SIZE" by simp_all
    have "read_input P s = (Inr (int (min READ_SIZE ?n)),
        s\<lparr>env := e, unread := drop READ_SIZE (unread s), read_buf := ?buf\<rparr>)"
      unfolding read_input_def e by (simp only: Let_def case_prod_conv nat_eq take_unread drop_unread)
    moreover have "write_output P (s\<lparr>env := e, unread := drop READ_SIZE (unread s), read_buf := ?buf\<rparr>) = (Inr (int READ_SIZE), s1)"
      using len e' by (simp add: write_output_def Let_def s1_def)
    ultimately have "copy_round P s = (Inr None, s1)"
      using pos by (simp add: copy_round_def bind_def ret_def)
    moreover have "\<exists>t. copy_loop P s1 = (Inr (Inr 0), t) \<and> rest_of t = rest_of s1 \<and> unread t = [] \<and>
        out_bytes t = overwrite (out_pos s1) (padded (read_buf s1) (unread s1)) (out_bytes s1)"
    proof (rule 1(1) [OF False])
      show "read_buf s1 = ?buf" "drop READ_SIZE (unread s) = unread s1" by (simp_all add: s1_def)
      show "length (read_buf s1) = READ_SIZE" using len by (simp add: s1_def)
      show "out_pos s1 \<le> length (out_bytes s1)"
        using length_overwrite [OF 1(3), of ?buf] len by (simp add: s1_def)
    qed
    moreover have "overwrite (out_pos s1) (padded (read_buf s1) (unread s1)) (out_bytes s1)
        = overwrite (out_pos s) (padded (read_buf s) (unread s)) (out_bytes s)"
      using overwrite_overwrite [OF 1(3), of ?buf] len False
      by (subst (2) padded.simps) (simp add: s1_def Let_def)
    moreover have "rest_of s1 = rest_of s" by (simp add: s1_def rest_of_def)
    ultimately show ?thesis unfolding copy_loop_def by (metis repeat_until_again)
  qed
qed

text \<open>
  C30. The copy loop of amdphdrs ends, and the output file begins with the input, byte for byte. The last
  block is written whole, so the file is longer than the input unless the size of the input is
  a multiple of 1024; and since the output is not truncated when it is opened, what an
  existing longer file held behind that stays.
\<close>

theorem copy_loop_copies:
  assumes "whole_reads P" and "whole_writes P" and "length (read_buf s) = READ_SIZE" and "out_pos s = 0"
  defines "n \<equiv> 1024 * ((length (unread s) + 1023) div 1024)"
  shows "\<exists>t. copy_loop P s = (Inr (Inr 0), t) \<and> unread t = [] \<and>
    take (length (unread s)) (out_bytes t) = unread s \<and> drop n (out_bytes t) = drop n (out_bytes s) \<and>
    length (out_bytes t) = max n (length (out_bytes s))"
proof -
  obtain t where t: "copy_loop P s = (Inr (Inr 0), t)" "unread t = []"
    and out: "out_bytes t = overwrite 0 (padded (read_buf s) (unread s)) (out_bytes s)"
    using copy_loop_run [OF assms(1-3)] assms(4) by auto
  let ?p = "padded (read_buf s) (unread s)"
  have n: "length ?p = n" using length_padded [OF assms(3)] by (simp add: n_def READ_SIZE_def)
  have pre: "take (length (unread s)) ?p = unread s" by (rule padded_prefix [OF assms(3)])
  then have "length (unread s) \<le> n" unfolding n [symmetric] by (metis length_take min.cobounded1 min_def)
  then show ?thesis using t pre n by (auto simp: out overwrite_def)
qed

section \<open>The sections\<close>

text \<open>The sections that \<open>elf_nextscn\<close> delivers one after the other.\<close>

fun walks :: "'r platform \<Rightarrow> 'r \<Rightarrow> nat option \<Rightarrow> nat list \<Rightarrow> bool" where
  "walks P e cur [] \<longleftrightarrow> elf_nextscn P cur e = None"
| "walks P e cur (x # xs) \<longleftrightarrow> elf_nextscn P cur e = Some x \<and> walks P e (Some x) xs"

definition name_of :: "'r platform \<Rightarrow> nat \<Rightarrow> 'r \<Rightarrow> nat \<Rightarrow> string option" where
  "name_of P ndx e x = elf_strptr P ndx (sh_name (elf_getshdr P x e)) e"

definition is_named :: "'r platform \<Rightarrow> nat \<Rightarrow> 'r \<Rightarrow> string \<Rightarrow> nat \<Rightarrow> bool" where
  "is_named P ndx e name x \<longleftrightarrow> name_of P ndx e x = Some name"

text \<open>
  What the tool relies on in libelf: creating the program header table, computing the layout,
  writing a program header and writing back a section header with another address change neither
  the sequence of the sections nor their names, and writing a header changes no other section's header.
\<close>

definition same_sections :: "'r platform \<Rightarrow> 'r \<Rightarrow> 'r \<Rightarrow> bool" where
  "same_sections P e e' \<longleftrightarrow> (\<forall>c. elf_nextscn P c e' = elf_nextscn P c e) \<and>
     (\<forall>i n. elf_strptr P i n e' = elf_strptr P i n e)"

definition libelf_laws :: "'r platform \<Rightarrow> bool" where
  "libelf_laws P \<longleftrightarrow>
     (\<forall>e n. same_sections P e (snd (elf_newphdr P n e)) \<and>
        (\<forall>x. sh_name (elf_getshdr P x (snd (elf_newphdr P n e))) = sh_name (elf_getshdr P x e))) \<and>
     (\<forall>e. same_sections P e (snd (elf_update P False e)) \<and>
        (\<forall>x. sh_name (elf_getshdr P x (snd (elf_update P False e))) = sh_name (elf_getshdr P x e))) \<and>
     (\<forall>e i p. same_sections P e (snd (elf_update_phdr P i p e)) \<and>
        (\<forall>x. elf_getshdr P x (snd (elf_update_phdr P i p e)) = elf_getshdr P x e)) \<and>
     (\<forall>e y va. let e' = elf_update_shdr P y ((elf_getshdr P y e)\<lparr>sh_addr := va\<rparr>) e in
        same_sections P e e' \<and> (\<forall>x. x \<noteq> y \<longrightarrow> elf_getshdr P x e' = elf_getshdr P x e))"

lemma walks_same: "same_sections P e e' \<Longrightarrow> walks P e' cur xs = walks P e cur xs"
  by (induction xs arbitrary: cur) (simp_all add: same_sections_def)

lemma section_info_run:
  "name_of P ndx (env s) x = Some name \<Longrightarrow> section_info P ndx x s = (Inr (elf_getshdr P x (env s), name), s)"
  by (simp add: section_info_def name_of_def exec)

subsection \<open>The scan\<close>

lemma scan_run:
  assumes "walks P (env s) (cur_section s) xs" and "\<forall>x\<in>set xs. name_of P ndx (env s) x \<noteq> None"
  shows "repeat_until (scan_round P ndx) s = (Inr (), s\<lparr>cur_section := None,
    has_data := has_data s \<or> (\<exists>x\<in>set xs. is_named P ndx (env s) ''.hsadata_global_program'' x)\<rparr>)"
  using assms
proof (induction xs arbitrary: s)
  case Nil
  then show ?case by (intro repeat_until_done) (simp add: scan_round_def next_section_def exec)
next
  case (Cons x xs)
  obtain name where name: "name_of P ndx (env s) x = Some name" using Cons.prems(2) by auto
  let ?t = "s\<lparr>cur_section := Some x, has_data := has_data s \<or> name = ''.hsadata_global_program''\<rparr>"
  have "scan_round P ndx s = (Inr None, ?t)"
    using Cons.prems(1) name section_info_run [of P ndx "s\<lparr>cur_section := Some x\<rparr>" x name]
    by (cases "name = ''.hsadata_global_program''") (simp_all add: scan_round_def next_section_def exec)
  moreover have "repeat_until (scan_round P ndx) ?t = (Inr (), ?t\<lparr>cur_section := None,
      has_data := has_data ?t \<or> (\<exists>x\<in>set xs. is_named P ndx (env ?t) ''.hsadata_global_program'' x)\<rparr>)"
    using Cons by simp
  ultimately have "repeat_until (scan_round P ndx) s = (Inr (), ?t\<lparr>cur_section := None,
      has_data := has_data ?t \<or> (\<exists>x\<in>set xs. is_named P ndx (env ?t) ''.hsadata_global_program'' x)\<rparr>)"
    by (rule repeat_until_again)
  then show ?case using name by (simp add: is_named_def disj_assoc)
qed

subsection \<open>The placement\<close>

text \<open>
  The calls of the second loop, for sections given by handle, header and name: a section of one of
  the two kinds gets the next free address and a program header for its contents, written out here
  member by member.
\<close>

definition segment :: "u32 \<Rightarrow> u32 \<Rightarrow> u64 \<Rightarrow> u64 \<Rightarrow> shdr \<Rightarrow> phdr" where
  "segment kind flags align va h = \<lparr>p_type = kind, p_flags = flags, p_offset = sh_offset h,
     p_vaddr = va, p_paddr = va, p_filesz = sh_size h, p_memsz = sh_size h, p_align = align\<rparr>"

fun placement :: "u64 \<Rightarrow> (nat \<times> shdr \<times> string option) list \<Rightarrow> elf_call list" where
  "placement va [] = []"
| "placement va ((x, h, name) # rest) =
     (if name = Some ''.hsatext''
      then [Update_shdr x (h\<lparr>sh_addr := va\<rparr>), Update_phdr 0 (segment 0x60000003 5 0x100 va h)] @ placement (va + sh_size h) rest
      else if name = Some ''.hsadata_global_program''
      then [Update_shdr x (h\<lparr>sh_addr := va\<rparr>), Update_phdr 1 (segment 0x60000000 6 4 va h)]
             @ placement (va + sh_size h) rest
      else placement va rest)"

definition section_rows :: "'r platform \<Rightarrow> nat \<Rightarrow> 'r \<Rightarrow> nat list \<Rightarrow> (nat \<times> shdr \<times> string option) list" where
  "section_rows P ndx e xs = map (\<lambda>x. (x, elf_getshdr P x e, name_of P ndx e x)) xs"

text \<open>Whether a section of a given name is one to place, and how.\<close>

definition place_at :: "string \<Rightarrow> (nat \<times> (shdr \<Rightarrow> phdr)) option" where
  "place_at name =
     (if name = ''.hsatext'' then Some (0, code_phdr)
      else if name = ''.hsadata_global_program'' then Some (1, global_program_phdr) else None)"

lemma place_round_None:
  assumes "elf_nextscn P (cur_section s) (env s) = None"
  shows "place_round P ndx s = (Inr (Some None), s\<lparr>cur_section := None\<rparr>)"
  using assms by (simp add: place_round_def next_section_def exec)

lemma place_round_skip:
  assumes "elf_nextscn P (cur_section s) (env s) = Some x" and "name_of P ndx (env s) x = Some name"
    and "place_at name = None"
  shows "place_round P ndx s = (Inr None, s\<lparr>cur_section := Some x\<rparr>)"
  using assms section_info_run [of P ndx "s\<lparr>cur_section := Some x\<rparr>" x name]
  by (simp add: place_round_def next_section_def exec place_at_def split: if_splits)

text \<open>One placed section: the state it leaves, and how the round ends.\<close>

definition place_state :: "'r platform \<Rightarrow> nat \<Rightarrow> nat \<Rightarrow> (shdr \<Rightarrow> phdr) \<Rightarrow> 'r tool \<Rightarrow> bool \<times> 'r tool" where
  "place_state P x i mk s =
     (let h = (elf_getshdr P x (env s))\<lparr>sh_addr := virtual_addr s\<rparr>;
          (ok, e) = elf_update_phdr P i (mk h) (elf_update_shdr P x h (env s))
      in (ok, s\<lparr>cur_section := Some x, virtual_addr := virtual_addr s + sh_size h,
            calls := calls s @ [Update_shdr x h, Update_phdr i (mk h)], env := e\<rparr>))"

lemma place_round_place:
  assumes "elf_nextscn P (cur_section s) (env s) = Some x" and "name_of P ndx (env s) x = Some name"
    and "place_at name = Some (i, mk)" and "place_state P x i mk s = (ok, t)"
  shows "place_round P ndx s = (if ok then (Inr None, t)
    else (Inr (Some (Some 1)), t\<lparr>stderr_text := stderr_text t @ ''Error updating code phdr:'' @ elf_errmsg P (env t) @ '' '' @ [CHR 0x0A]\<rparr>))"
proof -
  obtain ok' e where u: "elf_update_phdr P i (mk ((elf_getshdr P x (env s))\<lparr>sh_addr := virtual_addr s\<rparr>))
      (elf_update_shdr P x ((elf_getshdr P x (env s))\<lparr>sh_addr := virtual_addr s\<rparr>) (env s)) = (ok', e)" by fastforce
  have "(if name = ''.hsatext'' then place_section P x (elf_getshdr P x (env s)) 0 code_phdr
      else if name = ''.hsadata_global_program'' then place_section P x (elf_getshdr P x (env s)) 1 global_program_phdr
      else ret None) = place_section P x (elf_getshdr P x (env s)) i mk"
    using assms(3) by (auto simp: place_at_def split: if_splits)
  then show ?thesis
    using assms(1,2,4) u section_info_run [of P ndx "s\<lparr>cur_section := Some x\<rparr>" x name]
    by (auto simp: place_round_def next_section_def exec place_section_def place_state_def call_def Let_def)
qed

lemma section_rows_Cons:
  "section_rows P ndx e (x # xs) = (x, elf_getshdr P x e, name_of P ndx e x) # section_rows P ndx e xs"
  by (simp add: section_rows_def)

lemma update_keeps_others:
  assumes "libelf_laws P" and "x \<notin> set xs" and "elf_update_phdr P i p (elf_update_shdr P x ((elf_getshdr P x e)\<lparr>sh_addr := va\<rparr>) e) = (ok, e')"
  shows "walks P e' c xs = walks P e c xs" and "section_rows P ndx e' xs = section_rows P ndx e xs"
proof -
  let ?e = "elf_update_shdr P x ((elf_getshdr P x e)\<lparr>sh_addr := va\<rparr>) e"
  have p: "same_sections P ?e e'" "\<forall>x. elf_getshdr P x e' = elf_getshdr P x ?e"
    using assms(1,3) unfolding libelf_laws_def by (metis snd_conv)+
  have h: "same_sections P e ?e" "\<forall>y. y \<noteq> x \<longrightarrow> elf_getshdr P y ?e = elf_getshdr P y e"
    using assms(1) unfolding libelf_laws_def Let_def by blast+
  show "walks P e' c xs = walks P e c xs" using walks_same [OF p(1)] walks_same [OF h(1)] by simp
  have "elf_getshdr P y e' = elf_getshdr P y e \<and> name_of P ndx e' y = name_of P ndx e y" if "y \<in> set xs" for y
    using that assms(2) p h by (auto simp: name_of_def same_sections_def)
  then show "section_rows P ndx e' xs = section_rows P ndx e xs" by (simp add: section_rows_def)
qed

lemma rows_names:
  "section_rows P ndx e' xs = section_rows P ndx e xs \<Longrightarrow> x \<in> set xs \<Longrightarrow> name_of P ndx e' x = name_of P ndx e x"
  by (auto simp: section_rows_def)

lemma placement_Cons:
  "placement va ((x, h, Some name) # rest) =
     (case place_at name of None \<Rightarrow> placement va rest
      | Some (i, mk) \<Rightarrow> Update_shdr x (h\<lparr>sh_addr := va\<rparr>) # Update_phdr i (mk (h\<lparr>sh_addr := va\<rparr>)) # placement (va + sh_size h) rest)"
  by (simp add: place_at_def code_phdr_def global_program_phdr_def segment_def)

text \<open>
  The second loop returns; without a failure it made all calls of the placement, else a first part of
  them.
\<close>

definition phdr_refused :: "'r platform \<Rightarrow> bool" where
  "phdr_refused P \<longleftrightarrow> (\<exists>i p e. \<not> fst (elf_update_phdr P i p e))"

definition place_outcome :: "'r platform \<Rightarrow> elf_call list \<Rightarrow> 'r tool \<Rightarrow> int option \<Rightarrow> 'r tool \<Rightarrow> bool" where
  "place_outcome P cs s failed t \<longleftrightarrow>
     (\<exists>ps rest. calls t = calls s @ ps \<and> cs = ps @ rest \<and>
       (failed = None \<and> rest = [] \<or> failed = Some 1 \<and> phdr_refused P))"

lemma place_outcome_step:
  "place_outcome P cs s1 failed t \<Longrightarrow> calls s1 = calls s @ ps \<Longrightarrow> place_outcome P (ps @ cs) s failed t"
  by (force simp: place_outcome_def)

lemma place_run:
  assumes laws: "libelf_laws P" and "walks P (env s) (cur_section s) xs" and "distinct xs"
    and "\<forall>x\<in>set xs. name_of P ndx (env s) x \<noteq> None"
  shows "\<exists>failed t. repeat_until (place_round P ndx) s = (Inr failed, t) \<and>
    place_outcome P (placement (virtual_addr s) (section_rows P ndx (env s) xs)) s failed t"
  using assms(2-4)
proof (induction xs arbitrary: s)
  case Nil
  then have "repeat_until (place_round P ndx) s = (Inr None, s\<lparr>cur_section := None\<rparr>)"
    by (intro repeat_until_done place_round_None) simp
  then show ?case by (simp add: place_outcome_def section_rows_def)
next
  case (Cons x xs)
  obtain name where name: "name_of P ndx (env s) x = Some name" using Cons.prems(3) by auto
  have nxt: "elf_nextscn P (cur_section s) (env s) = Some x" using Cons.prems(1) by simp
  let ?h = "elf_getshdr P x (env s)"
  let ?goal = "\<exists>failed t. repeat_until (place_round P ndx) s = (Inr failed, t) \<and>
    place_outcome P (placement (virtual_addr s) (section_rows P ndx (env s) (x # xs))) s failed t"
  show ?case
  proof (cases "place_at name")
    case None
    let ?t = "s\<lparr>cur_section := Some x\<rparr>"
    have "\<exists>failed t. repeat_until (place_round P ndx) ?t = (Inr failed, t) \<and>
        place_outcome P (placement (virtual_addr ?t) (section_rows P ndx (env ?t) xs)) ?t failed t"
      using Cons.prems by (intro Cons.IH) simp_all
    then obtain failed u where u: "repeat_until (place_round P ndx) ?t = (Inr failed, u)"
      and out: "place_outcome P (placement (virtual_addr s) (section_rows P ndx (env s) xs)) s failed u"
      by (auto simp: place_outcome_def)
    have "repeat_until (place_round P ndx) s = (Inr failed, u)"
      by (rule repeat_until_again [where t = ?t, OF place_round_skip [OF nxt name None] u])
    then show ?goal using out by (simp add: section_rows_Cons name placement_Cons None del: placement.simps)
  next
    case (Some pl)
    obtain i mk where pl: "pl = (i, mk)" by fastforce
    obtain ok t where st: "place_state P x i mk s = (ok, t)" by fastforce
    let ?h' = "?h\<lparr>sh_addr := virtual_addr s\<rparr>"
    obtain e where e: "elf_update_phdr P i (mk ?h') (elf_update_shdr P x ?h' (env s)) = (ok, e)"
      and t: "t = s\<lparr>cur_section := Some x, virtual_addr := virtual_addr s + sh_size ?h,
        calls := calls s @ [Update_shdr x ?h', Update_phdr i (mk ?h')], env := e\<rparr>"
      using st by (auto simp: place_state_def Let_def split: prod.splits)
    note round = place_round_place [OF nxt name Some [unfolded pl] st]
    note rows = section_rows_Cons name placement_Cons Some pl option.case case_prod_conv
    show ?goal
    proof (cases ok)
      case True
      note kept = update_keeps_others [OF laws _ e, of xs]
      have "\<exists>failed u. repeat_until (place_round P ndx) t = (Inr failed, u) \<and>
          place_outcome P (placement (virtual_addr t) (section_rows P ndx (env t) xs)) t failed u"
        using Cons.prems kept rows_names [OF kept(2)] by (intro Cons.IH) (auto simp: t)
      then obtain failed u where "repeat_until (place_round P ndx) t = (Inr failed, u)"
        and out: "place_outcome P (placement (virtual_addr s + sh_size ?h) (section_rows P ndx (env s) xs)) t failed u"
        using Cons.prems(2) kept(2) by (auto simp: t)
      then have "repeat_until (place_round P ndx) s = (Inr failed, u)"
        using round True by (simp add: repeat_until_again)
      then show ?goal
        using place_outcome_step [OF out, of s] by (simp only: rows) (simp add: t)
    next
      case False
      let ?u = "t\<lparr>stderr_text := stderr_text t @ ''Error updating code phdr:'' @ elf_errmsg P (env t) @ '' '' @ [CHR 0x0A]\<rparr>"
      have "repeat_until (place_round P ndx) s = (Inr (Some 1), ?u)"
        using round False by (intro repeat_until_done) simp
      moreover have "phdr_refused P" using e False by (metis phdr_refused_def fst_conv)
      then have "place_outcome P (placement (virtual_addr s) (section_rows P ndx (env s) (x # xs))) s (Some 1) ?u"
        by (simp only: rows) (simp add: place_outcome_def t)
      ultimately show ?goal by blast
    qed
  qed
qed

section \<open>The whole pass\<close>

text \<open>The hypotheses on the file: its sections are delivered once each and all have a name.\<close>

definition well_formed :: "'r platform \<Rightarrow> 'r tool \<Rightarrow> nat list \<Rightarrow> bool" where
  "well_formed P s xs \<longleftrightarrow> (let e = elf_set_type_exec P (env s) in
     walks P e None xs \<and> distinct xs \<and> (\<forall>x\<in>set xs. name_of P (elf_shstrndx P e) e x \<noteq> None) \<and>
     cur_section s = None \<and> \<not> has_data s \<and> virtual_addr s = 0x10000)"

text \<open>The number of program headers, and the sections as they are when the second loop begins.\<close>

definition phdr_count :: "'r platform \<Rightarrow> 'r tool \<Rightarrow> nat list \<Rightarrow> nat" where
  "phdr_count P s xs = (let e = elf_set_type_exec P (env s) in
     if \<exists>x\<in>set xs. is_named P (elf_shstrndx P e) e ''.hsadata_global_program'' x then 2 else 1)"

definition laid_out :: "'r platform \<Rightarrow> 'r tool \<Rightarrow> nat list \<Rightarrow> (nat \<times> shdr \<times> string option) list" where
  "laid_out P s xs = (let e = elf_set_type_exec P (env s) in
     section_rows P (elf_shstrndx P e) (snd (elf_update P False (snd (elf_newphdr P (phdr_count P s xs) e)))) xs)"

text \<open>Some call reports a failure in the way the tool tests for it.\<close>

definition refused :: "'r platform \<Rightarrow> bool" where
  "refused P \<longleftrightarrow> (\<exists>n e. \<not> fst (elf_newphdr P n e)) \<or> (\<exists>b e. fst (elf_update P b e) = 0) \<or> phdr_refused P"

lemma same_names:
  assumes "libelf_laws P"
  shows "same_sections P e (snd (elf_update P False (snd (elf_newphdr P n e))))"
    and "name_of P ndx (snd (elf_update P False (snd (elf_newphdr P n e)))) x = name_of P ndx e x"
  using assms by (simp_all add: libelf_laws_def same_sections_def name_of_def)

lemma add_phdrs_cases:
  assumes laws: "libelf_laws P" and wf: "well_formed P s xs"
  defines "opening \<equiv> [Set_type_exec, New_phdrs (phdr_count P s xs)]"
    and "cs \<equiv> placement 0x10000 (laid_out P s xs)"
  shows "\<exists>code t. add_phdrs P s = (Inr code, t) \<and>
    (code = 1 \<and> calls t = calls s @ opening \<or>
     code = 1 \<and> (\<exists>ps rest. cs = ps @ rest \<and> calls t = calls s @ opening @ [Update_layout] @ ps) \<or>
     code = 1 \<and> calls t = calls s @ opening @ [Update_layout] @ cs @ [Update_file] \<or>
     code = 0 \<and> calls t = calls s @ opening @ [Update_layout] @ cs @ [Update_file, End_elf]) \<and>
    (code = 0 \<or> refused P)"
proof -
  let ?e = "elf_set_type_exec P (env s)" and ?n = "phdr_count P s xs"
  let ?ndx = "elf_shstrndx P ?e"
  let ?s = "s\<lparr>calls := calls s @ [Set_type_exec], env := ?e\<rparr>"
  have w: "walks P ?e None xs" "distinct xs" "\<forall>x\<in>set xs. name_of P ?ndx ?e x \<noteq> None"
    "cur_section s = None" "\<not> has_data s" "virtual_addr s = 0x10000"
    using wf by (simp_all add: well_formed_def Let_def)
  have scan: "repeat_until (scan_round P ?ndx) ?s = (Inr (), ?s\<lparr>has_data := ?n = 2\<rparr>)"
    using scan_run [of P ?s xs ?ndx] w by (simp add: phdr_count_def Let_def)
  have n: "(if ?n = 2 then 2 else 1) = ?n" by (simp add: phdr_count_def Let_def)
  obtain ok e1 where e1: "elf_newphdr P ?n ?e = (ok, e1)" by fastforce
  obtain r e2 where e2: "elf_update P False e1 = (r, e2)" by fastforce
  note run = add_phdrs_def exec scan n call_def e1 e2
  show ?thesis
  proof (cases "ok \<and> r \<noteq> 0")
    case False
    then have "refused P" unfolding refused_def using e1 e2 by (metis fst_conv)
    then show ?thesis using False by (cases ok) (auto simp: run opening_def)
  next
    case True
    let ?t = "?s\<lparr>has_data := ?n = 2, calls := calls s @ opening @ [Update_layout], env := e2, cur_section := None\<rparr>"
    have e2': "e2 = snd (elf_update P False (snd (elf_newphdr P ?n ?e)))" by (simp add: e1 e2)
    have "walks P e2 None xs" "\<forall>x\<in>set xs. name_of P ?ndx e2 x \<noteq> None"
      using w(1,3) walks_same [OF same_names(1) [OF laws]] same_names(2) [OF laws] by (simp_all add: e2')
    then obtain failed u where u: "repeat_until (place_round P ?ndx) ?t = (Inr failed, u)"
      and out: "place_outcome P cs ?t failed u"
      using place_run [OF laws, of ?t xs ?ndx] w(2,6) by (auto simp: cs_def laid_out_def Let_def e2')
    have add: "add_phdrs P s = (case failed of Some code \<Rightarrow> ret code
     | None \<Rightarrow>
         bind (log_call Update_file) (\<lambda>_.
         bind (call (elf_update P True)) (\<lambda>r.
         if r = 0 then bind (gets (\<lambda>s. elf_errmsg P (env s))) (\<lambda>msg. exit_failure [''Error elf_update:'', msg, '' '']) else
         bind (log_call End_elf) (\<lambda>_. ret 0)))) u"
      using True u by (simp add: run opening_def)
    show ?thesis
    proof (cases failed)
      case None
      then show ?thesis using out
        by (cases "fst (elf_update P True (env u)) = 0") (auto simp: add place_outcome_def exec call_def refused_def)
    next
      case (Some code)
      then show ?thesis using out by (auto simp: add place_outcome_def exec refused_def)
    qed
  qed
qed

lemma add_phdrs_calls:
  assumes "libelf_laws P" and "well_formed P s xs"
  defines "opening \<equiv> [Set_type_exec, New_phdrs (phdr_count P s xs)]"
    and "cs \<equiv> placement 0x10000 (laid_out P s xs)"
  shows "\<exists>code t. add_phdrs P s = (Inr code, t) \<and>
    (code = 1 \<and> calls t = calls s @ opening \<or>
     code = 1 \<and> (\<exists>ps rest. cs = ps @ rest \<and> calls t = calls s @ opening @ [Update_layout] @ ps) \<or>
     code = 1 \<and> calls t = calls s @ opening @ [Update_layout] @ cs @ [Update_file] \<or>
     code = 0 \<and> calls t = calls s @ opening @ [Update_layout] @ cs @ [Update_file, End_elf])"
  using add_phdrs_cases [OF assms(1,2)] unfolding opening_def cs_def by blast

text \<open>
  C31. The ELF pass of amdphdrs. If it returns success, it asked for one program header, or for two if
  there is a section of global data, and then, on the layout libelf computed, went
  through the sections in order: every code or data section got the next free address, from
  \<open>0x10000\<close> on, and a program header, index 0 for code and 1 for data, with its kind, the
  permissions of that kind, the section's offset in the file, that address as both addresses, the section's
  size as both sizes and an alignment of 256 for code and 4 for data; and the file was written last.
\<close>

theorem add_phdrs_program_headers:
  assumes "libelf_laws P" and "well_formed P s xs" and "add_phdrs P s = (Inr 0, t)"
  shows "calls t = calls s @ [Set_type_exec, New_phdrs (phdr_count P s xs), Update_layout] @
    placement 0x10000 (laid_out P s xs) @ [Update_file, End_elf]"
  using add_phdrs_cases [OF assms(1,2)] assms(3) by simp

section \<open>The segments\<close>

fun segments :: "elf_call list \<Rightarrow> (nat \<times> phdr) list" where
  "segments [] = []"
| "segments (Update_phdr i p # cs) = (i, p) # segments cs"
| "segments (_ # cs) = segments cs"

definition placed_size :: "(nat \<times> shdr \<times> string option) list \<Rightarrow> nat" where
  "placed_size rows = sum_list (map (\<lambda>(x, h, name).
     if name = Some ''.hsatext'' \<or> name = Some ''.hsadata_global_program'' then unat (sh_size h) else 0) rows)"

text \<open>One segment ends before the other begins.\<close>

definition below :: "nat \<times> phdr \<Rightarrow> nat \<times> phdr \<Rightarrow> bool" where
  "below a b \<longleftrightarrow> unat (p_vaddr (snd a)) + unat (p_memsz (snd a)) \<le> unat (p_vaddr (snd b))"

definition loadable :: "nat \<Rightarrow> nat \<times> phdr \<Rightarrow> bool" where
  "loadable n a \<longleftrightarrow> fst a < n \<and> 0x10000 \<le> unat (p_vaddr (snd a)) \<and>
     unat (p_vaddr (snd a)) + unat (p_memsz (snd a)) < 2 ^ 64 \<and>
     p_paddr (snd a) = p_vaddr (snd a) \<and> p_filesz (snd a) = p_memsz (snd a)"

lemma segments_append [simp]: "segments (xs @ ys) = segments xs @ segments ys"
  by (induction xs rule: segments.induct) simp_all

lemma placed_size_Cons:
  "placed_size ((x, h, name) # rest) =
    (if name = Some ''.hsatext'' \<or> name = Some ''.hsadata_global_program'' then unat (sh_size h) else 0) + placed_size rest"
  by (simp add: placed_size_def)

lemma placement_segments:
  assumes "unat va + placed_size rows < 2 ^ 64" and "0x10000 \<le> unat va"
    and "(\<exists>(x, h, name)\<in>set rows. name = Some ''.hsadata_global_program'') \<Longrightarrow> n = 2" and "0 < n"
  shows "sorted_wrt below (segments (placement va rows)) \<and>
    (\<forall>a\<in>set (segments (placement va rows)). unat va \<le> unat (p_vaddr (snd a)) \<and> loadable n a)"
  using assms(1-3)
proof (induction va rows rule: placement.induct)
  case (2 va x h name rest)
  show ?case
  proof (cases "name = Some ''.hsatext'' \<or> name = Some ''.hsadata_global_program''")
    case False
    then show ?thesis using 2 by (simp add: placed_size_Cons)
  next
    case True
    have total: "unat va + unat (sh_size h) + placed_size rest < 2 ^ 64"
      using 2(4) True by (auto simp: placed_size_Cons)
    let ?i = "if name = Some ''.hsatext'' then 0 else 1 :: nat"
    let ?p = "if name = Some ''.hsatext'' then segment 0x60000003 5 0x100 va h else segment 0x60000000 6 4 va h"
    have segs: "segments (placement va ((x, h, name) # rest)) = (?i, ?p) # segments (placement (va + sh_size h) rest)"
      using True by auto
    have p: "p_vaddr ?p = va" "p_memsz ?p = sh_size h" "p_paddr ?p = va" "p_filesz ?p = sh_size h"
      by (simp_all add: segment_def)
    have i: "?i < n" using 2(6) True assms(4) by auto
    have first: "loadable n (?i, ?p)" using total 2(5) i p by (simp add: loadable_def)
    have va: "unat (va + sh_size h) = unat va + unat (sh_size h)" using total by (simp add: unat_word_ariths)
    have n: "(\<exists>(x, h, name)\<in>set rest. name = Some ''.hsadata_global_program'') \<Longrightarrow> n = 2" using 2(6) by auto
    have rest: "sorted_wrt below (segments (placement (va + sh_size h) rest)) \<and>
      (\<forall>a\<in>set (segments (placement (va + sh_size h) rest)). unat (va + sh_size h) \<le> unat (p_vaddr (snd a)) \<and> loadable n a)"
      using 2(1,2) True total 2(5) n unfolding va by (cases "name = Some ''.hsatext''") (auto simp: va)
    then have "\<forall>a\<in>set (segments (placement (va + sh_size h) rest)). below (?i, ?p) a"
      unfolding below_def using p by (simp add: va)
    then show ?thesis unfolding segs using first p rest by (auto simp: va)
  qed
qed simp

text \<open>The same for a first part of the placement, where the loop stopped at an error.\<close>

lemma placement_prefix:
  assumes "placement va rows = ps @ rest" and "unat va + placed_size rows < 2 ^ 64" and "0x10000 \<le> unat va"
    and "(\<exists>(x, h, name)\<in>set rows. name = Some ''.hsadata_global_program'') \<Longrightarrow> n = 2" and "0 < n"
  shows "sorted_wrt below (segments ps) \<and> (\<forall>a\<in>set (segments ps). loadable n a)"
  using placement_segments [OF assms(2-5)] unfolding assms(1) by (auto simp: sorted_wrt_append)

lemma phdr_count_rows:
  assumes "libelf_laws P"
  shows "(\<exists>(x, h, name)\<in>set (laid_out P s xs). name = Some ''.hsadata_global_program'') \<Longrightarrow> phdr_count P s xs = 2"
    and "0 < phdr_count P s xs"
  by (auto simp: laid_out_def section_rows_def phdr_count_def is_named_def Let_def same_names(2) [OF assms])

text \<open>
  C32. The segments of amdphdrs, however its ELF pass ends: every program header it writes has an index
  within the table it asked for, lies at or above \<open>0x10000\<close>, agrees in its two addresses
  and its two sizes, and ends before the one written after it begins. The sections placed
  fit into the address space.
\<close>

theorem add_phdrs_segments:
  assumes "libelf_laws P" and "well_formed P s xs" and "calls s = []" and "add_phdrs P s = (Inr code, t)"
    and "0x10000 + placed_size (laid_out P s xs) < 2 ^ 64"
  shows "sorted_wrt below (segments (calls t)) \<and> (\<forall>a\<in>set (segments (calls t)). loadable (phdr_count P s xs) a)"
proof -
  let ?cs = "placement 0x10000 (laid_out P s xs)"
  obtain ps rest where ps: "?cs = ps @ rest" and segs: "segments (calls t) = segments ps"
  proof -
    have "\<exists>ps rest. ?cs = ps @ rest \<and> segments (calls t) = segments ps"
      using add_phdrs_calls [OF assms(1,2)] unfolding assms(3,4)
      by (elim exE conjE disjE) (simp_all, metis append_Nil segments.simps(1), (metis append_Nil2)+)
    then show ?thesis using that by blast
  qed
  show ?thesis
    unfolding segs using placement_prefix [OF ps _ _ phdr_count_rows [OF assms(1)]] assms(5) by simp
qed

section \<open>Exit codes\<close>

text \<open>A part of the run that reports nothing and neither writes the file back nor releases the handle.\<close>

definition silent :: "'r tool \<Rightarrow> 'r tool \<Rightarrow> bool" where
  "silent s t \<longleftrightarrow> stderr_text t = stderr_text s \<and> (\<exists>cs. calls t = calls s @ cs \<and> End_elf \<notin> set cs)"

interpretation silent: frame silent
proof
  fix s t u :: "'r tool"
  show "silent s s" by (simp add: silent_def)
  assume "silent s t" and "silent t u"
  then show "silent s u" by (fastforce simp: silent_def)
qed

lemma silent_call: "stable silent (call f)"
  by (simp add: stable_def call_def silent_def)

lemma silent_log: "c \<noteq> End_elf \<Longrightarrow> stable silent (log_call c)"
  by (simp add: stable_def log_call_def modify_def silent_def)

lemma silent_copy_loop: "stable silent (copy_loop P)"
  unfolding copy_loop_def copy_round_def
  by (intro silent.stable_repeat_until silent.stable_bind silent.stable_if silent.stable_ret)
     (simp_all add: stable_def read_input_def write_output_def silent_def Let_def split: prod.split)

lemma silent_section_info: "stable silent (section_info P ndx x)"
  unfolding section_info_def
  by (intro silent.stable_bind silent.stable_gets silent.stable_deref silent.stable_ret)

lemma silent_next_section: "stable silent (next_section P)"
  unfolding next_section_def
  by (intro silent.stable_bind silent.stable_gets silent.stable_ret stable_modify) (simp add: silent_def)

lemma silent_scan: "stable silent (repeat_until (scan_round P ndx))"
  unfolding scan_round_def
  by (intro silent.stable_repeat_until silent.stable_bind silent_next_section silent.stable_case_option
      silent.stable_ret silent_section_info silent.stable_case_prod silent.stable_if stable_modify)
     (simp add: silent_def)

text \<open>How the program may end.\<close>

definition told :: "'r tool \<Rightarrow> 'r tool \<Rightarrow> bool" where
  "told s t \<longleftrightarrow> (\<exists>msg. msg \<noteq> [] \<and> stderr_text t = stderr_text s @ msg) \<and>
     (\<exists>cs. calls t = calls s @ cs \<and> End_elf \<notin> set cs)"

definition done_silently :: "'r tool \<Rightarrow> 'r tool \<Rightarrow> bool" where
  "done_silently s t \<longleftrightarrow> stderr_text t = stderr_text s \<and> (\<exists>cs. calls t = calls s @ cs @ [Update_file, End_elf])"

definition ends_well :: "('r tool, int) prog \<Rightarrow> bool" where
  "ends_well m \<longleftrightarrow> (\<forall>s code t. m s = (Inr code, t) \<longrightarrow> code = 0 \<and> done_silently s t \<or> code = 1 \<and> told s t)"

lemma silent_told: "silent s t \<Longrightarrow> told t u \<Longrightarrow> told s u"
  by (fastforce simp: silent_def told_def)

lemma silent_done: "silent s t \<Longrightarrow> done_silently t u \<Longrightarrow> done_silently s u"
  by (fastforce simp: silent_def done_silently_def)

lemma ends_well_bind:
  assumes "stable silent m" and "\<And>x. ends_well (k x)"
  shows "ends_well (bind m k)"
  unfolding ends_well_def
proof (intro allI impI)
  fix s code t
  assume "bind m k s = (Inr code, t)"
  then obtain x u where u: "m s = (Inr x, u)" and k: "k x u = (Inr code, t)" by (auto simp: bind_eq_Inr)
  then show "code = 0 \<and> done_silently s t \<or> code = 1 \<and> told s t"
    using assms(2) [of x] stableD [OF assms(1) u] unfolding ends_well_def
    by (blast intro: silent_told silent_done)
qed

lemma ends_well_exit_failure: "ends_well (exit_failure xs)"
  by (simp add: ends_well_def told_def exec)

lemma ends_well_if: "ends_well m \<Longrightarrow> ends_well n \<Longrightarrow> ends_well (if c then m else n)"
  by simp

lemma ends_well_gets: "(\<And>x. ends_well (k x)) \<Longrightarrow> ends_well (bind (gets f) k)"
  by (rule ends_well_bind [OF silent.stable_gets])

lemma ends_well_told:
  assumes "\<And>s. \<exists>t. m s = (Inr (), t) \<and> told s t" and "ends_well (exit_failure xs)"
  shows "ends_well (bind m (\<lambda>_. exit_failure xs))"
  unfolding ends_well_def
proof (intro allI impI)
  fix s code t
  assume run: "bind m (\<lambda>_. exit_failure xs) s = (Inr code, t)"
  obtain u where "m s = (Inr (), u)" and "told s u" using assms(1) by blast
  then show "code = 0 \<and> done_silently s t \<or> code = 1 \<and> told s t"
    using run by (auto simp: bind_def exec told_def)
qed

text \<open>A round of the second loop, and the loop.\<close>

lemma place_round_ends:
  assumes "place_round P ndx s = (Inr r, t)"
  shows "case r of Some (Some code) \<Rightarrow> code = 1 \<and> told s t | _ \<Rightarrow> silent s t"
proof -
  obtain sec u where n: "next_section P s = (Inr sec, u)" and su: "silent s u"
    using assms stableD [OF silent_next_section] by (fastforce simp: place_round_def bind_eq_Inr)
  show ?thesis
  proof (cases sec)
    case None
    then show ?thesis using assms n su by (auto simp: place_round_def bind_def ret_def)
  next
    case (Some x)
    obtain h name where i: "section_info P ndx x u = (Inr (h, name), u)"
      using assms n Some by (auto simp: place_round_def bind_def section_info_def exec deref_def split: option.splits)
    have "(\<forall>code. failed = Some code \<longrightarrow> code = 1 \<and> told u v) \<and> (failed = None \<longrightarrow> silent u v)"
      if "place_section P x h k mk u = (Inr failed, v)" for k mk failed v
      using that by (auto simp: place_section_def exec call_def Let_def told_def silent_def split: if_splits)
    then show ?thesis
      using assms n Some i silent_told [OF su] silent.frame_trans [OF su] su
      by (auto simp: place_round_def bind_def ret_def split: if_splits prod.splits sum.splits option.splits)
  qed
qed

lemma place_loop_ends:
  assumes "repeat_until (place_round P ndx) s = (Inr failed, t)"
  shows "case failed of Some code \<Rightarrow> code = 1 \<and> told s t | None \<Rightarrow> silent s t"
proof -
  have "silent s t'" if "silent s u" "place_round P ndx u = (Inr None, t')" for u t'
    using place_round_ends [OF that(2)] silent.frame_trans [OF that(1)] by simp
  then obtain u where u: "silent s u" and last: "place_round P ndx u = (Inr (Some failed), t)"
    using repeat_until_last [OF assms, where I = "silent s"] silent.frame_refl by blast
  show ?thesis
    using place_round_ends [OF last] silent_told [OF u] silent.frame_trans [OF u] by (cases failed) auto
qed

lemma ends_well_place:
  assumes "ends_well k"
  shows "ends_well (bind (repeat_until (place_round P ndx)) (\<lambda>failed. case failed of Some code \<Rightarrow> ret code | None \<Rightarrow> k))"
  unfolding ends_well_def
proof (intro allI impI)
  fix s code t
  assume "bind (repeat_until (place_round P ndx)) (\<lambda>failed. case failed of Some code \<Rightarrow> ret code | None \<Rightarrow> k) s = (Inr code, t)"
  then obtain failed u where u: "repeat_until (place_round P ndx) s = (Inr failed, u)"
    and k: "(case failed of Some code \<Rightarrow> ret code | None \<Rightarrow> k) u = (Inr code, t)"
    by (auto simp: bind_eq_Inr)
  show "code = 0 \<and> done_silently s t \<or> code = 1 \<and> told s t"
  proof (cases failed)
    case None
    then have "silent s u" and "k u = (Inr code, t)" using place_loop_ends [OF u] k by simp_all
    then show ?thesis using assms unfolding ends_well_def by (blast intro: silent_told silent_done)
  next
    case (Some c)
    then show ?thesis using place_loop_ends [OF u] k by (simp add: ret_def)
  qed
qed

lemma ends_well_write:
  "ends_well (bind (log_call Update_file) (\<lambda>_.
     bind (call (elf_update P True)) (\<lambda>r.
     if r = 0 then bind (gets (\<lambda>s. elf_errmsg P (env s))) (\<lambda>msg. exit_failure [''Error elf_update:'', msg, '' '']) else
     bind (log_call End_elf) (\<lambda>_. ret 0))))"
  by (simp add: ends_well_def exec call_def told_def done_silently_def split: if_splits)

lemma ends_well_add_phdrs: "ends_well (add_phdrs P)"
  unfolding add_phdrs_def
  by (intro ends_well_bind [OF silent_log] ends_well_bind [OF silent_call] ends_well_bind [OF silent_scan]
      ends_well_place ends_well_gets ends_well_if ends_well_exit_failure ends_well_write
      ends_well_bind [OF stable_modify]) (simp_all add: silent_def)

lemma ends_well_usage: "ends_well (bind print_usage (\<lambda>_. ret 1))"
  by (simp add: print_usage_def ends_well_def told_def exec)

lemma ends_well_case_option:
  "ends_well m \<Longrightarrow> (\<And>x. ends_well (f x)) \<Longrightarrow> ends_well (case p of None \<Rightarrow> m | Some x \<Rightarrow> f x)"
  by (cases p) simp_all

lemma ends_well_case_sum:
  "(\<And>x. ends_well (g x)) \<Longrightarrow> (\<And>x. ends_well (f x)) \<Longrightarrow> ends_well (case p of Inl x \<Rightarrow> g x | Inr x \<Rightarrow> f x)"
  by (cases p) simp_all

lemma ends_well_open_output:
  "ends_well (bind (fprintf_stderr xs) (\<lambda>_. bind (gets f) (\<lambda>msg. exit_failure [msg])))"
  by (simp add: ends_well_def told_def exec)

lemma ends_well_main: "ends_well (amdphdrs_main P argv)"
proof -
  have "ends_well (amdphdrs_main P [a, i, j])" for a i j
    unfolding amdphdrs_main_def list.case
    by (intro ends_well_bind [OF silent_call] ends_well_bind [OF silent_copy_loop] ends_well_case_option
        ends_well_case_sum ends_well_open_output ends_well_gets ends_well_if ends_well_exit_failure
        ends_well_add_phdrs ends_well_bind [OF stable_modify]) (simp_all add: silent_def)
  then show ?thesis
    unfolding amdphdrs_main_def
    by (auto split: list.splits intro: ends_well_usage)
qed

text \<open>
  C33. The exit code of amdphdrs. When it returns, it returns 0 having reported nothing and with writing
  the file and releasing the handle as its last two calls, or it returns 1 having reported
  something and without releasing the handle.
\<close>

theorem amdphdrs_exit_code:
  assumes "amdphdrs_main P argv s = (Inr code, t)"
  shows "(code = 0 \<and> stderr_text t = stderr_text s \<and> (\<exists>cs. calls t = calls s @ cs @ [Update_file, End_elf])) \<or>
    (code = 1 \<and> (\<exists>msg. msg \<noteq> [] \<and> stderr_text t = stderr_text s @ msg) \<and>
      (\<exists>cs. calls t = calls s @ cs \<and> End_elf \<notin> set cs))"
  using ends_well_main assms unfolding ends_well_def done_silently_def told_def by blast

text \<open>
  A failure of \<open>elf_update\<close> is not noticed: libelf reports it by \<open>-1\<close>, but the tool tests for
  0. Where every \<open>elf_update\<close> fails, the layout and the write of the file, the pass
  still returns success.
\<close>

theorem add_phdrs_misses_update_error:
  assumes "libelf_laws P" and "well_formed P s xs"
    and "\<forall>b e. fst (elf_update P b e) = - 1"
    and "\<forall>n e. fst (elf_newphdr P n e)" and "\<forall>i p e. fst (elf_update_phdr P i p e)"
  shows "\<exists>t. add_phdrs P s = (Inr 0, t)"
proof -
  have "\<not> refused P" using assms(3-5) by (simp add: refused_def phdr_refused_def)
  then show ?thesis using add_phdrs_cases [OF assms(1,2)] by metis
qed

section \<open>A reference platform\<close>

text \<open>
  An ELF file with three sections of fixed names, whose descriptor is the list of their headers; it shows
  that the hypotheses can hold. The argument is the value of \<open>elf_update\<close>.
\<close>

definition ref_names :: "string list" where
  "ref_names = [[], ''.hsatext'', ''.hsadata_global_program'']"

definition ref_shdr :: "u32 \<Rightarrow> u64 \<Rightarrow> u64 \<Rightarrow> shdr" where
  "ref_shdr name off sz = \<lparr>sh_name = name, sh_type = 1, sh_flags = 0, sh_addr = 0, sh_offset = off, sh_size = sz,
     sh_link = 0, sh_info = 0, sh_addralign = 0, sh_entsize = 0\<rparr>"

definition ref_platform :: "int \<Rightarrow> (nat \<Rightarrow> shdr) platform" where
  "ref_platform upd = \<lparr>
     sys_open_input = (\<lambda>f r. (Some [1, 2, 3], r)),
     sys_open_output = (\<lambda>f r. (Some [9], r)),
     sys_read = (\<lambda>n k r. (int (min n k), r)),
     sys_write = (\<lambda>n r. (int n, r)),
     sys_rewind = (\<lambda>r. (0, r)),
     sys_error_text = (\<lambda>r. ''No such file or directory''),
     elf_begin = (\<lambda>f r. (True, r)),
     elf_getehdr = (\<lambda>r. True),
     elf_set_type_exec = (\<lambda>r. r),
     elf_shstrndx = (\<lambda>r. 3),
     elf_nextscn = (\<lambda>c r. case c of None \<Rightarrow> Some 0 | Some i \<Rightarrow> if i < 2 then Some (Suc i) else None),
     elf_getshdr = (\<lambda>x r. r x),
     elf_strptr = (\<lambda>i n r. if unat n < 3 then Some (ref_names ! unat n) else None),
     elf_newphdr = (\<lambda>n r. (True, r)),
     elf_update_shdr = (\<lambda>x h r. r(x := h)),
     elf_update_phdr = (\<lambda>i p r. (True, r)),
     elf_update = (\<lambda>b r. (upd, r)),
     elf_errmsg = (\<lambda>r. ''no error'')\<rparr>"

definition ref_sections :: "nat \<Rightarrow> shdr" where
  "ref_sections x = (if x = 0 then ref_shdr 0 0 0 else if x = 1 then ref_shdr 1 0x100 0x54 else ref_shdr 2 0x200 8)"

definition ref_tool :: "(nat \<Rightarrow> shdr) tool" where
  "ref_tool = \<lparr>env = ref_sections, unread = [], out_bytes = [], out_pos = 0, read_buf = replicate READ_SIZE 0,
     cur_section = None, has_data = False, virtual_addr = 0x10000, stderr_text = [], calls = []\<rparr>"

lemmas ref_platform_defs = ref_platform_def ref_sections_def ref_tool_def ref_shdr_def ref_names_def

lemma ref_laws: "libelf_laws (ref_platform upd)"
  by (simp add: libelf_laws_def same_sections_def ref_platform_def)

lemma ref_well_formed: "well_formed (ref_platform upd) ref_tool [0, 1, 2]"
  by (simp add: well_formed_def name_of_def ref_platform_defs Let_def)

lemma ref_whole: "whole_reads (ref_platform upd)" "whole_writes (ref_platform upd)"
  by (simp_all add: whole_reads_def whole_writes_def ref_platform_def)

lemma ref_layout:
  "phdr_count (ref_platform upd) ref_tool [0, 1, 2] = 2"
  "laid_out (ref_platform upd) ref_tool [0, 1, 2] =
    [(0, ref_shdr 0 0 0, Some []), (1, ref_shdr 1 0x100 0x54, Some ''.hsatext''),
     (2, ref_shdr 2 0x200 8, Some ''.hsadata_global_program'')]"
  by (simp_all add: phdr_count_def laid_out_def section_rows_def is_named_def name_of_def ref_platform_defs Let_def)

theorem copy_loop_copies_witness:
  "\<exists>t. copy_loop (ref_platform 64) (ref_tool\<lparr>unread := [1, 2, 3], out_bytes := [9]\<rparr>) = (Inr (Inr 0), t) \<and>
    take 3 (out_bytes t) = [1, 2, 3] \<and> length (out_bytes t) = 1024"
  using copy_loop_copies [OF ref_whole, of "ref_tool\<lparr>unread := [1, 2, 3], out_bytes := [9]\<rparr>" 64]
  by (auto simp: ref_tool_def READ_SIZE_def numeral_3_eq_3)

theorem add_phdrs_misses_update_error_witness:
  "\<exists>t. add_phdrs (ref_platform (- 1)) ref_tool = (Inr 0, t)"
  by (rule add_phdrs_misses_update_error [OF ref_laws ref_well_formed]) (simp_all add: ref_platform_def)

lemma ref_add_phdrs: "upd \<noteq> 0 \<Longrightarrow> \<exists>t. add_phdrs (ref_platform upd) ref_tool = (Inr 0, t)"
  using add_phdrs_cases [OF ref_laws ref_well_formed, of upd]
  by (auto simp: refused_def phdr_refused_def ref_platform_def)

theorem add_phdrs_program_headers_witness:
  "\<exists>t. add_phdrs (ref_platform 64) ref_tool = (Inr 0, t) \<and> calls t =
    [Set_type_exec, New_phdrs 2, Update_layout,
     Update_shdr 1 ((ref_shdr 1 0x100 0x54)\<lparr>sh_addr := 0x10000\<rparr>),
     Update_phdr 0 \<lparr>p_type = 0x60000003, p_flags = 5, p_offset = 0x100, p_vaddr = 0x10000, p_paddr = 0x10000,
       p_filesz = 0x54, p_memsz = 0x54, p_align = 0x100\<rparr>,
     Update_shdr 2 ((ref_shdr 2 0x200 8)\<lparr>sh_addr := 0x10054\<rparr>),
     Update_phdr 1 \<lparr>p_type = 0x60000000, p_flags = 6, p_offset = 0x200, p_vaddr = 0x10054, p_paddr = 0x10054,
       p_filesz = 8, p_memsz = 8, p_align = 4\<rparr>,
     Update_file, End_elf]"
proof -
  obtain t where "add_phdrs (ref_platform 64) ref_tool = (Inr 0, t)" using ref_add_phdrs [of 64] by auto
  moreover have "calls ref_tool = []" by (simp add: ref_tool_def)
  moreover have "sh_size (ref_shdr i off n) = n" "sh_offset (ref_shdr i off n) = off" for i off n by (simp_all add: ref_shdr_def)
  ultimately show ?thesis
    using add_phdrs_program_headers [OF ref_laws ref_well_formed, of 64] by (simp add: ref_layout segment_def del: One_nat_def)
qed

theorem add_phdrs_segments_witness:
  "\<exists>t. add_phdrs (ref_platform 64) ref_tool = (Inr 0, t) \<and> sorted_wrt below (segments (calls t)) \<and>
    (\<forall>a\<in>set (segments (calls t)). loadable 2 a)"
proof -
  obtain t where t: "add_phdrs (ref_platform 64) ref_tool = (Inr 0, t)" using ref_add_phdrs [of 64] by auto
  have "0x10000 + placed_size (laid_out (ref_platform 64) ref_tool [0, 1, 2]) < 2 ^ 64"
    by (simp add: ref_layout(2) placed_size_def ref_shdr_def del: One_nat_def)
  then show ?thesis
    using t add_phdrs_segments [OF ref_laws ref_well_formed _ t] by (simp add: ref_layout(1) del: One_nat_def) (simp add: ref_tool_def)
qed

theorem amdphdrs_exit_code_witness:
  "\<exists>t. amdphdrs_main (ref_platform 64) [''amdphdrs''] ref_tool = (Inr 1, t) \<and>
    (\<exists>msg. msg \<noteq> [] \<and> stderr_text t = stderr_text ref_tool @ msg)"
proof -
  obtain t where "amdphdrs_main (ref_platform 64) [''amdphdrs''] ref_tool = (Inr 1, t)"
    by (simp add: amdphdrs_main_def print_usage_def exec)
  then show ?thesis using amdphdrs_exit_code by fastforce
qed

end
