(* ===== verification/Llvm_Examples.thy ===== *)
theory Llvm_Examples
  imports Prelude
begin

text \<open>
  What the two examples of the LLVM API share (examples/api): the interface to LLVM, which is not part
  of the repository and so a parameter, the stream \<open>outs()\<close>, and the hexadecimal dump of a
  byte sequence.
\<close>

section \<open>The interface to LLVM\<close>

text \<open>
  What \<open>lookup_target\<close> finds depends on the components that have been initialised. Objects of LLVM are handles; a creator that may give a null pointer gives an option. \<open>run_parser\<close> gives
  the result of \<open>Parser->Run\<close>, which is true on an error, and the object code the streamer has
  written; \<open>get_instruction\<close> gives the status, the number of bytes consumed and the
  instruction; \<open>printed\<close> gives the contents of the string behind the assembly streamer once these
  instructions have been emitted.
\<close>

datatype component = Target_infos | Target_MCs | Asm_parsers | Disassemblers

datatype decode_status = Fail | SoftFail | Success

record llvm =
  normalize_triple :: "string \<Rightarrow> string"
  lookup_target :: "component list \<Rightarrow> string \<Rightarrow> string \<Rightarrow> string + nat"
  create_instr_info :: "nat \<Rightarrow> nat option"
  create_reg_info :: "nat \<Rightarrow> string \<Rightarrow> nat option"
  create_asm_info :: "nat \<Rightarrow> nat \<Rightarrow> string \<Rightarrow> nat option"
  create_subtarget_info :: "nat \<Rightarrow> string \<Rightarrow> string \<Rightarrow> string \<Rightarrow> nat option"
  create_asm_backend :: "nat \<Rightarrow> nat \<Rightarrow> string \<Rightarrow> string \<Rightarrow> nat option"
  create_object_streamer :: "nat \<Rightarrow> nat \<Rightarrow> nat \<Rightarrow> nat \<Rightarrow> nat option"
  create_target_parser :: "nat \<Rightarrow> nat \<Rightarrow> nat \<Rightarrow> nat option"
  run_parser :: "nat \<Rightarrow> string \<Rightarrow> bool \<times> u8 list"
  create_disassembler :: "nat \<Rightarrow> nat \<Rightarrow> nat option"
  create_asm_streamer :: "nat \<Rightarrow> nat \<Rightarrow> nat \<Rightarrow> nat \<Rightarrow> nat option"
  get_instruction :: "nat \<Rightarrow> u8 list \<Rightarrow> u64 \<Rightarrow> decode_status \<times> u64 \<times> nat"
  printed :: "nat list \<Rightarrow> string"
  format_hex4 :: "u8 \<Rightarrow> string"

section \<open>State and output\<close>

text \<open>
  The components initialised, the text sent to \<open>outs()\<close>, the instructions given to the streamer, and the variable \<open>Index\<close> of the
  disassembly loop.
\<close>

record app =
  initialized :: "component list"
  outs :: string
  emitted :: "nat list"
  index :: u64

definition write_out :: "string list \<Rightarrow> (app, unit) prog" where
  "write_out xs = modify (\<lambda>s. s\<lparr>outs := outs s @ concat xs\<rparr>)"

lemma write_out_run [exec]: "write_out xs s = (Inr (), s\<lparr>outs := outs s @ concat xs\<rparr>)"
  by (simp add: write_out_def modify_def)

definition initialize :: "component \<Rightarrow> (app, unit) prog" where
  "initialize c = modify (\<lambda>s. s\<lparr>initialized := initialized s @ [c]\<rparr>)"

lemma initialize_run [exec]: "initialize c s = (Inr (), s\<lparr>initialized := initialized s @ [c]\<rparr>)"
  by (simp add: initialize_def modify_def)

section \<open>The dump\<close>

definition hex_dump :: "llvm \<Rightarrow> u8 list \<Rightarrow> (app, unit) prog" where
  "hex_dump L data =
     bind (for_each [0..<length data] (\<lambda>i.
       bind (write_out [format_hex4 L (data ! i)]) (\<lambda>_.
       write_out [if (i + 1) mod 16 = 0 then newline else '' '']))) (\<lambda>_.
     write_out [newline])"

text \<open>The same text by rows: a full row of 16 ends its line, a shorter last row does not.\<close>

fun rows16 :: "'a list \<Rightarrow> 'a list list" where
  "rows16 xs = (if xs = [] then [] else take 16 xs # rows16 (drop 16 xs))"

declare rows16.simps [simp del]

definition row_text :: "llvm \<Rightarrow> u8 list \<Rightarrow> string" where
  "row_text L row =
     (if length row = 16
      then concat (map (\<lambda>b. format_hex4 L b @ '' '') (butlast row)) @ format_hex4 L (last row) @ newline
      else concat (map (\<lambda>b. format_hex4 L b @ '' '') row))"

definition dump_text :: "llvm \<Rightarrow> u8 list \<Rightarrow> string" where
  "dump_text L data = concat (map (row_text L) (rows16 data)) @ newline"

text \<open>The text of the loop over the elements from index \<open>k\<close> on.\<close>

primrec cells :: "llvm \<Rightarrow> nat \<Rightarrow> u8 list \<Rightarrow> string" where
  "cells L k [] = []"
| "cells L k (x # xs) = format_hex4 L x @ (if (k + 1) mod 16 = 0 then newline else '' '') @ cells L (Suc k) xs"

lemma cells_append: "cells L k (xs @ ys) = cells L k xs @ cells L (k + length xs) ys"
  by (induction xs arbitrary: k) simp_all

lemma cells_shift: "cells L (16 + k) xs = cells L k xs"
proof (induction xs arbitrary: k)
  case (Cons x xs)
  have "(16 + k + 1) mod 16 = (k + 1) mod 16" by (metis add.assoc mod_add_self1)
  moreover have "cells L (Suc (16 + k)) xs = cells L (Suc k) xs" using Cons [of "Suc k"] by simp
  ultimately show ?case by (simp only: cells.simps)
qed simp

lemma cells_short: "k + length xs < 16 \<Longrightarrow> cells L k xs = concat (map (\<lambda>b. format_hex4 L b @ '' '') xs)"
  by (induction xs arbitrary: k) simp_all

lemma cells_row:
  assumes "length row \<le> 16"
  shows "cells L 0 row = row_text L row"
proof (cases "length row = 16")
  case True
  then have "row \<noteq> []" by auto
  then have "cells L 0 row = cells L 0 (butlast row) @ cells L (length (butlast row)) [last row]"
    using cells_append [of L 0 "butlast row" "[last row]"] by (metis append_butlast_last_id add_0)
  also have "length (butlast row) = 15" using True by simp
  finally show ?thesis using True cells_short [of 0 "butlast row" L] by (simp add: row_text_def)
next
  case False
  then show ?thesis using assms cells_short [of 0 row L] by (simp add: row_text_def)
qed

lemma cells_rows: "cells L 0 data = concat (map (row_text L) (rows16 data))"
proof (induction data rule: rows16.induct)
  case (1 data)
  show ?case
  proof (cases "data = []")
    case False
    have "cells L 0 data = cells L 0 (take 16 data) @ cells L (length (take 16 data)) (drop 16 data)"
      using cells_append [of L 0 "take 16 data" "drop 16 data"] by simp
    also have "cells L (length (take 16 data)) (drop 16 data) = cells L 0 (drop 16 data)"
      using cells_shift [of L 0 "drop 16 data"] by (cases "length data < 16") simp_all
    finally show ?thesis using 1 False cells_row [of "take 16 data" L] by (subst rows16.simps) simp
  qed (simp add: rows16.simps)
qed

lemma hex_loop:
  "for_each [k..<k + length xs] (\<lambda>i.
       bind (write_out [format_hex4 L (f i)]) (\<lambda>_.
       write_out [if (i + 1) mod 16 = 0 then newline else '' ''])) s
    = (Inr (), s\<lparr>outs := outs s @ cells L k (map f [k..<k + length xs])\<rparr>)" for xs :: "'a list"
proof (induction xs arbitrary: k s)
  case (Cons x xs)
  have "[k..<k + length (x # xs)] = k # [Suc k..<Suc k + length xs]" by (subst upt_rec) simp
  then show ?case using Cons [of "Suc k"] by (simp add: exec)
qed (simp add: exec)

lemma hex_dump_run [exec]: "hex_dump L data s = (Inr (), s\<lparr>outs := outs s @ dump_text L data\<rparr>)"
  using hex_loop [of 0 data L "\<lambda>i. data ! i"] by (simp add: hex_dump_def exec map_nth dump_text_def flip: cells_rows)

text \<open>
  C37. The hexadecimal dump shows the bytes in rows of sixteen: the loop over single bytes, which decides
  after each one between a space and a line end, writes full rows that end their line without
  a trailing space and a last row, if it is shorter, with one; an empty line follows full
  rows, and only the end of the line a shorter row.
\<close>

theorem hex_dump_rows:
  "hex_dump L data s = (Inr (), s\<lparr>outs := outs s @ concat (map (row_text L) (rows16 data)) @ newline\<rparr>) \<and>
   concat (rows16 data) = data \<and>
   take (length data div 16) (map length (rows16 data)) = replicate (length data div 16) 16"
proof -
  have "concat (rows16 data) = data"
    by (induction data rule: rows16.induct) (subst rows16.simps, auto)
  moreover have "take (length data div 16) (map length (rows16 data)) = replicate (length data div 16) 16"
  proof (induction data rule: rows16.induct)
    case (1 data)
    show ?case
    proof (cases "length data < 16")
      case False
      then have "length data div 16 = Suc (length (drop 16 data) div 16)" by (simp add: le_div_geq)
      then show ?thesis using 1 False by (subst rows16.simps) auto
    qed simp
  qed
  ultimately show ?thesis by (simp add: hex_dump_run dump_text_def)
qed

end
