(* ===== verification/Assemble.thy ===== *)
theory Assemble
  imports Llvm_Examples
begin

text \<open>
  examples/api/assemble/assemble.cpp: assembling a source text in memory and dumping the object code.
\<close>

definition AssemblySource :: string where
  "AssemblySource =
     ''        .text                         '' @ newline @
     ''        s_nop 0                       '' @ newline @
     ''        s_waitcnt lgkmcnt(0)          '' @ newline @
     ''        s_endpgm                      '' @ newline"

text \<open>The registries of LLVM are filled before the target is looked up.\<close>

definition Assembler_Init :: "(app, unit) prog" where
  "Assembler_Init =
     bind (initialize Target_infos) (\<lambda>_.
     bind (initialize Target_MCs) (\<lambda>_.
     bind (initialize Asm_parsers) (\<lambda>_.
     initialize Disassemblers)))"

text \<open>
  The members \<open>ArchName\<close>, \<open>TripleName\<close> and \<open>MCPU\<close> are constants. The pointers that the source
  dereferences without a test are options that are dereferenced; those it tests are cases.
\<close>

definition RunAssemble :: "llvm \<Rightarrow> (app, int) prog" where
  "RunAssemble L =
     bind (write_out [''Running assembly'', newline]) (\<lambda>_.
     bind (write_out [''Source:'', newline]) (\<lambda>_.
     bind (write_out [AssemblySource, newline]) (\<lambda>_.
     bind (gets initialized) (\<lambda>registered.
     case lookup_target L registered ''amdgcn'' (normalize_triple L []) of
       Inl err \<Rightarrow> bind (write_out [err]) (\<lambda>_. ret 2)
     | Inr target \<Rightarrow>
     (case create_reg_info L target [] of
       None \<Rightarrow> bind (write_out [''error: no register info for target '', [], newline]) (\<lambda>_. ret (- 1))
     | Some mri \<Rightarrow>
     (case create_asm_info L target mri [] of
       None \<Rightarrow> bind (write_out [''error: no assembly info for target '', [], newline]) (\<lambda>_. ret (- 1))
     | Some mai \<Rightarrow>
     bind (deref (create_instr_info L target)) (\<lambda>mcii.
     bind (deref (create_asm_backend L target mri [] ''fiji'')) (\<lambda>mab.
     bind (deref (create_subtarget_info L target [] ''fiji'' [])) (\<lambda>sti.
     bind (deref (create_object_streamer L target mcii mab sti)) (\<lambda>streamer.
     case create_target_parser L target sti mcii of
       None \<Rightarrow> bind (write_out [''error: this target does not support assembly parsing.'', newline]) (\<lambda>_. ret 1)
     | Some tap \<Rightarrow>
     let (failed, data) = run_parser L tap AssemblySource in
     if failed then bind (write_out [''Assembly parser failed'', newline]) (\<lambda>_. ret 1) else
     bind (write_out [''Assembled data (length '', decimal (length data), '')'', newline]) (\<lambda>_.
     bind (hex_dump L data) (\<lambda>_.
     ret 0))))))))))))"

definition assemble_main :: "llvm \<Rightarrow> (app, int) prog" where
  "assemble_main L =
     bind Assembler_Init (\<lambda>_.
     bind (RunAssemble L) (\<lambda>res. if res \<noteq> 0 then ret res else ret 0))"

lemma RunAssemble_cases:
  assumes "RunAssemble L s = (Inr code, t)"
  defines "banner \<equiv> ''Running assembly'' @ newline @ ''Source:'' @ newline @ AssemblySource @ newline"
  shows "(code = 0 \<and> (\<exists>tap data. run_parser L tap AssemblySource = (False, data) \<and>
      outs t = outs s @ banner @ ''Assembled data (length '' @ decimal (length data) @ '')'' @ newline @ dump_text L data)) \<or>
    (code \<in> {1, 2, - 1} \<and> (\<exists>msg. outs t = outs s @ banner @ msg \<and>
      (msg \<in> {''error: no register info for target '' @ newline, ''error: no assembly info for target '' @ newline,
              ''error: this target does not support assembly parsing.'' @ newline, ''Assembly parser failed'' @ newline} \<or>
       lookup_target L (initialized s) ''amdgcn'' (normalize_triple L []) = Inl msg)))"
  using assms(1)
  by (auto simp: RunAssemble_def exec banner_def deref_def split: sum.splits option.splits prod.splits if_splits) blast+

text \<open>
  C38. The assembler example: its exit code is 0 only if the parser accepted the source, and then the
  output ends with the dump of the code the parser produced, after its length; every other
  exit code is 1, 2 or -1 and follows one of the five error messages, of which that of the target lookup comes
  from LLVM with all four of its registries initialised. It hands the exact source text
  it prints to the parser.
\<close>

theorem assemble_outcome:
  assumes "assemble_main L s = (Inr code, t)"
  shows "(code = 0 \<and> (\<exists>tap data. run_parser L tap AssemblySource = (False, data) \<and>
      outs t = outs s @ (''Running assembly'' @ newline @ ''Source:'' @ newline @ AssemblySource @ newline) @
        ''Assembled data (length '' @ decimal (length data) @ '')'' @ newline @
        concat (map (row_text L) (rows16 data)) @ newline)) \<or>
    (code \<in> {1, 2, - 1} \<and>
      (\<exists>msg. outs t = outs s @ (''Running assembly'' @ newline @ ''Source:'' @ newline @ AssemblySource @ newline) @ msg \<and>
      (msg \<in> {''error: no register info for target '' @ newline, ''error: no assembly info for target '' @ newline,
              ''error: this target does not support assembly parsing.'' @ newline, ''Assembly parser failed'' @ newline} \<or>
       lookup_target L (initialized s @ [Target_infos, Target_MCs, Asm_parsers, Disassemblers]) ''amdgcn''
         (normalize_triple L []) = Inl msg)))"
proof -
  let ?s = "s\<lparr>initialized := initialized s @ [Target_infos, Target_MCs, Asm_parsers, Disassemblers]\<rparr>"
  have "RunAssemble L ?s = (Inr code, t)"
    using assms by (auto simp: assemble_main_def Assembler_Init_def exec ret_def split: prod.splits sum.splits if_splits)
  from RunAssemble_cases [OF this] show ?thesis by (simp add: dump_text_def)
qed

section \<open>A reference LLVM\<close>

text \<open>An LLVM that encodes every source as the same three instructions.\<close>

definition ref_format :: "u8 \<Rightarrow> string" where
  "ref_format b = ''0x'' @ map (\<lambda>d. ''0123456789abcdef'' ! unat d) [b div 16, b mod 16]"

definition ref_llvm :: llvm where
  "ref_llvm = \<lparr>normalize_triple = (\<lambda>t. t), lookup_target = (\<lambda>c a t. if Target_infos \<in> set c then Inr 1 else Inl ''no target''), create_instr_info = (\<lambda>t. Some 2),
     create_reg_info = (\<lambda>t n. Some 3), create_asm_info = (\<lambda>t r n. Some 4), create_subtarget_info = (\<lambda>t n c f. Some 5),
     create_asm_backend = (\<lambda>t r n c. Some 6), create_object_streamer = (\<lambda>t i b s. Some 7),
     create_target_parser = (\<lambda>t s i. Some 8),
     run_parser = (\<lambda>p src. (False, [0x00, 0x00, 0x80, 0xBF, 0x7F, 0x00, 0x8C, 0xBF, 0x00, 0x00, 0x81, 0xBF])),
     create_disassembler = (\<lambda>t s. Some 9), create_asm_streamer = (\<lambda>t a i r. Some 10),
     get_instruction = (\<lambda>d xs i. if length xs < 4 then (Fail, 0, 0) else (Success, 4, 0)),
     printed = (\<lambda>is. concat (map (\<lambda>_. ''s_nop 0'' @ newline) is)), format_hex4 = ref_format\<rparr>"

theorem assemble_outcome_witness:
  "\<exists>t data. assemble_main ref_llvm \<lparr>initialized = [], outs = [], emitted = [], index = 0\<rparr> = (Inr 0, t) \<and>
    (\<exists>tap. run_parser ref_llvm tap AssemblySource = (False, data) \<and>
    outs t = (''Running assembly'' @ newline @ ''Source:'' @ newline @ AssemblySource @ newline) @
        ''Assembled data (length '' @ decimal (length data) @ '')'' @ newline @
        concat (map (row_text ref_llvm) (rows16 data)) @ newline)"
proof -
  obtain t where t: "assemble_main ref_llvm \<lparr>initialized = [], outs = [], emitted = [], index = 0\<rparr> = (Inr 0, t)"
    by (simp add: assemble_main_def Assembler_Init_def RunAssemble_def ref_llvm_def exec)
  from assemble_outcome [OF t] show ?thesis using t by auto
qed

end
