(* ===== verification/Disassemble.thy ===== *)
theory Disassemble
  imports Assemble
begin

text \<open>
  examples/api/disassemble/disassemble.cpp: decoding a byte sequence instruction by instruction.
\<close>

definition Instructions :: "u8 list" where
  "Instructions = [
     0x00, 0x00, 0x80, 0xBF,
     0x7F, 0x00, 0x8C, 0xBF,
     0x00, 0x00, 0x81, 0xBF]"

text \<open>The registries of LLVM are filled before the target is looked up.\<close>

definition Disassembler_Init :: "(app, unit) prog" where
  "Disassembler_Init =
     bind (initialize Target_infos) (\<lambda>_.
     bind (initialize Target_MCs) (\<lambda>_.
     bind (initialize Asm_parsers) (\<lambda>_.
     initialize Disassemblers)))"

text \<open>One round of the loop over \<open>Index\<close>: the exit code, or 0 where the loop ends.\<close>

definition disassemble_round :: "llvm \<Rightarrow> nat \<Rightarrow> u8 list \<Rightarrow> (app, int option) prog" where
  "disassemble_round L dis data =
     bind (gets index) (\<lambda>i.
     if \<not> i < of_nat (length data) then ret (Some 0) else
     let (status, sz, inst) = get_instruction L dis (drop (unat i) data) i in
     case status of
       Success \<Rightarrow>
         bind (modify (\<lambda>s. s\<lparr>emitted := emitted s @ [inst]\<rparr>)) (\<lambda>_.
         bind (modify (\<lambda>s. s\<lparr>index := i + sz\<rparr>)) (\<lambda>_. ret None))
     | _ \<Rightarrow> bind (write_out [''Disassembly failed'', newline]) (\<lambda>_. ret (Some 1)))"

definition disassemble_loop :: "llvm \<Rightarrow> nat \<Rightarrow> u8 list \<Rightarrow> (app, int) prog" where
  "disassemble_loop L dis data =
     bind (modify (\<lambda>s. s\<lparr>index := 0\<rparr>)) (\<lambda>_. repeat_until (disassemble_round L dis data))"

definition RunDisassemble :: "llvm \<Rightarrow> (app, int) prog" where
  "RunDisassemble L =
     bind (gets initialized) (\<lambda>registered.
     case lookup_target L registered ''amdgcn'' (normalize_triple L []) of
       Inl err \<Rightarrow> bind (write_out [err]) (\<lambda>_. ret 2)
     | Inr target \<Rightarrow>
     bind (write_out [''Instruction stream (length '', decimal (length Instructions), '')'', newline]) (\<lambda>_.
     bind (hex_dump L Instructions) (\<lambda>_.
     bind (write_out [''Running disassembly'', newline]) (\<lambda>_.
     case create_reg_info L target [] of
       None \<Rightarrow> bind (write_out [''error: no register info for target '', [], newline]) (\<lambda>_. ret (- 1))
     | Some mri \<Rightarrow>
     (case create_asm_info L target mri [] of
       None \<Rightarrow> bind (write_out [''error: no assembly info for target '', [], newline]) (\<lambda>_. ret (- 1))
     | Some mai \<Rightarrow>
     bind (deref (create_subtarget_info L target [] ''fiji'' [])) (\<lambda>sti.
     case create_disassembler L target sti of
       None \<Rightarrow> bind (write_out [''error: no disassembler for target '', [], newline]) (\<lambda>_. ret (- 1))
     | Some dis \<Rightarrow>
     bind (deref (create_instr_info L target)) (\<lambda>mcii.
     bind (deref (create_asm_streamer L target mai mcii mri)) (\<lambda>streamer.
     bind (disassemble_loop L dis Instructions) (\<lambda>code.
     if code \<noteq> 0 then ret code else
     bind (write_out [''Disassembled instructions:'', newline]) (\<lambda>_.
     bind (gets emitted) (\<lambda>insts.
     bind (write_out [printed L insts, newline]) (\<lambda>_.
     ret 0))))))))))))"

definition disassemble_main :: "llvm \<Rightarrow> (app, int) prog" where
  "disassemble_main L =
     bind Disassembler_Init (\<lambda>_.
     bind (RunDisassemble L) (\<lambda>res. if res \<noteq> 0 then ret res else ret 0))"

section \<open>Decoding as a relation\<close>

text \<open>A byte sequence at an address decodes to a list of instructions that cover it without a gap.\<close>

inductive decodes :: "llvm \<Rightarrow> nat \<Rightarrow> u64 \<Rightarrow> u8 list \<Rightarrow> nat list \<Rightarrow> bool" for L dis where
  decodes_end: "decodes L dis i [] []"
| decodes_step: "xs \<noteq> [] \<Longrightarrow> get_instruction L dis xs i = (Success, sz, inst) \<Longrightarrow>
    decodes L dis (i + sz) (drop (unat sz) xs) insts \<Longrightarrow> decodes L dis i xs (inst # insts)"

inductive_cases decodes_endE: "decodes L dis i [] insts"
inductive_cases decodes_stepE: "decodes L dis i (x # xs) insts"

text \<open>
  The contract of \<open>getInstruction\<close>: an instruction decoded has a length, and lies within the bytes
  given.
\<close>

definition consumes :: "llvm \<Rightarrow> nat \<Rightarrow> bool" where
  "consumes L dis \<longleftrightarrow> (\<forall>xs i sz inst. get_instruction L dis xs i = (Success, sz, inst) \<longrightarrow>
     0 < unat sz \<and> unat sz \<le> length xs)"

lemma decodes_deterministic: "decodes L dis i xs insts \<Longrightarrow> decodes L dis i xs js \<Longrightarrow> js = insts"
proof (induction arbitrary: js rule: decodes.induct)
  case (decodes_end i)
  then show ?case by (auto elim: decodes_endE)
next
  case (decodes_step xs i sz inst insts)
  then obtain y ys where xs: "xs = y # ys" by (auto simp: neq_Nil_conv)
  from decodes_step.prems [unfolded xs] show ?case
    by (rule decodes_stepE) (use decodes_step xs in auto)
qed

lemma disassemble_loop_from:
  assumes contract: "consumes L dis" and len: "length data < 2 ^ 64" and "unat (index s) \<le> length data"
  defines "fresh \<equiv> drop (unat (index s)) data"
  shows "\<exists>t. (\<exists>insts. decodes L dis (index s) fresh insts \<and> emitted t = emitted s @ insts \<and> outs t = outs s \<and>
      repeat_until (disassemble_round L dis data) s = (Inr 0, t)) \<or>
    (\<nexists>insts. decodes L dis (index s) fresh insts) \<and> outs t = outs s @ ''Disassembly failed'' @ newline \<and>
      repeat_until (disassemble_round L dis data) s = (Inr 1, t)"
  using assms(3) unfolding fresh_def
proof (induction "length data - unat (index s)" arbitrary: s rule: less_induct)
  case less
  let ?i = "unat (index s)" and ?run = "repeat_until (disassemble_round L dis data)"
  show ?case
  proof (cases "?i < length data")
    case False
    then have "disassemble_round L dis data s = (Inr (Some 0), s)"
      using len by (simp add: disassemble_round_def exec word_less_nat_alt)
    then have "?run s = (Inr 0, s)" by (rule repeat_until_done)
    then show ?thesis using False by (auto intro!: exI [of _ s] exI [of _ "[]"] decodes_end)
  next
    case True
    then have cont: "index s < of_nat (length data)" using len by (simp add: word_less_nat_alt)
    obtain status sz inst where g: "get_instruction L dis (drop ?i data) (index s) = (status, sz, inst)"
      by (metis surj_pair)
    obtain x xs where x: "drop ?i data = x # xs" using True by (metis Cons_nth_drop_Suc)
    show ?thesis
    proof (cases "status = Success")
      case False
      let ?t = "s\<lparr>outs := outs s @ ''Disassembly failed'' @ newline\<rparr>"
      have "disassemble_round L dis data s = (Inr (Some 1), ?t)"
        using cont g False by (cases status) (simp_all add: disassemble_round_def exec)
      then have "?run s = (Inr 1, ?t)" by (rule repeat_until_done)
      moreover have "\<nexists>insts. decodes L dis (index s) (drop ?i data) insts"
        using g False unfolding x by (auto elim: decodes_stepE)
      ultimately show ?thesis by (intro exI [of _ ?t]) simp
    next
      case True
      let ?s = "s\<lparr>emitted := emitted s @ [inst], index := index s + sz\<rparr>"
      have "disassemble_round L dis data s = (Inr None, ?s)"
        using cont g True by (simp add: disassemble_round_def exec)
      note again = repeat_until_again [where body = "disassemble_round L dis data" and s = s, OF this]
      have sz: "0 < unat sz" "unat sz \<le> length data - ?i"
        using contract g True unfolding consumes_def by fastforce+
      have idx: "unat (index s + sz) = ?i + unat sz"
        using sz(2) len less.prems by (simp add: unat_word_ariths)
      have rest: "drop (?i + unat sz) data = drop (unat sz) (drop ?i data)" by (simp add: add.commute)
      have step: "decodes L dis (index s) (drop ?i data) js \<longleftrightarrow>
          (\<exists>insts. js = inst # insts \<and> decodes L dis (index s + sz) (drop (?i + unat sz) data) insts)" for js
        using g True unfolding rest x by (auto elim!: decodes_stepE intro: decodes_step)
      have "length data - unat (index ?s) < length data - ?i" "unat (index ?s) \<le> length data"
        using sz less.prems by (simp_all add: idx)
      from less.hyps [OF this] obtain t where
        "(\<exists>insts. decodes L dis (index s + sz) (drop (?i + unat sz) data) insts \<and>
            emitted t = emitted s @ inst # insts \<and> outs t = outs s \<and> ?run ?s = (Inr 0, t)) \<or>
         (\<nexists>insts. decodes L dis (index s + sz) (drop (?i + unat sz) data) insts) \<and>
            outs t = outs s @ ''Disassembly failed'' @ newline \<and> ?run ?s = (Inr 1, t)"
        by (auto simp: idx)
      then show ?thesis
        unfolding step using again by (intro exI [of _ t]) blast
    qed
  qed
qed

lemma disassemble_loop_decoding:
  assumes "consumes L dis" and "length data < 2 ^ 64"
  shows "\<exists>t. (\<exists>insts. decodes L dis 0 data insts \<and> emitted t = emitted s @ insts \<and> outs t = outs s \<and>
      disassemble_loop L dis data s = (Inr 0, t)) \<or>
    (\<nexists>insts. decodes L dis 0 data insts) \<and> outs t = outs s @ ''Disassembly failed'' @ newline \<and>
      disassemble_loop L dis data s = (Inr 1, t)"
proof -
  have "disassemble_loop L dis data s = repeat_until (disassemble_round L dis data) (s\<lparr>index := 0\<rparr>)"
    by (simp add: disassemble_loop_def bind_def modify_def)
  then show ?thesis using disassemble_loop_from [OF assms, of "s\<lparr>index := 0\<rparr>"] by auto
qed

text \<open>
  C39. The disassembly loop terminates and decides whether the bytes decode: it ends with 0 exactly if they
  decode to a list of instructions that covers them without a gap, and then it has given the
  streamer just these instructions in order; otherwise it prints the failure and ends with
  1. The decoder consumes at least one and at most all of the bytes it is given.
\<close>

theorem disassemble_loop_decodes:
  assumes "consumes L dis" and "length data < 2 ^ 64"
  shows "\<exists>t. (\<exists>insts. decodes L dis 0 data insts \<and> emitted t = emitted s @ insts \<and> outs t = outs s \<and>
      disassemble_loop L dis data s = (Inr 0, t)) \<or>
    (\<nexists>insts. decodes L dis 0 data insts) \<and> outs t = outs s @ ''Disassembly failed'' @ newline \<and>
      disassemble_loop L dis data s = (Inr 1, t)"
  by (rule disassemble_loop_decoding [OF assms])

text \<open>
  Without that contract the loop need not end: a decoder that reports success without consuming a
  byte keeps it at the same index for ever.
\<close>

theorem disassemble_loop_stuck:
  assumes "data \<noteq> []" and "length data < 2 ^ 64" and "get_instruction L dis data 0 = (Success, 0, inst)"
  shows "fst (disassemble_loop L dis data s) = Inl Diverges"
proof -
  have "repeat_until (disassemble_round L dis data) (s\<lparr>index := 0\<rparr>) = (Inl Diverges, s\<lparr>index := 0\<rparr>)"
  proof (rule repeat_until_diverges [where I = "\<lambda>t. index t = 0"])
    fix t :: app
    assume "index t = 0"
    moreover have "0 < (of_nat (length data) :: u64)" using assms(1,2) by (simp add: word_less_nat_alt)
    ultimately have "disassemble_round L dis data t = (Inr None, t\<lparr>emitted := emitted t @ [inst], index := 0\<rparr>)"
      using assms(3) by (simp add: disassemble_round_def exec)
    then show "\<exists>t'. disassemble_round L dis data t = (Inr None, t') \<and> index t' = 0" by simp
  qed simp
  then show ?thesis by (simp add: disassemble_loop_def bind_def modify_def)
qed

text \<open>What the example has of LLVM when it reaches the loop: every part it asks for is there.\<close>

abbreviation found_target :: "llvm \<Rightarrow> component list \<Rightarrow> string + nat" where
  "found_target L cs \<equiv> lookup_target L (cs @ [Target_infos, Target_MCs, Asm_parsers, Disassemblers]) ''amdgcn'' (normalize_triple L [])"

definition disassembler_for :: "llvm \<Rightarrow> component list \<Rightarrow> nat \<Rightarrow> bool" where
  "disassembler_for L cs dis \<longleftrightarrow> (\<exists>target mri mai sti.
     found_target L cs = Inr target \<and> create_reg_info L target [] = Some mri \<and> create_asm_info L target mri [] = Some mai \<and>
     create_subtarget_info L target [] ''fiji'' [] = Some sti \<and> create_disassembler L target sti = Some dis)"

text \<open>The parts whose absence it reports, in the order in which it looks for them.\<close>

definition part_missing :: "llvm \<Rightarrow> nat \<Rightarrow> string \<Rightarrow> bool" where
  "part_missing L target what \<longleftrightarrow>
     (case create_reg_info L target [] of None \<Rightarrow> what = ''register info''
      | Some mri \<Rightarrow> (case create_asm_info L target mri [] of None \<Rightarrow> what = ''assembly info''
      | Some mai \<Rightarrow> what = ''disassembler'' \<and>
          (\<exists>sti. create_subtarget_info L target [] ''fiji'' [] = Some sti \<and> create_disassembler L target sti = None)))"

definition stream_banner :: "llvm \<Rightarrow> string" where
  "stream_banner L = ''Instruction stream (length '' @ decimal 12 @ '')'' @ newline @ dump_text L Instructions @
     ''Running disassembly'' @ newline"

text \<open>
  C40. The disassembler example, by its exit code. 0: the bytes of the example decode, and the output is
  their dump and what the printer made of exactly the decoded instructions. 1: they do not decode, which is
  reported after the dump. 2: LLVM has no target of that name, and the output is the reason it gives. -1: it
  has the target but not the part that the report names. There is no other exit code.
\<close>

theorem disassemble_outcome:
  assumes "disassemble_main L s = (Inr code, t)" and "emitted s = []" and "\<forall>dis. consumes L dis"
  shows "(code = 0 \<and> (\<exists>dis insts. disassembler_for L (initialized s) dis \<and> decodes L dis 0 Instructions insts \<and>
      outs t = outs s @ stream_banner L @ ''Disassembled instructions:'' @ newline @ printed L insts @ newline)) \<or>
    (code = 1 \<and> (\<exists>dis. disassembler_for L (initialized s) dis \<and> (\<nexists>insts. decodes L dis 0 Instructions insts)) \<and>
      outs t = outs s @ stream_banner L @ ''Disassembly failed'' @ newline) \<or>
    (code = 2 \<and> (\<exists>err. found_target L (initialized s) = Inl err \<and> outs t = outs s @ err)) \<or>
    (code = - 1 \<and> (\<exists>target what. found_target L (initialized s) = Inr target \<and> part_missing L target what \<and>
      outs t = outs s @ stream_banner L @ ''error: no '' @ what @ '' for target '' @ newline))"
proof -
  have len: "length Instructions = 12" by (simp add: Instructions_def)
  let ?i = "s\<lparr>initialized := initialized s @ [Target_infos, Target_MCs, Asm_parsers, Disassemblers]\<rparr>"
  have run: "RunDisassemble L ?i = (Inr code, t)"
    using assms(1) by (auto simp: disassemble_main_def Disassembler_Init_def exec ret_def split: prod.splits sum.splits if_splits)
  let ?u = "?i\<lparr>outs := outs s @ stream_banner L\<rparr>"
  let ?k = "\<lambda>code. if code \<noteq> 0 then ret code else
     bind (write_out [''Disassembled instructions:'', newline]) (\<lambda>_.
     bind (gets emitted) (\<lambda>insts. bind (write_out [printed L insts, newline]) (\<lambda>_. ret 0)))"
  have "(code = 2 \<and> (\<exists>err. found_target L (initialized s) = Inl err \<and> outs t = outs s @ err)) \<or>
    (code = - 1 \<and> (\<exists>target what. found_target L (initialized s) = Inr target \<and> part_missing L target what \<and>
      outs t = outs s @ stream_banner L @ ''error: no '' @ what @ '' for target '' @ newline)) \<or>
    (\<exists>dis. disassembler_for L (initialized s) dis \<and> bind (disassemble_loop L dis Instructions) ?k ?u = (Inr code, t))"
    using run
    by (auto simp: RunDisassemble_def exec len deref_def part_missing_def disassembler_for_def stream_banner_def split: sum.splits option.splits)
  then consider "code = 2 \<and> (\<exists>err. found_target L (initialized s) = Inl err \<and> outs t = outs s @ err)"
    | "code = - 1 \<and> (\<exists>target what. found_target L (initialized s) = Inr target \<and> part_missing L target what \<and>
        outs t = outs s @ stream_banner L @ ''error: no '' @ what @ '' for target '' @ newline)"
    | dis where "disassembler_for L (initialized s) dis" "bind (disassemble_loop L dis Instructions) ?k ?u = (Inr code, t)"
    by blast
  then show ?thesis
  proof cases
    case 3
    note dis = 3(1) and r = 3(2)
    have "consumes L dis" "length Instructions < 2 ^ 64" using assms(3) by (simp_all add: len)
    from disassemble_loop_decoding [OF this, of ?u] obtain v where
      "(\<exists>insts. decodes L dis 0 Instructions insts \<and> emitted v = emitted ?u @ insts \<and> outs v = outs ?u \<and>
         disassemble_loop L dis Instructions ?u = (Inr 0, v)) \<or>
       (\<nexists>insts. decodes L dis 0 Instructions insts) \<and> outs v = outs ?u @ ''Disassembly failed'' @ newline \<and>
         disassemble_loop L dis Instructions ?u = (Inr 1, v)" ..
    then show ?thesis
    proof
      assume "\<exists>insts. decodes L dis 0 Instructions insts \<and> emitted v = emitted ?u @ insts \<and> outs v = outs ?u \<and>
         disassemble_loop L dis Instructions ?u = (Inr 0, v)"
      then obtain insts where dec: "decodes L dis 0 Instructions insts" and v: "emitted v = insts" "outs v = outs ?u"
        and lp: "disassemble_loop L dis Instructions ?u = (Inr 0, v)" using assms(2) by auto
      have "bind (disassemble_loop L dis Instructions) ?k ?u = ?k 0 v" by (simp only: bind_def lp prod.case sum.case)
      then have "code = 0 \<and> outs t = outs v @ ''Disassembled instructions:'' @ newline @ printed L insts @ newline"
        using r by (auto simp: exec v(1))
      then show ?thesis using dec dis unfolding v(2) by auto
    next
      assume "(\<nexists>insts. decodes L dis 0 Instructions insts) \<and> outs v = outs ?u @ ''Disassembly failed'' @ newline \<and>
         disassemble_loop L dis Instructions ?u = (Inr 1, v)"
      then show ?thesis using r dis by (auto simp: exec)
    qed
  qed blast+
qed

section \<open>On the reference LLVM\<close>

lemma ref_consumes: "consumes ref_llvm dis"
  by (simp add: consumes_def ref_llvm_def)

lemma ref_decodes: "decodes ref_llvm 9 0 Instructions [0, 0, 0]"
  unfolding Instructions_def
  by (rule decodes_step [where sz = 4], simp, simp add: ref_llvm_def, simp)+ (simp add: decodes_end)

lemma ref_loop: "\<exists>t. disassemble_loop ref_llvm 9 Instructions s = (Inr 0, t)"
proof -
  have "length Instructions < 2 ^ 64" by (simp add: Instructions_def)
  from disassemble_loop_decoding [OF ref_consumes this, of 9 s] show ?thesis using ref_decodes by blast
qed

lemma ref_llvm_members:
  "lookup_target ref_llvm cs' a b = (if Target_infos \<in> set cs' then Inr 1 else Inl ''no target'')" "create_reg_info ref_llvm t n = Some 3" "create_asm_info ref_llvm t r n = Some 4"
  "create_subtarget_info ref_llvm t n c x = Some 5" "create_disassembler ref_llvm t i = Some 9"
  "create_instr_info ref_llvm t = Some 2" "create_asm_streamer ref_llvm t a' i r = Some 10"
  by (simp_all add: ref_llvm_def)

theorem disassemble_loop_decodes_witness:
  "\<exists>t. disassemble_loop ref_llvm 9 Instructions \<lparr>initialized = [], outs = [], emitted = [], index = 7\<rparr> = (Inr 0, t) \<and> emitted t = [0, 0, 0]"
proof -
  have "length Instructions < 2 ^ 64" by (simp add: Instructions_def)
  from disassemble_loop_decodes [OF ref_consumes this, of 9 "\<lparr>initialized = [], outs = [], emitted = [], index = 7\<rparr>"]
  show ?thesis using ref_decodes decodes_deterministic by fastforce
qed

theorem disassemble_loop_stuck_witness:
  "fst (disassemble_loop (ref_llvm\<lparr>get_instruction := \<lambda>d xs i. (Success, 0, 0)\<rparr>) 9 Instructions
    \<lparr>initialized = [], outs = [], emitted = [], index = 0\<rparr>) = Inl Diverges"
  by (rule disassemble_loop_stuck) (simp_all add: Instructions_def)

theorem disassemble_outcome_witness:
  "\<exists>t. disassemble_main ref_llvm \<lparr>initialized = [], outs = [], emitted = [], index = 0\<rparr> = (Inr 0, t) \<and>
    (\<exists>dis insts. decodes ref_llvm dis 0 Instructions insts)"
proof -
  let ?s = "\<lparr>initialized = [], outs = [], emitted = [], index = 0\<rparr>"
  obtain f where f: "\<And>v. disassemble_loop ref_llvm 9 Instructions v = (Inr 0, f v)" using ref_loop by metis
  obtain t where "disassemble_main ref_llvm ?s = (Inr 0, t)"
    by (simp add: disassemble_main_def Disassembler_Init_def RunDisassemble_def ref_llvm_members exec f)
  then show ?thesis using disassemble_outcome [of ref_llvm ?s] ref_consumes by fastforce
qed

end
