(* ===== verification/Debug_Output.thy ===== *)
theory Debug_Output
  imports Gcn_Kernels
begin

text \<open>
  examples/gfx8/debug.inc: assembler macros that copy registers of a kernel into rows of sixteen vector registers
  and store the rows to a debug buffer, for one wavefront of a workgroup. A macro is a function on the symbols of the assembler that yields
  instructions; \<open>dbg_i\<close>, the next row, is a symbol the macros change.
\<close>

section \<open>The macros\<close>

text \<open>What the file that uses the macros defines, and the numbers of the registers it allocated for them.\<close>

record debug_symbols =
  enable_debug_output :: bool
  debug_wid :: u32
  dbg_ptr :: nat
  dbg :: nat
  dbg_wave_id :: nat
  dbg_exec_lo :: nat
  dbg_exec_hi :: nat

definition save_exec :: "debug_symbols \<Rightarrow> instr list" where
  "save_exec s = [
     S_waitcnt True True,
     S_mov_b32 (To_sgpr (dbg_exec_lo s)) Exec_lo,
     S_mov_b32 (To_sgpr (dbg_exec_hi s)) Exec_hi,
     S_mov_b64_exec (- 1)]"

definition restore_exec :: "debug_symbols \<Rightarrow> instr list" where
  "restore_exec s = [
     S_mov_b32 To_exec_lo (Sgpr (dbg_exec_lo s)),
     S_mov_b32 To_exec_hi (Sgpr (dbg_exec_hi s))]"

text \<open>\<open>.rept\<close> of a copy of the \<open>i\<close>-th source to row \<open>dbg_i\<close>.\<close>

primrec rept_rows :: "nat \<Rightarrow> (nat \<Rightarrow> nat \<Rightarrow> instr) \<Rightarrow> nat \<Rightarrow> nat \<Rightarrow> instr list \<times> nat" where
  "rept_rows 0 body i dbg_i = ([], dbg_i)"
| "rept_rows (Suc n) body i dbg_i =
     (let (is, dbg_i') = rept_rows n body (i + 1) (if dbg_i + 1 = 16 then 0 else dbg_i + 1)
      in (body i dbg_i # is, dbg_i'))"

definition dump_rows :: "debug_symbols \<Rightarrow> nat \<Rightarrow> (nat \<Rightarrow> nat \<Rightarrow> instr) \<Rightarrow> nat \<Rightarrow> instr list \<times> nat" where
  "dump_rows s n body dbg_i =
     (if enable_debug_output s
      then let (is, dbg_i') = rept_rows n body 0 dbg_i in (save_exec s @ is @ restore_exec s, dbg_i')
      else ([], dbg_i))"

definition dump_vgpr :: "debug_symbols \<Rightarrow> nat \<Rightarrow> nat \<Rightarrow> nat \<Rightarrow> instr list \<times> nat" where
  "dump_vgpr s vgpr n = dump_rows s n (\<lambda>i dbg_i. V_mov_b32 (dbg s + dbg_i) (Vgpr (vgpr + i)))"

definition dump_fvgpr :: "debug_symbols \<Rightarrow> nat \<Rightarrow> nat \<Rightarrow> nat \<Rightarrow> instr list \<times> nat" where
  "dump_fvgpr s vgpr n = dump_rows s n (\<lambda>i dbg_i. V_cvt_f32_i32 (dbg s + dbg_i) (Vgpr (vgpr + i)))"

definition dump_sgpr :: "debug_symbols \<Rightarrow> nat \<Rightarrow> nat \<Rightarrow> nat \<Rightarrow> instr list \<times> nat" where
  "dump_sgpr s sgpr n = dump_rows s n (\<lambda>i dbg_i. V_mov_b32 (dbg s + dbg_i) (Sgpr (sgpr + i)))"

definition dump_fsgpr :: "debug_symbols \<Rightarrow> nat \<Rightarrow> nat \<Rightarrow> nat \<Rightarrow> instr list \<times> nat" where
  "dump_fsgpr s sgpr n = dump_rows s n (\<lambda>i dbg_i. V_cvt_f32_i32 (dbg s + dbg_i) (Sgpr (sgpr + i)))"

text \<open>The stores of \<open>dbg_store\<close>, and the macro.\<close>

primrec rept_stores :: "debug_symbols \<Rightarrow> nat \<Rightarrow> nat \<Rightarrow> instr list" where
  "rept_stores s 0 i = []"
| "rept_stores s (Suc n) i =
     [Flat_store_dword (dbg_ptr s) (dbg s + i),
      V_add_u32 (dbg_ptr s) (Literal 0x100) (dbg_ptr s),
      V_addc_u32 (dbg_ptr s + 1) (dbg_ptr s + 1)] @ rept_stores s n (i + 1)"

definition dbg_store :: "debug_symbols \<Rightarrow> instr list" where
  "dbg_store s =
     (if enable_debug_output s
      then save_exec s @ [V_cmpx_eq_i32 (dbg_wave_id s) (debug_wid s)] @ rept_stores s 16 0 @
        [S_waitcnt True True] @ restore_exec s
      else [])"

section \<open>Saving and restoring the lanes\<close>

text \<open>The wavefront inside the macros: all lanes, and the mask to restore in two scalar registers.\<close>

definition saved :: "debug_symbols \<Rightarrow> wave \<Rightarrow> wave" where
  "saved s w = w\<lparr>exec_mask := - 1, pend_lgkm := [], pend_flat := [], recent := (None, None),
     sreg := (sreg w)(dbg_exec_lo s := ucast (exec_mask w), dbg_exec_hi s := ucast (drop_bit 32 (exec_mask w)))\<rparr>"

lemma run_save: "run_code A (save_exec s) w = Some (saved s w)"
  by (simp add: save_exec_def saved_def busy_def hazard_def alu_writes_def dpp_reads_def dst_regs_def set_dst_def)

lemma run_restore:
  assumes "pend_lgkm w = []" "pend_flat w = []" "dbg_exec_lo s \<noteq> dbg_exec_hi s"
  shows "run_code A (restore_exec s) w = Some (w\<lparr>exec_mask := pair64 (sreg w (dbg_exec_hi s)) (sreg w (dbg_exec_lo s)), recent := (None, None)\<rparr>)"
  using assms by (simp add: restore_exec_def busy_def hazard_def alu_writes_def dpp_reads_def dst_regs_def set_dst_def)

section \<open>Rows\<close>

definition row :: "debug_symbols \<Rightarrow> nat \<Rightarrow> nat \<Rightarrow> nat" where
  "row s dbg_i k = dbg s + (dbg_i + k) mod 16"

lemma row_Suc: "row s (if Suc d = 16 then 0 else Suc d) k = row s d (Suc k)"
proof (cases "Suc d = 16")
  case True
  then have "d + Suc k = k + 16" by simp
  then show ?thesis using True by (simp add: row_def)
qed (simp add: row_def)

lemma row_0: "d < 16 \<Longrightarrow> row s d 0 = dbg s + d"
  by (simp add: row_def)

lemma row_inj: "k < 16 \<Longrightarrow> k' < 16 \<Longrightarrow> row s d k = row s d k' \<longleftrightarrow> k = k'"
proof -
  assume k: "k < 16" "k' < 16"
  have "(d + j) mod 16 = (if d mod 16 + j < 16 then d mod 16 + j else d mod 16 + j - 16)" if "j < 16" for j
    using that mod_less_divisor [of 16 d] mod_add_left_eq [of d 16 j, symmetric] by (simp add: le_mod_geq)
  with k show ?thesis by (auto simp: row_def)
qed

text \<open>The instructions the macros repeat: copy a register, or convert it.\<close>

definition copies :: "alu \<Rightarrow> debug_symbols \<Rightarrow> (nat \<Rightarrow> nat \<Rightarrow> instr) \<Rightarrow> (nat \<Rightarrow> src) \<Rightarrow> (u32 \<Rightarrow> u32) \<Rightarrow> bool" where
  "copies A s body x f \<longleftrightarrow>
     body = (\<lambda>i t. V_mov_b32 (dbg s + t) (x i)) \<and> f = id \<or>
     body = (\<lambda>i t. V_cvt_f32_i32 (dbg s + t) (x i)) \<and> f = alu_cvt_f32_i32 A"

lemma run_copy:
  assumes "copies A s body x f" and "pend_lgkm w = []" and "pend_flat w = []"
  shows "run_code A (body i t # is) w = run_code A is (w\<lparr>recent := (Some (dbg s + t), fst (recent w)),
     vreg := set_lanes (exec_mask w) (dbg s + t) (\<lambda>l. f (src_value (x i) w l)) (vreg w)\<rparr>)"
proof -
  have same: "src_value (x i) (w\<lparr>recent := r\<rparr>) = src_value (x i) w" for r by (cases "x i") simp_all
  then show ?thesis using assms by (auto simp: copies_def busy_def hazard_def alu_writes_def dpp_reads_def list_ex_iff)
qed

text \<open>A source that is not a row keeps its value while the rows are written.\<close>

definition no_row :: "debug_symbols \<Rightarrow> src \<Rightarrow> bool" where
  "no_row s x \<longleftrightarrow> (case x of Vgpr a \<Rightarrow> a \<notin> {dbg s..<dbg s + 16} | _ \<Rightarrow> True)"

lemma no_row_value:
  assumes "no_row s x" and "\<And>y. y \<notin> {dbg s..<dbg s + 16} \<Longrightarrow> v y = vreg w y"
  shows "src_value x (w\<lparr>recent := r, vreg := v\<rparr>) = src_value x w"
  using assms by (cases x) (auto simp: no_row_def)

lemma rept_rows_Suc:
  "fst (rept_rows (Suc n) body i d) = body i d # fst (rept_rows n body (Suc i) (if Suc d = 16 then 0 else Suc d))"
  "snd (rept_rows (Suc n) body i d) = snd (rept_rows n body (Suc i) (if Suc d = 16 then 0 else Suc d))"
  by (simp_all split: prod.split)

lemma run_rept_rows:
  assumes "copies A s body x f"
  shows "n \<le> 16 \<Longrightarrow> d < 16 \<Longrightarrow> exec_mask w = - 1 \<Longrightarrow> pend_lgkm w = [] \<Longrightarrow> pend_flat w = [] \<Longrightarrow>
    (\<And>k. k < n \<Longrightarrow> no_row s (x (i + k))) \<Longrightarrow>
    \<exists>v r. run_code A (fst (rept_rows n body i d)) w = Some (w\<lparr>recent := r, vreg := v\<rparr>) \<and>
      (\<forall>y. y \<notin> row s d ` {..<n} \<longrightarrow> v y = vreg w y) \<and>
      (\<forall>k<n. \<forall>l<64. v (row s d k) l = f (src_value (x (i + k)) w l)) \<and>
      snd (rept_rows n body i d) = (d + n) mod 16"
proof (induction n arbitrary: i d w)
  case 0
  have "w\<lparr>recent := recent w, vreg := vreg w\<rparr> = w" by simp
  then have "Some w = Some (w\<lparr>recent := recent w, vreg := vreg w\<rparr>)" by simp
  with 0 show ?case by (intro exI [of _ "vreg w"] exI [of _ "recent w"]) simp
next
  case (Suc n)
  let ?d = "if Suc d = 16 then 0 else Suc d"
  let ?v = "set_lanes (- 1) (dbg s + d) (\<lambda>l. f (src_value (x i) w l)) (vreg w)"
  let ?w = "w\<lparr>recent := (Some (dbg s + d), fst (recent w)), vreg := ?v\<rparr>"
  have d: "?d < 16" using Suc.prems(2) by simp
  have same: "src_value (x (Suc i + k)) ?w = src_value (x (Suc i + k)) w" if "k < n" for k
    using that Suc.prems(2) Suc.prems(6) [of "Suc k"] by (intro no_row_value [of s]) (auto simp: set_lanes_def)
  obtain v r where v: "run_code A (fst (rept_rows n body (Suc i) ?d)) ?w = Some (?w\<lparr>recent := r, vreg := v\<rparr>)"
    "\<And>y. y \<notin> row s ?d ` {..<n} \<Longrightarrow> v y = ?v y"
    "\<And>k l. k < n \<Longrightarrow> l < 64 \<Longrightarrow> v (row s ?d k) l = f (src_value (x (Suc i + k)) ?w l)"
    "snd (rept_rows n body (Suc i) ?d) = (?d + n) mod 16"
    using Suc.IH [of ?d ?w "Suc i"] Suc.prems(1,3-5) Suc.prems(6) [of "Suc _"] d by auto
  have next_: "(?d + n) mod 16 = (d + Suc n) mod 16"
    using row_Suc [of s d n] by (simp add: row_def)
  have rows: "row s ?d k = row s d (Suc k)" for k by (rule row_Suc)
  have all_rows: "row s d ` {..<Suc n} = insert (dbg s + d) (row s ?d ` {..<n})"
    unfolding lessThan_Suc_eq_insert_0 rows [abs_def] image_insert image_image row_0 [OF Suc.prems(2)] by (rule refl)
  have run: "run_code A (fst (rept_rows (Suc n) body i d)) w = Some (w\<lparr>recent := r, vreg := v\<rparr>)"
    unfolding rept_rows_Suc run_copy [OF assms Suc.prems(4,5)] Suc.prems(3) v(1) by simp
  moreover have "v y = vreg w y" if "y \<notin> row s d ` {..<Suc n}" for y
  proof -
    have "y \<notin> row s ?d ` {..<n}" "y \<noteq> dbg s + d" using that unfolding all_rows by blast+
    then show ?thesis using v(2) by (simp add: set_lanes_def)
  qed
  moreover have "v (row s d k) l = f (src_value (x (i + k)) w l)" if "k < Suc n" "l < 64" for k l
  proof (cases k)
    case 0
    have "dbg s + d \<notin> row s ?d ` {..<n}"
    proof
      assume "dbg s + d \<in> row s ?d ` {..<n}"
      then obtain j where "j < n" "row s d 0 = row s d (Suc j)" unfolding image_iff rows row_0 [OF Suc.prems(2)] by blast
      then show False using row_inj [of 0 "Suc j" s d] Suc.prems(1) by simp
    qed
    then show ?thesis using v(2) 0 row_0 [OF Suc.prems(2), of s] that(2) by (simp add: set_lanes_def lane_map_def)
  next
    case (Suc j)
    then show ?thesis using v(3) [of j l, unfolded rows] that same [of j] by simp
  qed
  moreover have "snd (rept_rows (Suc n) body i d) = (d + Suc n) mod 16"
    unfolding rept_rows_Suc using v(4) next_ by simp
  ultimately show ?case by blast
qed

section \<open>The dump macros\<close>

text \<open>The mask is restored, the rows hold the values, and the other vector registers keep theirs.\<close>

definition dumps :: "alu \<Rightarrow> debug_symbols \<Rightarrow> nat \<Rightarrow> nat \<Rightarrow> (nat \<Rightarrow> nat \<Rightarrow> u32) \<Rightarrow> wave \<Rightarrow> instr list \<times> nat \<Rightarrow> bool" where
  "dumps A s dbg_i n value_of w code_i \<longleftrightarrow>
     (\<exists>v. run_code A (fst code_i) w = Some (saved s w\<lparr>exec_mask := exec_mask w, vreg := v\<rparr>) \<and>
       (\<forall>k<n. \<forall>l<64. v (row s dbg_i k) l = value_of k l) \<and>
       (\<forall>y. y \<notin> row s dbg_i ` {..<n} \<longrightarrow> v y = vreg w y)) \<and>
     snd code_i = (dbg_i + n) mod 16"

definition kept :: "debug_symbols \<Rightarrow> src \<Rightarrow> bool" where
  "kept s x \<longleftrightarrow> no_row s x \<and> (case x of Sgpr a \<Rightarrow> a \<noteq> dbg_exec_lo s \<and> a \<noteq> dbg_exec_hi s | Vgpr a \<Rightarrow> True | _ \<Rightarrow> False)"

lemma kept_value: "kept s x \<Longrightarrow> src_value x (saved s w) = src_value x w"
  by (cases x) (auto simp: kept_def saved_def)

lemma run_dump_rows:
  assumes "copies A s body x f" and "enable_debug_output s" and "dbg_exec_lo s \<noteq> dbg_exec_hi s"
    and "n \<le> 16" and "d < 16" and "\<And>k. k < n \<Longrightarrow> kept s (x k)"
  shows "dumps A s d n (\<lambda>k. f \<circ> src_value (x k) w) w (dump_rows s n body d)"
proof -
  obtain v r where v: "run_code A (fst (rept_rows n body 0 d)) (saved s w) = Some (saved s w\<lparr>recent := r, vreg := v\<rparr>)"
    "\<And>y. y \<notin> row s d ` {..<n} \<Longrightarrow> v y = vreg (saved s w) y"
    "\<And>k l. k < n \<Longrightarrow> l < 64 \<Longrightarrow> v (row s d k) l = f (src_value (x (0 + k)) (saved s w) l)"
    "snd (rept_rows n body 0 d) = (d + n) mod 16"
    using run_rept_rows [OF assms(1,4,5), of "saved s w" 0] assms(6) by (auto simp: saved_def kept_def)
  have code: "dump_rows s n body d = (save_exec s @ fst (rept_rows n body 0 d) @ restore_exec s, (d + n) mod 16)"
    using assms(2) v(4) by (simp add: dump_rows_def Let_def split_beta)
  have "run_code A (restore_exec s) (saved s w\<lparr>recent := r, vreg := v\<rparr>) = Some (saved s w\<lparr>exec_mask := exec_mask w, vreg := v\<rparr>)"
    using assms(3) by (subst run_restore) (simp_all add: saved_def)
  then have "run_code A (fst (dump_rows s n body d)) w = Some (saved s w\<lparr>exec_mask := exec_mask w, vreg := v\<rparr>)"
    by (simp add: code run_code_append run_save v(1))
  moreover have "v (row s d k) l = f (src_value (x k) w l)" if "k < n" "l < 64" for k l
    using v(3) [OF that] kept_value [OF assms(6) [OF that(1)]] by simp
  moreover have "vreg (saved s w) = vreg w" by (simp add: saved_def)
  ultimately show ?thesis using v(2) by (auto simp: dumps_def code)
qed

section \<open>The stores\<close>

text \<open>Row \<open>k\<close> of the selected lanes, to the addresses in a pair of registers and 256 bytes further per row.\<close>

definition store_row :: "(nat \<Rightarrow> addr) \<Rightarrow> nat list \<Rightarrow> (nat \<Rightarrow> nat \<Rightarrow> u32) \<Rightarrow> nat \<Rightarrow> memory \<Rightarrow> memory" where
  "store_row p ls x k = fold (\<lambda>l. store_bytes (p l + of_nat (256 * k)) (enc_u32 (x k l))) ls"

lemma store_row_shift: "store_row (\<lambda>l. p l + 256) ls (\<lambda>k. x (Suc k)) k = store_row p ls x (Suc k)"
  by (simp add: store_row_def algebra_simps)

lemma fold_rows: "fold f [0..<Suc n] m = fold (\<lambda>k. f (Suc k)) [0..<n] (f 0 m)"
proof -
  have "[0..<Suc n] = 0 # map Suc [0..<n]" by (simp only: map_Suc_upt upt_conv_Cons)
  then show ?thesis by (simp only: fold.simps o_apply fold_map o_def)
qed

lemma carry_commute: "carry a b c = carry b a c"
  by (simp add: carry_def add.commute)

lemma store_row_cong: "(\<And>l. l \<in> set ls \<Longrightarrow> p l = q l) \<Longrightarrow> (\<And>l. l \<in> set ls \<Longrightarrow> x k l = y k l) \<Longrightarrow> store_row p ls x k m = store_row q ls y k m"
  unfolding store_row_def by (intro fold_cong refl) simp

lemma run_rept_stores:
  assumes p: "dbg_ptr s \<notin> {dbg s..<dbg s + 16}" "dbg_ptr s + 1 \<notin> {dbg s..<dbg s + 16}"
  shows "i + n \<le> 16 \<Longrightarrow> pend_lgkm w = [] \<Longrightarrow> pend_flat w = [] \<Longrightarrow>
    \<exists>v c r. run_code A (rept_stores s n i) w = Some (w\<lparr>vreg := v, vcc := c, recent := r,
      gmem := fold (store_row (flat_addr (vreg w) (dbg_ptr s)) (lanes_of (exec_mask w)) (\<lambda>k. vreg w (dbg s + i + k))) [0..<n] (gmem w)\<rparr>) \<and>
      (\<forall>y. y \<notin> {dbg_ptr s, dbg_ptr s + 1} \<longrightarrow> v y = vreg w y)"
proof (induction n arbitrary: i w)
  case 0
  have "w = w\<lparr>vreg := vreg w, vcc := vcc w, recent := recent w, gmem := gmem w\<rparr>" by simp
  then show ?case by (intro exI [of _ "vreg w"] exI [of _ "vcc w"] exI [of _ "recent w"]) simp
next
  case (Suc n)
  let ?p = "dbg_ptr s" and ?e = "exec_mask w"
  let ?lo = "set_lanes ?e ?p (\<lambda>l. 0x100 + vreg w ?p l) (vreg w)"
  let ?c = "\<lambda>l. bit ?e l \<and> carry 0x100 (vreg w ?p l) False"
  let ?v = "set_lanes ?e (?p + 1) (\<lambda>l. ?lo (?p + 1) l + of_bool (?c l)) ?lo"
  let ?c' = "\<lambda>l. bit ?e l \<and> carry (?lo (?p + 1) l) 0 (?c l)"
  let ?m = "store_row (flat_addr (vreg w) ?p) (lanes_of ?e) (\<lambda>k. vreg w (dbg s + i + k)) 0 (gmem w)"
  let ?w = "w\<lparr>vreg := ?v, vcc := ?c', recent := (Some (?p + 1), Some ?p), gmem := ?m\<rparr>"
  have "run_code A (rept_stores s (Suc n) i) w = run_code A (rept_stores s n (Suc i)) ?w"
    using Suc.prems(2,3)
    by (simp add: busy_def hazard_def alu_writes_def dpp_reads_def store_row_def)
      (rule arg_cong [where f = "run_code A (rept_stores s n (Suc i))"], simp)
  moreover obtain v c r where v: "run_code A (rept_stores s n (Suc i)) ?w = Some (?w\<lparr>vreg := v, vcc := c, recent := r,
      gmem := fold (store_row (flat_addr ?v ?p) (lanes_of ?e) (\<lambda>k. ?v (dbg s + Suc i + k))) [0..<n] ?m\<rparr>)"
      "\<And>y. y \<notin> {?p, ?p + 1} \<Longrightarrow> v y = ?v y"
    using Suc.IH [of "Suc i" ?w] Suc.prems by auto
  moreover have rows: "store_row (flat_addr ?v ?p) (lanes_of ?e) (\<lambda>k. ?v (dbg s + Suc i + k)) k m =
      store_row (flat_addr (vreg w) ?p) (lanes_of ?e) (\<lambda>k. vreg w (dbg s + i + k)) (Suc k) m" if "k < n" for k m
  proof -
    have "flat_addr ?v ?p l = flat_addr (vreg w) ?p l + 256" if "bit ?e l" for l
    proof -
      have "flat_addr ?v ?p l = pair64 (vreg w (?p + 1) l + of_bool (carry (0x100) (vreg w ?p l) False)) (0x100 + vreg w ?p l)"
        using that by (simp add: flat_addr_def set_lanes_def lane_map_def)
      also have "\<dots> = pair64 (vreg w (?p + 1) l) (vreg w ?p l) + ucast (0x100 :: u32)"
        unfolding carry_commute [of "0x100"] add.commute [of "0x100"] by (rule pair64_offset)
      finally show ?thesis by (simp add: flat_addr_def)
    qed
    moreover have "?v (dbg s + Suc i + k) = vreg w (dbg s + i + Suc k)"
      using p Suc.prems(1) \<open>k < n\<close> by (auto simp: set_lanes_def)
    ultimately show ?thesis
      unfolding store_row_shift [symmetric] by (intro store_row_cong) (simp_all add: lanes_of_def)
  qed
  have "fold (store_row (flat_addr ?v ?p) (lanes_of ?e) (\<lambda>k. ?v (dbg s + Suc i + k))) [0..<n] ?m =
      fold (store_row (flat_addr (vreg w) ?p) (lanes_of ?e) (\<lambda>k. vreg w (dbg s + i + k))) [0..<Suc n] (gmem w)"
    unfolding fold_rows by (intro fold_cong refl ext rows) simp
  moreover have "v y = vreg w y" if "y \<notin> {?p, ?p + 1}" for y
    using v(2) [OF that] that by (simp add: set_lanes_def)
  ultimately show ?case by (intro exI [of _ v] exI [of _ c] exI [of _ r]) (simp del: upt_Suc)
qed

text \<open>The rows of the lanes whose work-items belong to the selected wavefront are stored.\<close>

lemma selected_lanes: "lanes_of (mask_of P) = filter P [0..<64]"
  by (auto simp: lanes_of_def intro: filter_cong)

definition stored :: "debug_symbols \<Rightarrow> wave \<Rightarrow> memory" where
  "stored s w = fold (store_row (flat_addr (vreg w) (dbg_ptr s))
     (filter (\<lambda>l. vreg w (dbg_wave_id s) l = debug_wid s) [0..<64]) (\<lambda>k. vreg w (dbg s + k))) [0..<16] (gmem w)"

lemma run_dbg_store:
  assumes "enable_debug_output s" and "dbg_exec_lo s \<noteq> dbg_exec_hi s"
    and "dbg_ptr s \<notin> {dbg s..<dbg s + 16}" and "dbg_ptr s + 1 \<notin> {dbg s..<dbg s + 16}"
  shows "\<exists>v c. run_code A (dbg_store s) w =
      Some (saved s w\<lparr>exec_mask := exec_mask w, vreg := v, vcc := c, gmem := stored s w\<rparr>) \<and>
    (\<forall>y. y \<notin> {dbg_ptr s, dbg_ptr s + 1} \<longrightarrow> v y = vreg w y)"
proof -
  let ?P = "\<lambda>l. vreg w (dbg_wave_id s) l = debug_wid s"
  let ?w = "saved s w\<lparr>vcc := \<lambda>l. bit (- 1 :: u64) l \<and> ?P l, exec_mask := mask_of (\<lambda>l. bit (- 1 :: u64) l \<and> ?P l)\<rparr>"
  have cmp: "run_code A [V_cmpx_eq_i32 (dbg_wave_id s) (debug_wid s)] (saved s w) = Some ?w"
    by (simp add: saved_def busy_def hazard_def alu_writes_def dpp_reads_def)
  have lanes: "lanes_of (exec_mask ?w) = filter ?P [0..<64]"
    by (simp add: selected_lanes) (rule filter_cong, simp_all)
  obtain v c r where v: "run_code A (rept_stores s 16 0) ?w = Some (?w\<lparr>vreg := v, vcc := c, recent := r, gmem := stored s w\<rparr>)"
    "\<And>y. y \<notin> {dbg_ptr s, dbg_ptr s + 1} \<Longrightarrow> v y = vreg ?w y"
    using run_rept_stores [OF assms(3,4), of 0 16 ?w A] unfolding lanes by (auto simp: stored_def saved_def simp del: upt_rec_numeral)
  let ?u = "?w\<lparr>vreg := v, vcc := c, recent := (None, fst r), gmem := stored s w\<rparr>"
  have wait: "run_code A [S_waitcnt True True] (?w\<lparr>vreg := v, vcc := c, recent := r, gmem := stored s w\<rparr>) = Some ?u"
    by (simp add: saved_def busy_def hazard_def alu_writes_def dpp_reads_def)
  have "run_code A (restore_exec s) ?u = Some (saved s w\<lparr>exec_mask := exec_mask w, vreg := v, vcc := c, gmem := stored s w\<rparr>)"
    using assms(2) by (subst run_restore) (simp_all add: saved_def)
  then have "run_code A (dbg_store s) w = Some (saved s w\<lparr>exec_mask := exec_mask w, vreg := v, vcc := c, gmem := stored s w\<rparr>)"
    using assms(1) unfolding dbg_store_def by (simp only: if_True run_code_append run_save cmp v(1) wait bind.bind_lunit)
  moreover have "vreg ?w = vreg w" by (simp add: saved_def)
  ultimately show ?thesis using v(2) by auto
qed

section \<open>The claims\<close>

text \<open>
  C18. The dump macros of debug.inc, with debug output on: each copies up to sixteen registers, or converts them to
  floats, into the rows of the debug buffer from \<open>dbg_i\<close> on, modulo 16, in every lane whatever the lanes were;
  it waits for the loads first, leaves the lanes and every other vector register as they were and moves \<open>dbg_i\<close> on.
\<close>

theorem dump_macros_copy:
  assumes "enable_debug_output s" and "dbg_exec_lo s \<noteq> dbg_exec_hi s" and "n \<le> 16" and "d < 16"
    and "\<And>k. k < n \<Longrightarrow> r + k < dbg s \<or> dbg s + 16 \<le> r + k"
    and "\<And>k. k < n \<Longrightarrow> q + k \<noteq> dbg_exec_lo s \<and> q + k \<noteq> dbg_exec_hi s"
  shows "dumps A s d n (\<lambda>k l. vreg w (r + k) l) w (dump_vgpr s r n d) \<and>
    dumps A s d n (\<lambda>k l. alu_cvt_f32_i32 A (vreg w (r + k) l)) w (dump_fvgpr s r n d) \<and>
    dumps A s d n (\<lambda>k l. sreg w (q + k)) w (dump_sgpr s q n d) \<and>
    dumps A s d n (\<lambda>k l. alu_cvt_f32_i32 A (sreg w (q + k))) w (dump_fsgpr s q n d)"
proof -
  have vgprs: "kept s (Vgpr (r + k))" if "k < n" for k
    using assms(5) [OF that] by (auto simp: kept_def no_row_def)
  have sgprs: "kept s (Sgpr (q + k))" if "k < n" for k
    using assms(6) [OF that] by (simp add: kept_def no_row_def)
  note dumped = run_dump_rows [where A = A and w = w, OF _ assms(1-4)]
  show ?thesis
    unfolding dump_vgpr_def dump_fvgpr_def dump_sgpr_def dump_fsgpr_def
    using dumped [where x = "\<lambda>k. Vgpr (r + k)" and f = id] dumped [where x = "\<lambda>k. Vgpr (r + k)" and f = "alu_cvt_f32_i32 A"]
      dumped [where x = "\<lambda>k. Sgpr (q + k)" and f = id] dumped [where x = "\<lambda>k. Sgpr (q + k)" and f = "alu_cvt_f32_i32 A"] vgprs sgprs
    by (simp add: copies_def o_def)
qed

definition sample_symbols :: debug_symbols where
  "sample_symbols = \<lparr>enable_debug_output = True, debug_wid = 2, dbg_ptr = 5, dbg = 7, dbg_wave_id = 23,
     dbg_exec_lo = 16, dbg_exec_hi = 17\<rparr>"

definition sample_wave :: wave where
  "sample_wave = blank_wave\<lparr>exec_mask := 0xffff, vreg := \<lambda>x l. of_nat (64 * x + l), sreg := of_nat\<rparr>"

theorem dump_macros_copy_witness:
  "dumps ref_alu sample_symbols 15 3 (\<lambda>k l. vreg sample_wave (2 + k) l) sample_wave (dump_vgpr sample_symbols 2 3 15) \<and>
   dumps ref_alu sample_symbols 15 3 (\<lambda>k l. alu_cvt_f32_i32 ref_alu (vreg sample_wave (2 + k) l)) sample_wave
     (dump_fvgpr sample_symbols 2 3 15) \<and>
   dumps ref_alu sample_symbols 15 3 (\<lambda>k l. sreg sample_wave (8 + k)) sample_wave (dump_sgpr sample_symbols 8 3 15) \<and>
   dumps ref_alu sample_symbols 15 3 (\<lambda>k l. alu_cvt_f32_i32 ref_alu (sreg sample_wave (8 + k))) sample_wave
     (dump_fsgpr sample_symbols 8 3 15)"
  by (rule dump_macros_copy) (simp_all add: sample_symbols_def)

end
