(* ===== verification/Gpr_Alloc.thy ===== *)
theory Gpr_Alloc
  imports Prelude "HOL-Library.Signed_Division"
begin

text \<open>
  examples/gfx8/gpr_alloc.inc: assembler macros that hand out vector registers, scalar registers and
  bytes of local memory by name, and compute the sizes the header of a kernel declares. A macro
  is a function on the symbols of the assembler, which are integers. An \<open>.error\<close> is reported,
  and assembly goes on; the output is used only if there was none.
\<close>

section \<open>Symbols\<close>

text \<open>
  The symbols of the macros themselves, those that name what was handed out, and the
  guards \<open>__guard_sgpr_...\<close> of \<open>.SGPR_ALLOC_ONCE\<close>.
\<close>

record gpr_alloc =
  available_vgprs :: int
  available_sgprs :: int
  available_lds :: int
  sgpr_next_free :: int
  vgpr_next_free :: int
  lds_next_free :: int
  auto_vgpr_count :: int
  auto_sgpr_count :: int
  auto_lds_byte_size :: int
  auto_vgpr_granulated_count :: int
  auto_sgpr_granulated_count :: int
  sgpr_reserve_vcc :: int
  sgpr_reserve_xnack :: int
  sgpr_reserve_flatscr :: int
  auto_gpr_count_guard :: int
  max_waves_limit :: int
  min_waves_limit :: int
  symbols :: "string \<Rightarrow> int option"
  guards :: "string \<Rightarrow> int option"
  errors :: "string list"

definition error :: "string \<Rightarrow> gpr_alloc \<Rightarrow> gpr_alloc" where
  "error msg s = s\<lparr>errors := errors s @ [msg]\<rparr>"

definition error_if :: "bool \<Rightarrow> string \<Rightarrow> gpr_alloc \<Rightarrow> gpr_alloc" where
  "error_if b msg s = (if b then error msg s else s)"

section \<open>The macros\<close>

definition GPR_ALLOC_BEGIN :: "gpr_alloc \<Rightarrow> gpr_alloc" where
  "GPR_ALLOC_BEGIN s = s\<lparr>available_vgprs := 256, available_sgprs := 102, available_lds := 65536,
     sgpr_next_free := 0, vgpr_next_free := 0, lds_next_free := 0,
     auto_vgpr_count := 0, auto_sgpr_count := 0, auto_lds_byte_size := 0,
     auto_vgpr_granulated_count := 0, auto_sgpr_granulated_count := 0,
     sgpr_reserve_vcc := 0, sgpr_reserve_xnack := 0, sgpr_reserve_flatscr := 0,
     auto_gpr_count_guard := 0, max_waves_limit := 10, min_waves_limit := 1\<rparr>"

definition CHECK_SGPR_ALLOCATION :: "int \<Rightarrow> gpr_alloc \<Rightarrow> gpr_alloc" where
  "CHECK_SGPR_ALLOCATION gprs_to_allocate s =
     error_if (sgpr_next_free s + gprs_to_allocate \<ge> available_sgprs s) ''Error: out of free sgprs'' s"

definition CHECK_VGPR_ALLOCATION :: "int \<Rightarrow> gpr_alloc \<Rightarrow> gpr_alloc" where
  "CHECK_VGPR_ALLOCATION gprs_to_allocate s =
     error_if (vgpr_next_free s + gprs_to_allocate \<ge> available_vgprs s) ''Error: out of free vgprs'' s"

definition CHECK_LDS_ALLOCATION :: "int \<Rightarrow> gpr_alloc \<Rightarrow> gpr_alloc" where
  "CHECK_LDS_ALLOCATION bytes_to_allocate s =
     error_if (lds_next_free s + bytes_to_allocate \<ge> available_lds s) ''Error: out of free lds'' s"

text \<open>The numbers of scalar and vector registers.\<close>

definition GPRS_FOR_WAVE_LIMIT :: "int \<Rightarrow> int \<times> int" where
  "GPRS_FOR_WAVE_LIMIT waves_per_simd =
     (if waves_per_simd = 10 then (80, 24)
      else if waves_per_simd = 9 then (96, 28)
      else if waves_per_simd = 8 then (96, 32)
      else if waves_per_simd = 7 then (102, 36)
      else if waves_per_simd = 6 then (102, 40)
      else if waves_per_simd = 5 then (102, 48)
      else if waves_per_simd = 4 then (102, 64)
      else if waves_per_simd = 3 then (102, 84)
      else if waves_per_simd = 2 then (102, 128)
      else (102, 256))"

definition check_waves_limits :: "gpr_alloc \<Rightarrow> gpr_alloc" where
  "check_waves_limits s =
     error_if (min_waves_limit s > max_waves_limit s) ''Error: __min_waves_limit > __max_waves_limit'' s"

definition SET_MIN_WAVES_LIMIT :: "int \<Rightarrow> gpr_alloc \<Rightarrow> gpr_alloc" where
  "SET_MIN_WAVES_LIMIT waves_per_simd s =
     (let s = error_if (waves_per_simd > 10) ''Error: max 10 waves per simd is available'' s;
          s = s\<lparr>available_sgprs := fst (GPRS_FOR_WAVE_LIMIT waves_per_simd),
                available_vgprs := snd (GPRS_FOR_WAVE_LIMIT waves_per_simd)\<rparr>;
          s = CHECK_SGPR_ALLOCATION 0 s;
          s = CHECK_VGPR_ALLOCATION 0 s;
          s = s\<lparr>min_waves_limit := waves_per_simd\<rparr>
      in check_waves_limits s)"

definition SET_MAX_WAVES_LIMIT :: "int \<Rightarrow> gpr_alloc \<Rightarrow> gpr_alloc" where
  "SET_MAX_WAVES_LIMIT waves_per_simd s =
     (let s = error_if (waves_per_simd < 1) ''Error: waves per simd should be > 0'' s;
          s = s\<lparr>max_waves_limit := waves_per_simd\<rparr>
      in check_waves_limits s)"

definition end_checks :: "gpr_alloc \<Rightarrow> gpr_alloc" where
  "end_checks s =
     CHECK_LDS_ALLOCATION 0 (CHECK_VGPR_ALLOCATION 0 (CHECK_SGPR_ALLOCATION 0
       (error_if (auto_gpr_count_guard s = 1)
          ''Error: unpaired .GPR_ALLOC_END. Please invoke .GPR_ALLOC_BEGIN before each kernel.'' s)))"

definition GPR_ALLOC_END :: "gpr_alloc \<Rightarrow> gpr_alloc" where
  "GPR_ALLOC_END s =
     (let s = end_checks s;
          sgpr_additional_count = 2 * (sgpr_reserve_flatscr s + sgpr_reserve_xnack s + sgpr_reserve_vcc s);
          (sgprs, vgprs) = GPRS_FOR_WAVE_LIMIT (max_waves_limit s);
          vgprs = (if vgprs < vgpr_next_free s then vgpr_next_free s else vgprs);
          sgprs = (if sgprs < sgpr_next_free s + sgpr_additional_count
                   then sgpr_next_free s + sgpr_additional_count else sgprs)
      in s\<lparr>auto_sgpr_count := sgprs, auto_vgpr_count := vgprs,
           auto_vgpr_granulated_count := (vgprs - 1) sdiv 4,
           auto_sgpr_granulated_count := (sgprs - 1) sdiv 8,
           auto_lds_byte_size := lds_next_free s,
           auto_gpr_count_guard := 1\<rparr>)"

definition VGPR_ALLOC_FROM :: "int \<Rightarrow> gpr_alloc \<Rightarrow> gpr_alloc" where
  "VGPR_ALLOC_FROM n s = s\<lparr>vgpr_next_free := n\<rparr>"

definition SGPR_ALLOC_FROM :: "int \<Rightarrow> gpr_alloc \<Rightarrow> gpr_alloc" where
  "SGPR_ALLOC_FROM n s = s\<lparr>sgpr_next_free := n\<rparr>"

definition LDS_ALLOC_FROM :: "int \<Rightarrow> gpr_alloc \<Rightarrow> gpr_alloc" where
  "LDS_ALLOC_FROM n s = s\<lparr>lds_next_free := n\<rparr>"

definition SGPR_RESERVE_FLATSCR :: "gpr_alloc \<Rightarrow> gpr_alloc" where
  "SGPR_RESERVE_FLATSCR s = s\<lparr>sgpr_reserve_flatscr := 1\<rparr>"

definition SGPR_RESERVE_XNACK :: "gpr_alloc \<Rightarrow> gpr_alloc" where
  "SGPR_RESERVE_XNACK s = s\<lparr>sgpr_reserve_xnack := 1\<rparr>"

definition SGPR_RESERVE_VCC :: "gpr_alloc \<Rightarrow> gpr_alloc" where
  "SGPR_RESERVE_VCC s = s\<lparr>sgpr_reserve_vcc := 1\<rparr>"

definition VGPR_ALLOC :: "string \<Rightarrow> int \<Rightarrow> gpr_alloc \<Rightarrow> gpr_alloc" where
  "VGPR_ALLOC name numregs s =
     (let s = CHECK_VGPR_ALLOCATION numregs s
      in s\<lparr>symbols := (symbols s)(name \<mapsto> vgpr_next_free s), vgpr_next_free := vgpr_next_free s + numregs\<rparr>)"

definition effective_alignment :: "int \<Rightarrow> int \<Rightarrow> int" where
  "effective_alignment numregs alignment =
     (if alignment > 0 then alignment else if numregs > 4 then 4 else numregs)"

text \<open>
  A remainder by 0 is an error of the assembler, which then assembles the body of the \<open>.if\<close>.
\<close>

definition unaligned :: "int \<Rightarrow> int \<Rightarrow> gpr_alloc \<Rightarrow> gpr_alloc" where
  "unaligned n alignment s =
     error_if (alignment = 0 \<or> n smod alignment \<noteq> 0) ''Error: unaligned register''
       (error_if (alignment = 0) ''expected absolute expression'' s)"

definition SGPR_ALLOC :: "string \<Rightarrow> int \<Rightarrow> int \<Rightarrow> gpr_alloc \<Rightarrow> gpr_alloc" where
  "SGPR_ALLOC name numregs alignment s =
     (let s = CHECK_SGPR_ALLOCATION numregs s;
          s = unaligned (sgpr_next_free s) (effective_alignment numregs alignment) s
      in s\<lparr>symbols := (symbols s)(name \<mapsto> sgpr_next_free s), sgpr_next_free := sgpr_next_free s + numregs\<rparr>)"

text \<open>An alignment of 0 is an error here too, and leaves the next free byte as it is.\<close>

definition align_lds :: "int \<Rightarrow> gpr_alloc \<Rightarrow> gpr_alloc" where
  "align_lds alignment_size s =
     (if alignment_size = 0 then error ''expected absolute expression'' (error ''expected absolute expression'' s)
      else if lds_next_free s smod alignment_size \<noteq> 0
      then LDS_ALLOC_FROM ((lds_next_free s sdiv alignment_size + 1) * alignment_size) s
      else s)"

definition LDS_ALLOC :: "string \<Rightarrow> int \<Rightarrow> int \<Rightarrow> gpr_alloc \<Rightarrow> gpr_alloc" where
  "LDS_ALLOC name bytes_to_allocate alignment_size s =
     (let s = align_lds alignment_size s;
          s = CHECK_LDS_ALLOCATION bytes_to_allocate s
      in s\<lparr>symbols := (symbols s)(name \<mapsto> lds_next_free s), lds_next_free := lds_next_free s + bytes_to_allocate\<rparr>)"

definition SGPR_ALLOC_ONCE :: "string \<Rightarrow> int \<Rightarrow> int \<Rightarrow> gpr_alloc \<Rightarrow> gpr_alloc" where
  "SGPR_ALLOC_ONCE name numregs alignment s =
     (let s = (if guards s name = None then s\<lparr>guards := (guards s)(name \<mapsto> 0)\<rparr> else s)
      in if guards s name = Some 0
         then SGPR_ALLOC name numregs alignment (s\<lparr>guards := (guards s)(name \<mapsto> 1)\<rparr>)
         else s)"

definition GPR_INVALIDATE :: "string \<Rightarrow> gpr_alloc \<Rightarrow> gpr_alloc" where
  "GPR_INVALIDATE name s = s\<lparr>symbols := (symbols s)(name \<mapsto> 0x7fffffff)\<rparr>"

definition GPR_REUSE :: "string \<Rightarrow> string \<Rightarrow> gpr_alloc \<Rightarrow> gpr_alloc" where
  "GPR_REUSE old new s = GPR_INVALIDATE old (s\<lparr>symbols := (symbols s)(new := symbols s old)\<rparr>)"

text \<open>
  The state after the file is included: the guard is set, and the other symbols, undefined in the
  source until \<open>.GPR_ALLOC_BEGIN\<close>, are 0.
\<close>

definition included :: gpr_alloc where
  "included = \<lparr>available_vgprs = 0, available_sgprs = 0, available_lds = 0,
     sgpr_next_free = 0, vgpr_next_free = 0, lds_next_free = 0,
     auto_vgpr_count = 0, auto_sgpr_count = 0, auto_lds_byte_size = 0,
     auto_vgpr_granulated_count = 0, auto_sgpr_granulated_count = 0,
     sgpr_reserve_vcc = 0, sgpr_reserve_xnack = 0, sgpr_reserve_flatscr = 0,
     auto_gpr_count_guard = 1, max_waves_limit = 0, min_waves_limit = 0,
     symbols = (\<lambda>_. None), guards = (\<lambda>_. None), errors = []\<rparr>"

section \<open>A kernel\<close>

text \<open>The macros a kernel may use between \<open>.GPR_ALLOC_BEGIN\<close> and \<open>.GPR_ALLOC_END\<close>.\<close>

datatype alloc_macro =
    Vgpr_alloc string int
  | Sgpr_alloc string int int
  | Sgpr_alloc_once string int int
  | Lds_alloc string int int
  | Vgpr_alloc_from int
  | Sgpr_alloc_from int
  | Lds_alloc_from int
  | Sgpr_reserve_flatscr
  | Sgpr_reserve_xnack
  | Sgpr_reserve_vcc
  | Set_min_waves_limit int
  | Set_max_waves_limit int
  | Gpr_invalidate string
  | Gpr_reuse string string

primrec expand :: "alloc_macro \<Rightarrow> gpr_alloc \<Rightarrow> gpr_alloc" where
  "expand (Vgpr_alloc x n) = VGPR_ALLOC x n"
| "expand (Sgpr_alloc x n a) = SGPR_ALLOC x n a"
| "expand (Sgpr_alloc_once x n a) = SGPR_ALLOC_ONCE x n a"
| "expand (Lds_alloc x n a) = LDS_ALLOC x n a"
| "expand (Vgpr_alloc_from n) = VGPR_ALLOC_FROM n"
| "expand (Sgpr_alloc_from n) = SGPR_ALLOC_FROM n"
| "expand (Lds_alloc_from n) = LDS_ALLOC_FROM n"
| "expand Sgpr_reserve_flatscr = SGPR_RESERVE_FLATSCR"
| "expand Sgpr_reserve_xnack = SGPR_RESERVE_XNACK"
| "expand Sgpr_reserve_vcc = SGPR_RESERVE_VCC"
| "expand (Set_min_waves_limit n) = SET_MIN_WAVES_LIMIT n"
| "expand (Set_max_waves_limit n) = SET_MAX_WAVES_LIMIT n"
| "expand (Gpr_invalidate x) = GPR_INVALIDATE x"
| "expand (Gpr_reuse x y) = GPR_REUSE x y"

definition assemble_kernel :: "alloc_macro list \<Rightarrow> gpr_alloc \<Rightarrow> gpr_alloc" where
  "assemble_kernel ms s = GPR_ALLOC_END (fold expand ms (GPR_ALLOC_BEGIN s))"

section \<open>Errors\<close>

lemma error_if_fields [simp]:
  "available_vgprs (error_if b msg s) = available_vgprs s"
  "available_sgprs (error_if b msg s) = available_sgprs s"
  "available_lds (error_if b msg s) = available_lds s"
  "sgpr_next_free (error_if b msg s) = sgpr_next_free s"
  "vgpr_next_free (error_if b msg s) = vgpr_next_free s"
  "lds_next_free (error_if b msg s) = lds_next_free s"
  "auto_vgpr_count (error_if b msg s) = auto_vgpr_count s"
  "auto_sgpr_count (error_if b msg s) = auto_sgpr_count s"
  "auto_lds_byte_size (error_if b msg s) = auto_lds_byte_size s"
  "auto_vgpr_granulated_count (error_if b msg s) = auto_vgpr_granulated_count s"
  "auto_sgpr_granulated_count (error_if b msg s) = auto_sgpr_granulated_count s"
  "sgpr_reserve_vcc (error_if b msg s) = sgpr_reserve_vcc s"
  "sgpr_reserve_xnack (error_if b msg s) = sgpr_reserve_xnack s"
  "sgpr_reserve_flatscr (error_if b msg s) = sgpr_reserve_flatscr s"
  "auto_gpr_count_guard (error_if b msg s) = auto_gpr_count_guard s"
  "max_waves_limit (error_if b msg s) = max_waves_limit s"
  "min_waves_limit (error_if b msg s) = min_waves_limit s"
  "symbols (error_if b msg s) = symbols s"
  "guards (error_if b msg s) = guards s"
  by (simp_all add: error_if_def error_def)

lemma errors_error_if [simp]: "errors (error_if b msg s) = errors s @ (if b then [msg] else [])"
  by (simp add: error_if_def error_def)

lemmas checks = CHECK_SGPR_ALLOCATION_def CHECK_VGPR_ALLOCATION_def CHECK_LDS_ALLOCATION_def check_waves_limits_def

lemmas macros = VGPR_ALLOC_def SGPR_ALLOC_def SGPR_ALLOC_ONCE_def LDS_ALLOC_def align_lds_def unaligned_def
  VGPR_ALLOC_FROM_def SGPR_ALLOC_FROM_def LDS_ALLOC_FROM_def
  SGPR_RESERVE_FLATSCR_def SGPR_RESERVE_XNACK_def SGPR_RESERVE_VCC_def
  SET_MIN_WAVES_LIMIT_def SET_MAX_WAVES_LIMIT_def GPR_INVALIDATE_def GPR_REUSE_def

text \<open>No macro withdraws an error.\<close>

lemma expand_errors: "\<exists>es. errors (expand i s) = errors s @ es"
  by (cases i) (auto simp: macros checks Let_def error_def)

lemma fold_expand_errors: "\<exists>es. errors (fold expand ms s) = errors s @ es"
proof (induction ms arbitrary: s)
  case (Cons i ms)
  obtain es es' where "errors (expand i s) = errors s @ es" "errors (fold expand ms (expand i s)) = errors (expand i s) @ es'"
    using expand_errors Cons by blast
  then show ?case by simp
qed simp

section \<open>What a kernel gets\<close>

datatype bank = Vgprs | Sgprs | Lds

text \<open>
  What a macro asks for: the bank, the name, the number of registers or bytes, and the alignment. The macro
  that allocates once asks for nothing when its guard is set.
\<close>

fun requests :: "alloc_macro \<Rightarrow> gpr_alloc \<Rightarrow> (bank \<times> string \<times> int \<times> int) list" where
  "requests (Vgpr_alloc x n) s = [(Vgprs, x, n, 1)]"
| "requests (Sgpr_alloc x n a) s = [(Sgprs, x, n, effective_alignment n a)]"
| "requests (Sgpr_alloc_once x n a) s = (if guards s x \<in> {None, Some 0} then [(Sgprs, x, n, effective_alignment n a)] else [])"
| "requests (Lds_alloc x n a) s = [(Lds, x, n, a)]"
| "requests i s = []"

text \<open>
  The ranges that are handed out: bank, name, first register or byte, number and alignment. The first
  register or byte is the value that the name has as a symbol once the macro is expanded.
\<close>

definition handed_out :: "alloc_macro \<Rightarrow> gpr_alloc \<Rightarrow> (bank \<times> string \<times> int \<times> int \<times> int) list" where
  "handed_out i s = map (\<lambda>(b, x, n, a). (b, x, the (symbols (expand i s) x), n, a)) (requests i s)"

fun ranges :: "alloc_macro list \<Rightarrow> gpr_alloc \<Rightarrow> (bank \<times> string \<times> int \<times> int \<times> int) list" where
  "ranges [] s = []"
| "ranges (i # ms) s = handed_out i s @ ranges ms (expand i s)"

text \<open>The names a macro defines, or defines anew, and those of a kernel.\<close>

fun names_set :: "alloc_macro \<Rightarrow> gpr_alloc \<Rightarrow> string list" where
  "names_set (Gpr_invalidate x) s = [x]"
| "names_set (Gpr_reuse x y) s = [x, y]"
| "names_set i s = map (\<lambda>(b, x, n, a). x) (requests i s)"

fun all_names :: "alloc_macro list \<Rightarrow> gpr_alloc \<Rightarrow> string list" where
  "all_names [] s = []"
| "all_names (i # ms) s = names_set i s @ all_names ms (expand i s)"

text \<open>The next free index of a bank, and what a macro must not do: go back, or ask for a negative number.\<close>

primrec next_free :: "bank \<Rightarrow> gpr_alloc \<Rightarrow> int" where
  "next_free Vgprs s = vgpr_next_free s"
| "next_free Sgprs s = sgpr_next_free s"
| "next_free Lds s = lds_next_free s"

fun forward :: "alloc_macro \<Rightarrow> gpr_alloc \<Rightarrow> bool" where
  "forward (Vgpr_alloc x n) s \<longleftrightarrow> 0 \<le> n"
| "forward (Sgpr_alloc x n a) s \<longleftrightarrow> 0 \<le> n"
| "forward (Sgpr_alloc_once x n a) s \<longleftrightarrow> 0 \<le> n"
| "forward (Lds_alloc x n a) s \<longleftrightarrow> 0 \<le> n \<and> 0 \<le> a"
| "forward (Vgpr_alloc_from n) s \<longleftrightarrow> vgpr_next_free s \<le> n"
| "forward (Sgpr_alloc_from n) s \<longleftrightarrow> sgpr_next_free s \<le> n"
| "forward (Lds_alloc_from n) s \<longleftrightarrow> lds_next_free s \<le> n"
| "forward i s \<longleftrightarrow> True"

fun all_forward :: "alloc_macro list \<Rightarrow> gpr_alloc \<Rightarrow> bool" where
  "all_forward [] s \<longleftrightarrow> True"
| "all_forward (i # ms) s \<longleftrightarrow> forward i s \<and> all_forward ms (expand i s)"

section \<open>The ranges are apart\<close>

lemma sdiv_nonneg: "0 \<le> a \<Longrightarrow> 0 < b \<Longrightarrow> a sdiv b = a div b" for a b :: int
  by (cases "a = 0") (simp_all add: signed_divide_int_def)

lemma smod_dvd: "a smod b = 0 \<longleftrightarrow> b dvd a" for a b :: int
  by (simp add: signed_modulo_int_def dvd_eq_mod_eq_0 [symmetric]) (auto simp: sgn_0_0)

lemma align_lds_bounds:
  assumes "0 \<le> lds_next_free s" and "0 \<le> a"
  shows "lds_next_free s \<le> lds_next_free (align_lds a s)"
proof (cases "a = 0")
  case False
  then have "0 < a" using assms(2) by simp
  then have "lds_next_free s < a * (lds_next_free s div a + 1)"
    using minus_mod_eq_mult_div [of "lds_next_free s" a] pos_mod_bound [OF \<open>0 < a\<close>, of "lds_next_free s"]
    by (simp only: distrib_left mult_1_right)
  then show ?thesis using assms \<open>0 < a\<close> by (simp add: align_lds_def LDS_ALLOC_FROM_def sdiv_nonneg mult.commute)
qed (simp add: align_lds_def error_def)

lemma align_lds_aligned: "a \<noteq> 0 \<Longrightarrow> a dvd lds_next_free (align_lds a s)"
  by (auto simp: align_lds_def LDS_ALLOC_FROM_def smod_dvd)

text \<open>What each macro makes of the next free indices.\<close>

lemma vgpr_next_free_expand: "vgpr_next_free (expand i s) =
    (case i of Vgpr_alloc x n \<Rightarrow> vgpr_next_free s + n | Vgpr_alloc_from n \<Rightarrow> n | _ \<Rightarrow> vgpr_next_free s)"
  by (cases i) (simp_all add: macros checks Let_def error_def)

lemma sgpr_next_free_expand: "sgpr_next_free (expand i s) =
    (case i of Sgpr_alloc x n a \<Rightarrow> sgpr_next_free s + n
     | Sgpr_alloc_once x n a \<Rightarrow> (if guards s x \<in> {None, Some 0} then sgpr_next_free s + n else sgpr_next_free s)
     | Sgpr_alloc_from n \<Rightarrow> n | _ \<Rightarrow> sgpr_next_free s)"
  by (cases i) (simp_all add: macros checks Let_def error_def)

lemma lds_next_free_expand: "lds_next_free (expand i s) =
    (case i of Lds_alloc x n a \<Rightarrow> lds_next_free (align_lds a s) + n | Lds_alloc_from n \<Rightarrow> n | _ \<Rightarrow> lds_next_free s)"
  by (cases i) (simp_all add: macros checks Let_def error_def)

text \<open>The first register or byte handed out is the next free one.\<close>

lemma handed_out_first:
  "handed_out i s = map (\<lambda>(b, x, n, a). (b, x, if b = Lds then lds_next_free (align_lds a s) else next_free b s, n, a)) (requests i s)"
  by (cases i) (simp_all add: handed_out_def macros checks Let_def error_def)

lemma expand_forward:
  assumes "forward i s" and "0 \<le> lds_next_free s"
  shows "next_free b s \<le> next_free b (expand i s)"
proof (cases b)
  case Vgprs
  then show ?thesis using assms(1) by (cases i) (simp_all add: vgpr_next_free_expand del: expand.simps)
next
  case Sgprs
  then show ?thesis using assms(1) by (cases i) (simp_all add: sgpr_next_free_expand del: expand.simps)
next
  case Lds
  then show ?thesis
    using assms align_lds_bounds [OF assms(2)] by (cases i) (auto simp: lds_next_free_expand intro: add_increasing2 simp del: expand.simps)
qed

lemma expand_hands_out:
  assumes "forward i s" and "0 \<le> lds_next_free s" and "(b, x, f, n, a) \<in> set (handed_out i s)"
  shows "next_free b s \<le> f \<and> 0 \<le> n \<and> f + n = next_free b (expand i s)"
  using assms align_lds_bounds [of s]
  by (cases i) (auto simp: handed_out_first vgpr_next_free_expand sgpr_next_free_expand lds_next_free_expand simp del: expand.simps split: if_splits)

text \<open>Two ranges are apart: in different banks, or the first ends before the second begins.\<close>

definition before :: "bank \<times> string \<times> int \<times> int \<times> int \<Rightarrow> bank \<times> string \<times> int \<times> int \<times> int \<Rightarrow> bool" where
  "before r r' \<longleftrightarrow> (case r of (b, x, f, n, a) \<Rightarrow> case r' of (b', x', f', n', a') \<Rightarrow> b = b' \<longrightarrow> f + n \<le> f')"

lemma handed_out_short: "length (handed_out i s) \<le> 1"
  by (cases i) (simp_all add: handed_out_def)

lemma handed_out_before: "sorted_wrt before (handed_out i s)"
  using handed_out_short [of i s] by (cases "handed_out i s") auto

lemma all_forward_Cons:
  assumes "all_forward (i # ms) s" and "0 \<le> lds_next_free s"
  shows "forward i s" and "all_forward ms (expand i s)" and "0 \<le> lds_next_free (expand i s)"
    and "next_free b s \<le> next_free b (expand i s)"
proof -
  show fwd: "forward i s" "all_forward ms (expand i s)" using assms(1) by (simp_all del: expand.simps)
  show "next_free b s \<le> next_free b (expand i s)" for b by (rule expand_forward [OF fwd(1) assms(2)])
  from this [of Lds] assms(2) show "0 \<le> lds_next_free (expand i s)" by (simp del: expand.simps)
qed

lemma next_free_mono:
  "all_forward ms s \<Longrightarrow> 0 \<le> lds_next_free s \<Longrightarrow> next_free b s \<le> next_free b (fold expand ms s)"
proof (induction ms arbitrary: s)
  case (Cons i ms)
  note fwd = all_forward_Cons [OF Cons.prems]
  from fwd(4) [of b] Cons.IH [OF fwd(2,3)] show ?case by (simp del: expand.simps)
qed simp

lemma ranges_within:
  "all_forward ms s \<Longrightarrow> 0 \<le> lds_next_free s \<Longrightarrow> (b, x, f, n, a) \<in> set (ranges ms s) \<Longrightarrow>
    next_free b s \<le> f \<and> 0 \<le> n \<and> f + n \<le> next_free b (fold expand ms s)"
proof (induction ms arbitrary: s)
  case (Cons i ms)
  note fwd = all_forward_Cons [OF Cons.prems(1,2)]
  from Cons.prems(3) consider "(b, x, f, n, a) \<in> set (handed_out i s)" | "(b, x, f, n, a) \<in> set (ranges ms (expand i s))"
    by (auto simp del: expand.simps)
  then show ?case
  proof cases
    case 1
    from expand_hands_out [OF fwd(1) Cons.prems(2) 1] next_free_mono [OF fwd(2,3), of b] show ?thesis by simp
  next
    case 2
    from Cons.IH [OF fwd(2,3) 2] fwd(4) [of b] show ?thesis by (simp del: expand.simps)
  qed
qed simp

lemma ranges_before:
  "all_forward ms s \<Longrightarrow> 0 \<le> lds_next_free s \<Longrightarrow> sorted_wrt before (ranges ms s)"
proof (induction ms arbitrary: s)
  case (Cons i ms)
  note fwd = all_forward_Cons [OF Cons.prems]
  have "before r r'" if r: "r \<in> set (handed_out i s)" and r': "r' \<in> set (ranges ms (expand i s))" for r r'
  proof (cases r; cases r')
    fix b x f n a b' x' f' n' a' assume "r = (b, x, f, n, a)" "r' = (b', x', f', n', a')"
    with expand_hands_out [OF fwd(1) Cons.prems(2), of b x f n a] ranges_within [OF fwd(2,3), of b' x' f' n' a'] r r'
    show ?thesis by (simp add: before_def)
  qed
  then show ?case
    using Cons.IH [OF fwd(2,3)] handed_out_before by (simp add: sorted_wrt_append del: expand.simps)
qed simp

section \<open>Assembly without errors\<close>

lemma no_errors_Cons:
  assumes "errors (fold expand (i # ms) s) = errors s"
  shows "errors (expand i s) = errors s" and "errors (fold expand ms (expand i s)) = errors (expand i s)"
proof -
  obtain es es' where "errors (expand i s) = errors s @ es" "errors (fold expand ms (expand i s)) = errors (expand i s) @ es'"
    using expand_errors fold_expand_errors by blast
  then show "errors (expand i s) = errors s" "errors (fold expand ms (expand i s)) = errors (expand i s)"
    using assms by (simp_all del: expand.simps)
qed

lemma handed_out_aligned:
  "errors (expand i s) = errors s \<Longrightarrow> (b, x, f, n, a) \<in> set (handed_out i s) \<Longrightarrow> a dvd f"
  using align_lds_aligned
  by (cases i) (auto simp: handed_out_first macros checks Let_def smod_dvd error_def split: if_splits)

text \<open>A name that is not defined anew keeps its value.\<close>

lemma symbols_kept: "x \<notin> set (names_set i s) \<Longrightarrow> symbols (expand i s) x = symbols s x"
  by (cases i) (auto simp: macros checks Let_def error_def split: if_splits)

lemma symbols_fold_kept: "x \<notin> set (all_names ms s) \<Longrightarrow> symbols (fold expand ms s) x = symbols s x"
  by (induction ms arbitrary: s) (simp_all add: symbols_kept del: expand.simps)

lemma handed_out_symbol:
  "(b, x, f, n, a) \<in> set (handed_out i s) \<Longrightarrow> symbols (expand i s) x = Some f \<and> x \<in> set (names_set i s)"
  by (cases i) (auto simp: handed_out_def macros checks Let_def error_def split: if_splits)

lemma ranges_symbols:
  "distinct (all_names ms s) \<Longrightarrow> (b, x, f, n, a) \<in> set (ranges ms s) \<Longrightarrow> symbols (fold expand ms s) x = Some f"
proof (induction ms arbitrary: s)
  case (Cons i ms)
  from Cons.prems(2) consider "(b, x, f, n, a) \<in> set (handed_out i s)" | "(b, x, f, n, a) \<in> set (ranges ms (expand i s))"
    by (auto simp del: expand.simps)
  then show ?case
  proof cases
    case 1
    then have "x \<notin> set (all_names ms (expand i s))" using handed_out_symbol Cons.prems(1) by (fastforce simp del: expand.simps)
    then show ?thesis using handed_out_symbol [OF 1] by (simp add: symbols_fold_kept del: expand.simps)
  next
    case 2
    then show ?thesis using Cons by (simp del: expand.simps)
  qed
qed simp

lemma ranges_aligned:
  "errors (fold expand ms s) = errors s \<Longrightarrow> (b, x, f, n, a) \<in> set (ranges ms s) \<Longrightarrow> a dvd f"
proof (induction ms arbitrary: s)
  case (Cons i ms)
  note ok = no_errors_Cons [OF Cons.prems(1)]
  from Cons.prems(2) Cons.IH [OF ok(2)] handed_out_aligned [OF ok(1)] show ?case by (auto simp del: expand.simps)
qed simp

text \<open>The registers available are those of the minimal number of waves.\<close>

definition limits_ok :: "gpr_alloc \<Rightarrow> bool" where
  "limits_ok s \<longleftrightarrow> available_sgprs s = fst (GPRS_FOR_WAVE_LIMIT (min_waves_limit s)) \<and>
     available_vgprs s = snd (GPRS_FOR_WAVE_LIMIT (min_waves_limit s)) \<and> available_lds s = 65536 \<and>
     min_waves_limit s \<le> max_waves_limit s \<and> min_waves_limit s \<le> 10 \<and> 1 \<le> max_waves_limit s"

lemma limits_ok_BEGIN: "limits_ok (GPR_ALLOC_BEGIN s)"
  by (simp add: limits_ok_def GPR_ALLOC_BEGIN_def GPRS_FOR_WAVE_LIMIT_def)

lemma limits_ok_expand: "limits_ok s \<Longrightarrow> errors (expand i s) = errors s \<Longrightarrow> limits_ok (expand i s)"
  by (cases i) (auto simp: limits_ok_def macros checks Let_def error_def split: if_splits)

lemma limits_ok_fold: "limits_ok s \<Longrightarrow> errors (fold expand ms s) = errors s \<Longrightarrow> limits_ok (fold expand ms s)"
proof (induction ms arbitrary: s)
  case (Cons i ms)
  note ok = no_errors_Cons [OF Cons.prems(2)]
  from Cons.IH [OF limits_ok_expand [OF Cons.prems(1) ok(1)] ok(2)] show ?case by (simp del: expand.simps)
qed simp

text \<open>The end of a kernel.\<close>

definition additional :: "gpr_alloc \<Rightarrow> int" where
  "additional s = 2 * (sgpr_reserve_flatscr s + sgpr_reserve_xnack s + sgpr_reserve_vcc s)"

lemma end_checks_fields:
  "sgpr_next_free (end_checks s) = sgpr_next_free s" "vgpr_next_free (end_checks s) = vgpr_next_free s"
  "lds_next_free (end_checks s) = lds_next_free s" "max_waves_limit (end_checks s) = max_waves_limit s"
  "sgpr_reserve_flatscr (end_checks s) = sgpr_reserve_flatscr s" "sgpr_reserve_xnack (end_checks s) = sgpr_reserve_xnack s"
  "sgpr_reserve_vcc (end_checks s) = sgpr_reserve_vcc s"
  by (simp_all add: end_checks_def checks)

lemma END_counts:
  "auto_vgpr_count (GPR_ALLOC_END s) = max (snd (GPRS_FOR_WAVE_LIMIT (max_waves_limit s))) (vgpr_next_free s)"
  "auto_sgpr_count (GPR_ALLOC_END s) = max (fst (GPRS_FOR_WAVE_LIMIT (max_waves_limit s))) (sgpr_next_free s + additional s)"
  "auto_lds_byte_size (GPR_ALLOC_END s) = lds_next_free s"
  by (simp_all add: GPR_ALLOC_END_def end_checks_fields Let_def additional_def max_def split: prod.split)

lemma END_granules:
  "auto_vgpr_granulated_count (GPR_ALLOC_END s) = (auto_vgpr_count (GPR_ALLOC_END s) - 1) sdiv 4"
  "auto_sgpr_granulated_count (GPR_ALLOC_END s) = (auto_sgpr_count (GPR_ALLOC_END s) - 1) sdiv 8"
  by (simp_all add: GPR_ALLOC_END_def Let_def split: prod.split)

lemma END_limits:
  "max_waves_limit (GPR_ALLOC_END s) = max_waves_limit s" "min_waves_limit (GPR_ALLOC_END s) = min_waves_limit s"
  by (simp_all add: GPR_ALLOC_END_def end_checks_def checks Let_def split: prod.split)

lemma END_errors:
  "\<exists>es. errors (GPR_ALLOC_END s) = errors s @ es \<and> (es = [] \<longrightarrow> auto_gpr_count_guard s \<noteq> 1 \<and>
     sgpr_next_free s < available_sgprs s \<and> vgpr_next_free s < available_vgprs s \<and> lds_next_free s < available_lds s)"
proof -
  have "errors (GPR_ALLOC_END s) = errors (end_checks s)"
    by (simp add: GPR_ALLOC_END_def Let_def split: prod.split)
  then show ?thesis by (simp add: end_checks_def checks)
qed

text \<open>A request that is granted.\<close>

lemma VGPR_ALLOC_ok:
  "vgpr_next_free s + n < available_vgprs s \<Longrightarrow>
    VGPR_ALLOC x n s = s\<lparr>symbols := (symbols s)(x \<mapsto> vgpr_next_free s), vgpr_next_free := vgpr_next_free s + n\<rparr>"
  by (simp add: VGPR_ALLOC_def checks error_if_def)

lemma SGPR_ALLOC_ok:
  "sgpr_next_free s + n < available_sgprs s \<Longrightarrow> effective_alignment n a \<noteq> 0 \<Longrightarrow>
    sgpr_next_free s smod effective_alignment n a = 0 \<Longrightarrow>
    SGPR_ALLOC x n a s = s\<lparr>symbols := (symbols s)(x \<mapsto> sgpr_next_free s), sgpr_next_free := sgpr_next_free s + n\<rparr>"
  by (simp add: SGPR_ALLOC_def checks error_if_def unaligned_def)

lemma END_symbols: "symbols (GPR_ALLOC_END s) = symbols s"
  by (simp add: GPR_ALLOC_END_def end_checks_def checks Let_def split: prod.split)

lemmas alloc_eval = VGPR_ALLOC_ok SGPR_ALLOC_ok GPR_ALLOC_BEGIN_def SGPR_ALLOC_ONCE_def effective_alignment_def
  VGPR_ALLOC_FROM_def SGPR_ALLOC_FROM_def included_def signed_modulo_int_def

lemma no_errors_kernel:
  assumes "errors (assemble_kernel ms s) = errors s"
  shows "errors (fold expand ms (GPR_ALLOC_BEGIN s)) = errors (GPR_ALLOC_BEGIN s)"
    and "sgpr_next_free (fold expand ms (GPR_ALLOC_BEGIN s)) < available_sgprs (fold expand ms (GPR_ALLOC_BEGIN s))"
    and "vgpr_next_free (fold expand ms (GPR_ALLOC_BEGIN s)) < available_vgprs (fold expand ms (GPR_ALLOC_BEGIN s))"
    and "lds_next_free (fold expand ms (GPR_ALLOC_BEGIN s)) < available_lds (fold expand ms (GPR_ALLOC_BEGIN s))"
    and "limits_ok (fold expand ms (GPR_ALLOC_BEGIN s))"
proof -
  let ?s = "GPR_ALLOC_BEGIN s" and ?t = "fold expand ms (GPR_ALLOC_BEGIN s)"
  have "errors ?s = errors s" by (simp add: GPR_ALLOC_BEGIN_def)
  moreover obtain es where "errors ?t = errors ?s @ es" using fold_expand_errors by blast
  moreover obtain es' where "errors (GPR_ALLOC_END ?t) = errors ?t @ es'"
    and "es' = [] \<longrightarrow> sgpr_next_free ?t < available_sgprs ?t \<and> vgpr_next_free ?t < available_vgprs ?t \<and> lds_next_free ?t < available_lds ?t"
    using END_errors [of ?t] by blast
  ultimately show "errors ?t = errors ?s" "sgpr_next_free ?t < available_sgprs ?t" "vgpr_next_free ?t < available_vgprs ?t"
      "lds_next_free ?t < available_lds ?t"
    using assms by (simp_all add: assemble_kernel_def)
  then show "limits_ok ?t" using limits_ok_fold [OF limits_ok_BEGIN] by blast
qed

section \<open>Waves\<close>

lemma waves_cases:
  fixes w :: int
  assumes "1 \<le> w" and "w \<le> 10"
  obtains "w = 1" | "w = 2" | "w = 3" | "w = 4" | "w = 5" | "w = 6" | "w = 7" | "w = 8" | "w = 9" | "w = 10"
  using assms by atomize_elim presburger

lemma wave_vgprs: "1 \<le> w \<Longrightarrow> w \<le> 10 \<Longrightarrow> snd (GPRS_FOR_WAVE_LIMIT w) = 256 div w div 4 * 4"
  by (elim waves_cases) (simp_all add: GPRS_FOR_WAVE_LIMIT_def)

lemma wave_vgprs_bounds:
  "4 dvd snd (GPRS_FOR_WAVE_LIMIT w)" "24 \<le> snd (GPRS_FOR_WAVE_LIMIT w)" "snd (GPRS_FOR_WAVE_LIMIT w) \<le> 256"
  by (simp_all add: GPRS_FOR_WAVE_LIMIT_def)

lemma wave_sgprs_bounds: "80 \<le> fst (GPRS_FOR_WAVE_LIMIT w)" "fst (GPRS_FOR_WAVE_LIMIT w) \<le> 102"
  by (simp_all add: GPRS_FOR_WAVE_LIMIT_def)

lemma wave_vgprs_fit: "w \<le> 10 \<Longrightarrow> w * snd (GPRS_FOR_WAVE_LIMIT w) \<le> 256"
proof (cases "1 \<le> w")
  case True
  moreover assume "w \<le> 10"
  ultimately show ?thesis by (elim waves_cases) (simp_all add: GPRS_FOR_WAVE_LIMIT_def)
next
  case False
  then have "w * snd (GPRS_FOR_WAVE_LIMIT w) \<le> 0"
    using wave_vgprs_bounds(2) [of w] by (intro mult_nonpos_nonneg) simp_all
  then show ?thesis by simp
qed

lemma wave_vgprs_antitone:
  assumes "v \<le> w" and "w \<le> 10" shows "snd (GPRS_FOR_WAVE_LIMIT w) \<le> snd (GPRS_FOR_WAVE_LIMIT v)"
proof (cases "1 \<le> v")
  case True
  then have "256 div w \<le> 256 div v" using assms by (intro zdiv_mono2) simp_all
  then have "256 div w div 4 \<le> 256 div v div 4" by (rule zdiv_mono1) simp
  then show ?thesis using wave_vgprs [of v] wave_vgprs [of w] assms True by simp
next
  case False
  then have "snd (GPRS_FOR_WAVE_LIMIT v) = 256" by (simp add: GPRS_FOR_WAVE_LIMIT_def)
  then show ?thesis using wave_vgprs_bounds(3) [of w] by simp
qed

text \<open>A count is granulated to the next multiple, less one.\<close>

lemma granules:
  fixes n g :: int
  assumes "1 \<le> n" and "0 < g"
  shows "n \<le> g * ((n - 1) sdiv g + 1)" and "g * ((n - 1) sdiv g) < n"
    and "g dvd m \<Longrightarrow> n \<le> m \<Longrightarrow> g * ((n - 1) sdiv g + 1) \<le> m"
proof -
  have e: "(n - 1) sdiv g = (n - 1) div g" using assms by (intro sdiv_nonneg) simp_all
  have m: "g * ((n - 1) div g) = n - 1 - (n - 1) mod g" by (simp add: minus_mod_eq_mult_div)
  show "n \<le> g * ((n - 1) sdiv g + 1)" "g * ((n - 1) sdiv g) < n"
    unfolding e distrib_left m using pos_mod_bound [OF assms(2), of "n - 1"] pos_mod_sign [OF assms(2), of "n - 1"] by simp_all
  assume "g dvd m" "n \<le> m"
  then obtain k where k: "m = g * k" by blast
  have "(n - 1) div g < k"
  proof (rule ccontr)
    assume "\<not> (n - 1) div g < k"
    then have "g * k \<le> g * ((n - 1) div g)" using assms(2) by simp
    also have "\<dots> \<le> n - 1" unfolding m using pos_mod_sign [OF assms(2), of "n - 1"] by simp
    finally show False using \<open>n \<le> m\<close> k by simp
  qed
  then have "g * ((n - 1) div g + 1) \<le> g * k" using assms(2) by simp
  then show "g * ((n - 1) sdiv g + 1) \<le> m" unfolding e k .
qed

lemmas kernel_eval = handed_out_def assemble_kernel_def GPR_ALLOC_BEGIN_def GPR_ALLOC_END_def end_checks_def macros checks Let_def
  error_if_def error_def effective_alignment_def GPRS_FOR_WAVE_LIMIT_def included_def

text \<open>A kernel with two waves at least, five at most, that uses all banks.\<close>

definition sample :: "alloc_macro list" where
  "sample = [Set_max_waves_limit 5, Set_min_waves_limit 2, Sgpr_alloc_from 8, Sgpr_reserve_vcc,
     Sgpr_alloc_once ''stmp'' 8 0, Vgpr_alloc ''tid'' 1, Vgpr_alloc ''tmp'' 60,
     Lds_alloc ''a'' 100 4, Lds_alloc ''b'' 64 16]"

section \<open>Kernels that show what is not checked\<close>

text \<open>
  The checks refuse a request that would use up a bank exactly: with the 24 vector registers of ten
  waves, 24 cannot be had.
\<close>

lemma last_register_refused:
  "errors (assemble_kernel [Set_min_waves_limit 10, Vgpr_alloc ''v'' 24] included) =
     [''Error: out of free vgprs'', ''Error: out of free vgprs'']"
  by (simp add: kernel_eval)

text \<open>
  The reserved registers are not part of the checks: for ten waves of at most 80 scalar registers, 85
  are declared without an error.
\<close>

lemma reserved_sgprs_unchecked:
  "errors (assemble_kernel [Set_min_waves_limit 10, Sgpr_reserve_vcc, Sgpr_reserve_xnack, Sgpr_reserve_flatscr, Sgpr_alloc ''s'' 79 1] included) = []"
  "auto_sgpr_count (assemble_kernel [Set_min_waves_limit 10, Sgpr_reserve_vcc, Sgpr_reserve_xnack, Sgpr_reserve_flatscr, Sgpr_alloc ''s'' 79 1] included) = 85"
  by (simp_all add: kernel_eval)

text \<open>
  The maximal number of waves is not compared with 10: with 11, a kernel that uses no vector register
  declares all 256.
\<close>

lemma eleven_waves:
  "errors (assemble_kernel [Set_max_waves_limit 11] included) = []"
  "auto_vgpr_count (assemble_kernel [Set_max_waves_limit 11] included) = 256"
  by (simp_all add: kernel_eval)

text \<open>
  \<open>.GPR_ALLOC_BEGIN\<close> does not reset the guards: in the second kernel of a file \<open>.SGPR_ALLOC_ONCE\<close>
  hands out nothing, and the name keeps a register that is now another's.
\<close>

lemma once_across_kernels:
  "errors (assemble_kernel [Sgpr_alloc_once ''stmp'' 8 0, Sgpr_alloc ''x'' 4 0]
     (assemble_kernel [Sgpr_alloc_once ''stmp'' 8 0] included)) = []"
  "symbols (assemble_kernel [Sgpr_alloc_once ''stmp'' 8 0, Sgpr_alloc ''x'' 4 0]
     (assemble_kernel [Sgpr_alloc_once ''stmp'' 8 0] included)) ''stmp'' = Some 0"
  "symbols (assemble_kernel [Sgpr_alloc_once ''stmp'' 8 0, Sgpr_alloc ''x'' 4 0]
     (assemble_kernel [Sgpr_alloc_once ''stmp'' 8 0] included)) ''x'' = Some 0"
  by (simp_all add: kernel_eval)

section \<open>The claims\<close>

text \<open>
  C15. The macros of gpr_alloc.inc hand out every register and every byte of local memory once. A range
  begins at the value its macro gives to the name asked for. In a kernel that never moves a next free index
  back and asks for no negative number, of any two ranges in the same bank the later one begins where or after the
  earlier one ends; and if no name is defined twice, every name still has the first register
  or byte of its range as its value when the kernel ends. This holds whether or not an error is reported.
\<close>

theorem gpr_ranges_apart:
  assumes "all_forward ms (GPR_ALLOC_BEGIN s)"
  shows "sorted_wrt before (ranges ms (GPR_ALLOC_BEGIN s)) \<and>
    (distinct (all_names ms (GPR_ALLOC_BEGIN s)) \<longrightarrow>
      (\<forall>(b, x, f, n, a) \<in> set (ranges ms (GPR_ALLOC_BEGIN s)). symbols (assemble_kernel ms s) x = Some f))"
proof -
  have "sorted_wrt before (ranges ms (GPR_ALLOC_BEGIN s))"
    by (rule ranges_before [OF assms]) (simp add: GPR_ALLOC_BEGIN_def)
  then show ?thesis by (auto simp: assemble_kernel_def END_symbols ranges_symbols)
qed

text \<open>
  C16. A kernel assembled without an error gets what it asked for: the value given to every name that
  registers or bytes are asked for under is a multiple of the alignment asked for, and the counts that \<open>.GPR_ALLOC_END\<close> computes for the kernel header cover
  it, the scalar registers together with the reserved ones.
\<close>

theorem gpr_counts_cover:
  assumes "all_forward ms (GPR_ALLOC_BEGIN s)" and "errors (assemble_kernel ms s) = errors s"
    and "(b, x, f, n, a) \<in> set (ranges ms (GPR_ALLOC_BEGIN s))"
  shows "0 \<le> f \<and> a dvd f \<and>
    (case b of
       Vgprs \<Rightarrow> f + n \<le> auto_vgpr_count (assemble_kernel ms s)
     | Sgprs \<Rightarrow> f + n + additional (fold expand ms (GPR_ALLOC_BEGIN s)) \<le> auto_sgpr_count (assemble_kernel ms s)
     | Lds \<Rightarrow> f + n \<le> auto_lds_byte_size (assemble_kernel ms s) \<and> auto_lds_byte_size (assemble_kernel ms s) < 65536)"
proof -
  have "0 \<le> lds_next_free (GPR_ALLOC_BEGIN s)" "0 \<le> next_free b (GPR_ALLOC_BEGIN s)"
    by (cases b; simp add: GPR_ALLOC_BEGIN_def)+
  note within = ranges_within [OF assms(1) this(1) assms(3)] this(2)
  note ok = no_errors_kernel [OF assms(2)]
  have "a dvd f" by (rule ranges_aligned [OF ok(1) assms(3)])
  moreover have "available_lds (fold expand ms (GPR_ALLOC_BEGIN s)) = 65536" using ok(5) by (simp add: limits_ok_def)
  ultimately show ?thesis
    using within ok(4) by (cases b) (auto simp: assemble_kernel_def END_counts le_max_iff_disj)
qed

text \<open>
  C17. The limits on the number of waves are kept: in a kernel assembled without an error whose maximal
  number of waves is at most 10, the vector registers of the minimal number of waves, in granules of
  four as the header declares them, fit into the 256 of a SIMD unit.
\<close>

theorem gpr_alloc_occupancy:
  assumes "errors (assemble_kernel ms s) = errors s" and "max_waves_limit (assemble_kernel ms s) \<le> 10"
  shows "min_waves_limit (assemble_kernel ms s) * (4 * (auto_vgpr_granulated_count (assemble_kernel ms s) + 1)) \<le> 256"
proof -
  let ?t = "fold expand ms (GPR_ALLOC_BEGIN s)" and ?k = "assemble_kernel ms s"
  note ok = no_errors_kernel [OF assms(1)]
  have lim: "min_waves_limit ?t \<le> max_waves_limit ?t" "min_waves_limit ?t \<le> 10" "max_waves_limit ?t \<le> 10"
    "vgpr_next_free ?t < snd (GPRS_FOR_WAVE_LIMIT (min_waves_limit ?t))"
    using ok(3,5) assms(2) by (simp_all add: limits_ok_def assemble_kernel_def END_limits)
  let ?m = "snd (GPRS_FOR_WAVE_LIMIT (min_waves_limit ?t))"
  have count: "auto_vgpr_count ?k \<le> ?m" "1 \<le> auto_vgpr_count ?k"
    using lim wave_vgprs_antitone [OF lim(1,3)] wave_vgprs_bounds(2) [of "max_waves_limit ?t"]
    by (simp_all add: assemble_kernel_def END_counts)
  have g: "4 * (auto_vgpr_granulated_count ?k + 1) \<le> ?m" "0 \<le> auto_vgpr_granulated_count ?k"
    using granules(3) [OF count(2) _ wave_vgprs_bounds(1) count(1)] granules(1) [OF count(2), of 4] count(2)
    by (simp_all add: assemble_kernel_def END_granules)
  show ?thesis
  proof (cases "0 \<le> min_waves_limit ?t")
    case True
    then have "min_waves_limit ?t * (4 * (auto_vgpr_granulated_count ?k + 1)) \<le> min_waves_limit ?t * ?m"
      using g(1) by (rule mult_left_mono [rotated])
    then show ?thesis using wave_vgprs_fit [OF lim(2)] by (simp add: assemble_kernel_def END_limits)
  next
    case False
    then have "min_waves_limit ?t * (4 * (auto_vgpr_granulated_count ?k + 1)) \<le> 0"
      using g(2) by (intro mult_nonpos_nonneg) simp_all
    then show ?thesis by (simp add: assemble_kernel_def END_limits)
  qed
qed

text \<open>
  The table of vector registers per number of waves is the quotient of the 256 registers of a SIMD
  unit, rounded down to the granule of four.
\<close>

theorem wave_limit_vgprs:
  assumes "1 \<le> waves" and "waves \<le> 10"
  shows "snd (GPRS_FOR_WAVE_LIMIT waves) = 256 div waves div 4 * 4"
  by (rule wave_vgprs [OF assms])

theorem wave_limit_vgprs_witness: "snd (GPRS_FOR_WAVE_LIMIT 9) = 256 div 9 div 4 * 4 \<and> (256 div 9 div 4 * 4 :: int) = 28"
  using wave_limit_vgprs [of 9] by simp

theorem gpr_ranges_apart_witness:
  "sorted_wrt before (ranges sample (GPR_ALLOC_BEGIN included)) \<and>
   ranges sample (GPR_ALLOC_BEGIN included) =
     [(Sgprs, ''stmp'', 8, 8, 4), (Vgprs, ''tid'', 0, 1, 1), (Vgprs, ''tmp'', 1, 60, 1), (Lds, ''a'', 0, 100, 4), (Lds, ''b'', 112, 64, 16)] \<and>
   map (symbols (assemble_kernel sample included)) [''stmp'', ''tid'', ''tmp'', ''a'', ''b''] = map Some [8, 0, 1, 0, 112]"
proof -
  have fwd: "all_forward sample (GPR_ALLOC_BEGIN included)" by (simp add: sample_def kernel_eval)
  have names: "distinct (all_names sample (GPR_ALLOC_BEGIN included))" by (simp add: sample_def kernel_eval)
  have r: "ranges sample (GPR_ALLOC_BEGIN included) =
     [(Sgprs, ''stmp'', 8, 8, 4), (Vgprs, ''tid'', 0, 1, 1), (Vgprs, ''tmp'', 1, 60, 1), (Lds, ''a'', 0, 100, 4), (Lds, ''b'', 112, 64, 16)]"
    by (simp add: sample_def kernel_eval)
  show ?thesis
    using gpr_ranges_apart [OF fwd] names by (simp add: r)
qed

theorem gpr_counts_cover_witness:
  "112 + 64 \<le> auto_lds_byte_size (assemble_kernel sample included) \<and> (16 :: int) dvd 112"
  using gpr_counts_cover [of sample included Lds "''b''" 112 64 16]
  by (simp add: sample_def kernel_eval)

theorem gpr_alloc_occupancy_witness:
  "2 * (4 * (auto_vgpr_granulated_count (assemble_kernel sample included) + 1)) \<le> (256 :: int) \<and>
   auto_vgpr_count (assemble_kernel sample included) = 61"
  using gpr_alloc_occupancy [of sample included] by (simp add: sample_def kernel_eval)

end
