(* ===== verification/Gds_Test.thy ===== *)
theory Gds_Test
  imports Debug_Output Gpr_Alloc
begin

text \<open>
  examples/gfx8/gds_test.s: every work-item adds one to a word of the global data share, and the result goes
  to the debug buffer. The parameters \<open>enable_debug_output\<close>, \<open>debug_wid\<close> and \<open>debug_gid_x/y/z\<close> come from
  params.inc, a file that is generated for a run.
\<close>

section \<open>The registers\<close>

record params =
  p_enable_debug_output :: bool
  p_debug_wid :: u32
  p_debug_gid_x :: u32
  p_debug_gid_y :: u32
  p_debug_gid_z :: u32

definition gds_test_allocs :: "bool \<Rightarrow> alloc_macro list" where
  "gds_test_allocs debug =
     [Sgpr_alloc_from 8, Sgpr_alloc_once ''stmp'' 8 0,
      Vgpr_alloc_from 0, Vgpr_alloc ''tid_x'' 1, Vgpr_alloc ''vtmp'' 4] @
     (if debug then
       [Vgpr_alloc ''dbg_ptr'' 2, Vgpr_alloc ''dbg'' 16, Vgpr_alloc ''dbg_wave_id'' 1,
        Sgpr_alloc ''dbg_exec_lo'' 1 0, Sgpr_alloc ''dbg_exec_hi'' 1 0]
      else [])"

definition gds_test_alloc :: "bool \<Rightarrow> gpr_alloc" where
  "gds_test_alloc debug = assemble_kernel (gds_test_allocs debug) included"

text \<open>The number a symbol stands for, which is read only where it is defined.\<close>

definition symbol :: "string \<Rightarrow> gpr_alloc \<Rightarrow> nat" where
  "symbol x g = (case symbols g x of Some n \<Rightarrow> nat n | None \<Rightarrow> 0)"

definition gds_symbols :: "params \<Rightarrow> debug_symbols" where
  "gds_symbols p = (let g = gds_test_alloc (p_enable_debug_output p) in
     \<lparr>enable_debug_output = p_enable_debug_output p, debug_wid = p_debug_wid p,
      dbg_ptr = symbol ''dbg_ptr'' g, dbg = symbol ''dbg'' g, dbg_wave_id = symbol ''dbg_wave_id'' g,
      dbg_exec_lo = symbol ''dbg_exec_lo'' g, dbg_exec_hi = symbol ''dbg_exec_hi'' g\<rparr>)"

section \<open>The kernel\<close>

definition kernarg_sgpr :: nat where "kernarg_sgpr = 0"
definition gid_x :: nat where "gid_x = 3"
definition gid_y :: nat where "gid_y = 4"
definition gid_z :: nat where "gid_z = 5"
definition dbg_ptr_off :: nat where "dbg_ptr_off = 0x38"

definition debug_setup :: "params \<Rightarrow> instr list" where
  "debug_setup p = (let s = gds_symbols p in
     if p_enable_debug_output p then [
       S_load_dwordx2 6 kernarg_sgpr (0 + dbg_ptr_off),
       V_lshrrev_b32 (dbg_wave_id s) 6 0,
       S_waitcnt True True,
       S_mov_b32 (To_sgpr (dbg_exec_lo s)) Exec_lo,
       S_mov_b32 (To_sgpr (dbg_exec_hi s)) Exec_hi,
       S_mov_b64_exec (- 1),
       V_mbcnt_lo_u32_b32 (dbg_ptr s) (- 1) (Literal 0),
       V_mbcnt_hi_u32_b32 (dbg_ptr s) (- 1) (Vgpr (dbg_ptr s)),
       V_mul_u32_u24 (dbg_ptr s) (dbg_ptr s) 4,
       V_mov_b32 (dbg_ptr s + 1) (Sgpr 7),
       V_add_u32 (dbg_ptr s) (Sgpr 6) (dbg_ptr s),
       V_addc_u32 (dbg_ptr s + 1) (dbg_ptr s + 1),
       S_mov_b32 To_exec_lo (Sgpr (dbg_exec_lo s)),
       S_mov_b32 To_exec_hi (Sgpr (dbg_exec_hi s)),
       S_mov_b32 (To_sgpr gid_x) (Literal (p_debug_gid_x p)),
       S_mov_b32 (To_sgpr gid_y) (Literal (p_debug_gid_y p)),
       S_mov_b32 (To_sgpr gid_z) (Literal (p_debug_gid_z p))]
     else [])"

definition gds_count :: "instr list" where
  "gds_count = [
     S_mov_b32 To_m0 (Literal (- 1)),
     V_mov_b32 2 (Literal 1),
     V_mov_b32 3 (Literal 0),
     Ds_add_u32_gds 3 2,
     S_waitcnt True True,
     Ds_read_b32_gds 4 3]"

definition gds_test_program :: "params \<Rightarrow> instr list" where
  "gds_test_program p =
     debug_setup p @ gds_count @ fst (dump_fvgpr (gds_symbols p) 2 3 0) @ dbg_store (gds_symbols p) @ [S_endpgm]"

section \<open>The numbers of the registers\<close>

lemma gds_test_symbols:
  "gds_test_allocs True = ms \<Longrightarrow> symbols (fold expand ms (GPR_ALLOC_BEGIN included)) =
    [''stmp'' \<mapsto> 8, ''tid_x'' \<mapsto> 0, ''vtmp'' \<mapsto> 1, ''dbg_ptr'' \<mapsto> 5, ''dbg'' \<mapsto> 7, ''dbg_wave_id'' \<mapsto> 23, ''dbg_exec_lo'' \<mapsto> 16, ''dbg_exec_hi'' \<mapsto> 17]"
  by (auto simp: gds_test_allocs_def alloc_eval)

lemma gds_symbols_fields:
  assumes "p_enable_debug_output p"
  shows "enable_debug_output (gds_symbols p)" "debug_wid (gds_symbols p) = p_debug_wid p" "dbg_ptr (gds_symbols p) = 5"
    "dbg (gds_symbols p) = 7" "dbg_wave_id (gds_symbols p) = 23" "dbg_exec_lo (gds_symbols p) = 16" "dbg_exec_hi (gds_symbols p) = 17"
  using assms
  by (simp_all add: gds_symbols_def gds_test_alloc_def assemble_kernel_def END_symbols gds_test_symbols [OF refl] symbol_def)

lemma gds_symbols_off: "\<not> p_enable_debug_output p \<Longrightarrow> \<not> enable_debug_output (gds_symbols p)"
  by (simp add: gds_symbols_def Let_def)

text \<open>Without errors, and with room for every register the kernel names.\<close>

lemma gds_test_alloc_counts:
  "errors (gds_test_alloc debug) = []" "auto_vgpr_count (gds_test_alloc debug) = 24" "auto_sgpr_count (gds_test_alloc debug) = 80"
proof -
  have END: "errors (GPR_ALLOC_END s) = errors s \<and> auto_vgpr_count (GPR_ALLOC_END s) = 24 \<and> auto_sgpr_count (GPR_ALLOC_END s) = 80"
    if "auto_gpr_count_guard s = 0" "sgpr_next_free s \<le> 18" "available_sgprs s = 102" "vgpr_next_free s \<le> 24" "available_vgprs s = 256"
      "lds_next_free s = 0" "available_lds s = 65536" "max_waves_limit s = 10" "additional s = 0" for s
    using that by (simp add: END_counts GPRS_FOR_WAVE_LIMIT_def) (simp add: GPR_ALLOC_END_def end_checks_def checks error_if_def Let_def split: prod.split)
  have "errors (gds_test_alloc debug) = [] \<and> auto_vgpr_count (gds_test_alloc debug) = 24 \<and> auto_sgpr_count (gds_test_alloc debug) = 80"
    unfolding gds_test_alloc_def assemble_kernel_def
    by (cases debug) (simp_all add: gds_test_allocs_def alloc_eval additional_def END)
  then show "errors (gds_test_alloc debug) = []" "auto_vgpr_count (gds_test_alloc debug) = 24" "auto_sgpr_count (gds_test_alloc debug) = 80"
    by simp_all
qed

section \<open>One wavefront\<close>

text \<open>Wavefront \<open>n\<close> of a workgroup at the start, with the global data share and the memory that it finds.\<close>

definition gds_wave :: "nat \<Rightarrow> addr \<Rightarrow> memory \<Rightarrow> (u32 \<Rightarrow> u32 \<Rightarrow> u32) \<Rightarrow> nat \<Rightarrow> wave \<Rightarrow> wave" where
  "gds_wave n p m g t undef = (wave_start 64 p m t undef)\<lparr>gds := g, vreg := (vreg undef)(0 := \<lambda>l. of_nat (64 * n + l))\<rparr>"

text \<open>The debug buffer that the kernel arguments name.\<close>

definition debug_buffer :: "addr \<Rightarrow> memory \<Rightarrow> addr" where
  "debug_buffer p m = dec_u64 (load_bytes (p + 0x38) 8 m)"

lemma bits_below_all: "bits_below (- 1) n = of_nat (min n 32)"
proof -
  have "filter (bit (- 1 :: u32)) [0..<min n 32] = [0..<min n 32]" by (rule filter_True) simp
  then show ?thesis by (simp add: bits_below_def)
qed

lemma lane_count: "l < 64 \<Longrightarrow> bits_below (- 1) l + bits_below (- 1) (l - 32) = (of_nat l :: u32)"
proof -
  assume "l < 64"
  then have "min l 32 + min (l - 32) 32 = l" by auto
  then show ?thesis unfolding bits_below_all of_nat_add [symmetric] by (rule arg_cong)
qed

lemma lane_bytes: "l < 64 \<Longrightarrow> take_bit 24 (of_nat l :: u32) * take_bit 24 4 = push_bit 2 (of_nat l)"
proof -
  assume "l < 64"
  then have "unat (of_nat l :: u32) < 2 ^ 24" by (simp add: unat_of_nat take_bit_eq_mod)
  then have "take_bit 24 (of_nat l :: u32) = of_nat l" by (simp add: word_unat_eq_iff unsigned_take_bit_eq take_bit_nat_eq_self)
  moreover have "take_bit 24 4 = (4 :: u32)" by (simp add: take_bit_eq_mod)
  ultimately show ?thesis by (simp add: push_bit_eq_mult)
qed

lemma wave_number: "n < 2 ^ 20 \<Longrightarrow> l < 64 \<Longrightarrow> drop_bit 6 (of_nat (64 * n + l) :: u32) = of_nat n"
proof -
  assume n: "n < 2 ^ 20" "l < 64"
  then have "unat (of_nat (64 * n + l) :: u32) = 64 * n + l" by (intro unat_of_nat_lt) simp
  then have "unat (drop_bit 6 (of_nat (64 * n + l) :: u32)) = (64 * n + l) div 2 ^ 6"
    unfolding unat_drop_bit_eq by (simp only: drop_bit_eq_div)
  also have "\<dots> = n" using n(2) by simp
  also have "\<dots> = unat (of_nat n :: u32)" using n(1) by (intro unat_of_nat_lt [symmetric]) simp
  finally show ?thesis by (simp only: word_unat_eq_iff)
qed

text \<open>The preparation of the debug output: the addresses of the lanes, and the number of the wavefront.\<close>

lemma lane_pointer:
  assumes "l < 64"
  shows "pair64 (b + of_bool (carry a (push_bit 2 (of_nat l)) False)) (a + push_bit 2 (of_nat l)) = pair64 b a + of_nat (4 * l)"
  using lane_offset [OF assms, of 2] pair64_offset [of b a "push_bit 2 (of_nat l)"] by simp

lemma run_debug_setup:
  assumes "p_enable_debug_output ps" and "n < 2 ^ 20"
  shows "\<exists>w. run_code A (debug_setup ps) (gds_wave n p m g t undef) = Some w \<and>
     exec_mask w = mask 64 \<and> pend_lgkm w = [] \<and> pend_flat w = [] \<and> recent w = (None, None) \<and> gmem w = m \<and> gds w = g \<and> pc w = 0 \<and>
     (\<forall>l<64. vreg w 23 l = of_nat n \<and> flat_addr (vreg w) 5 l = elem_addr 4 (debug_buffer p m) l) \<and>
     (\<forall>x. x \<notin> {0, 5, 6, 23} \<longrightarrow> vreg w x = vreg undef x)"
proof -
  have loaded: "pair64 (dec_u32 (load_bytes (p + 60) 4 m)) (dec_u32 (load_bytes (p + 56) 4 m)) = debug_buffer p m"
    using pair64_load [of "p + 0x38" m] by (simp add: debug_buffer_def add.assoc)
  let ?hi = "dec_u32 (load_bytes (60 + p) 4 m)" and ?lo = "dec_u32 (load_bytes (p + 56) 4 m)"
    and ?off = "\<lambda>l. take_bit 24 (bits_below (- 1) l + bits_below (- 1) (l - 32)) * 4 :: u32"
  have off: "?off l = push_bit 2 (of_nat l)" if "l < 64" for l
    using lane_count [OF that] lane_bytes [OF that] by simp
  have number: "drop_bit 6 (64 * of_nat n + of_nat l) = (of_nat n :: u32)" if "l < 64" for l
    using wave_number [OF assms(2) that] by simp
  have "pair64 (?hi + of_bool (carry ?lo (?off l) False)) (?lo + ?off l) = elem_addr 4 (debug_buffer p m) l" if "l < 64" for l
    using loaded by (simp only: off [OF that] lane_pointer [OF that]) (simp add: elem_addr_def add.commute)
  then have pointer: "carry ?lo (?off l) False \<Longrightarrow> pair64 (?hi + 1) (?lo + ?off l) = elem_addr 4 (debug_buffer p m) l"
    "\<not> carry ?lo (?off l) False \<Longrightarrow> pair64 ?hi (?lo + ?off l) = elem_addr 4 (debug_buffer p m) l" if "l < 64" for l
    using that by fastforce+
  note gds_symbols_fields [OF assms(1), simp]
  show ?thesis
    using assms
    apply (simp add: debug_setup_def Let_def gds_wave_def wave_start_def kernarg_sgpr_def gid_x_def gid_y_def gid_z_def dbg_ptr_off_def
      load_sgprs_def busy_def hazard_def alu_writes_def dpp_reads_def dst_regs_def set_dst_def)
    apply (simp add: set_lanes_def flat_addr_def lane_map_def)
    using number pointer by blast
qed

text \<open>The additions: the word at address 0 of the share that \<open>m0\<close> = -1 selects.\<close>

definition counted :: "nat \<Rightarrow> (u32 \<Rightarrow> u32 \<Rightarrow> u32) \<Rightarrow> u32 \<Rightarrow> u32 \<Rightarrow> u32" where
  "counted n g = g(- 1 := (g (- 1))(0 := g (- 1) 0 + of_nat n))"

lemma counted_counted: "counted a (counted b g) = counted (b + a) g"
  by (simp add: counted_def fun_eq_iff)

lemma counted_0: "counted 0 g = g"
  by (simp add: counted_def)

lemma gds_add_ones: "(\<And>l. l \<in> set ls \<Longrightarrow> a l = 0 \<and> x l = 1) \<Longrightarrow> gds_add (- 1) a x ls g = counted (length ls) g"
proof (induction ls arbitrary: g)
  case (Cons l ls)
  have "gds_add (- 1) a x (l # ls) g = gds_add (- 1) a x ls (counted 1 g)"
    using Cons.prems [of l] by (simp add: gds_add_def counted_def)
  then show ?case using Cons by (simp add: counted_counted)
qed (simp add: gds_add_def counted_0)

lemma run_gds_count:
  assumes "exec_mask w = mask 64" "pend_lgkm w = []" "pend_flat w = []"
  shows "\<exists>v r. run_code A gds_count w =
      Some (w\<lparr>m0 := - 1, vreg := v, gds := counted 64 (gds w), recent := r, pend_lgkm := [V 4]\<rparr>) \<and>
    (\<forall>l<64. v 2 l = 1 \<and> v 3 l = 0 \<and> v 4 l = gds w (- 1) 0 + 64) \<and> (\<forall>x. x \<notin> {2, 3, 4} \<longrightarrow> v x = vreg w x)"
proof -
  let ?v = "set_lanes (mask 64) 3 (\<lambda>l. 0) (set_lanes (mask 64) 2 (\<lambda>l. 1) (vreg w))"
  have added: "gds_add (- 1) (?v 3) (?v 2) (lanes_of (mask 64)) (gds w) = counted 64 (gds w)"
    by (subst gds_add_ones) (auto simp: lanes_of_64 set_lanes_def lane_map_def simp del: upt_rec_numeral)
  have "run_code A gds_count w = Some (w\<lparr>m0 := - 1,
      vreg := set_lanes (mask 64) 4 (\<lambda>l. counted 64 (gds w) (- 1) (?v 3 l)) ?v,
      gds := counted 64 (gds w), recent := (None, None), pend_lgkm := [V 4]\<rparr>)"
    using assms by (simp add: gds_count_def busy_def hazard_def alu_writes_def dpp_reads_def dst_regs_def set_dst_def added)
  then show ?thesis
    by (intro exI conjI, assumption) (simp_all add: set_lanes_def lane_map_def counted_def)
qed

text \<open>The rows one after another fill the buffer.\<close>

lemma rows_fill:
  "fold (store_row (elem_addr 4 q) [0..<64] x) [0..<n] m = fill 4 enc_u32 q (\<lambda>j. x (j div 64) (j mod 64)) (64 * n) m"
proof (induction n)
  case (Suc n)
  let ?f = "\<lambda>j. store_bytes (elem_addr 4 q j) (enc_u32 (x (j div 64) (j mod 64)))"
  have "store_row (elem_addr 4 q) [0..<64] x n m' = fold ?f [64 * n..<64 * n + 64] m'" for m'
  proof -
    have "[64 * n..<64 * n + 64] = map (\<lambda>l. l + 64 * n) [0..<64]" by (simp only: map_add_upt) (simp only: add_0 add.commute)
    then show ?thesis
      by (simp only: store_row_def fold_map o_def) (intro fold_cong refl ext, simp add: elem_addr_def algebra_simps)
  qed
  moreover have "[0..<64 * Suc n] = [0..<64 * n] @ [64 * n..<64 * n + 64]"
    using upt_add_eq_append [of 0 "64 * n" 64] by (simp only: mult_Suc_right add.commute le0 simp_thms)
  ultimately show ?case using Suc by (simp add: fill_def del: upt_rec_numeral mult_Suc_right)
qed (simp add: fill_def)

text \<open>What the rows hold: the registers \<open>v2\<close>, \<open>v3\<close> and \<open>v4\<close> as floats, and what the registers of the others held before.\<close>

definition debug_row :: "alu \<Rightarrow> u32 \<Rightarrow> wave \<Rightarrow> nat \<Rightarrow> nat \<Rightarrow> u32" where
  "debug_row A reading undef k l =
     (if k = 0 then alu_cvt_f32_i32 A 1 else if k = 1 then alu_cvt_f32_i32 A 0
      else if k = 2 then alu_cvt_f32_i32 A reading else vreg undef (7 + k) l)"

definition debug_memory :: "alu \<Rightarrow> params \<Rightarrow> nat \<Rightarrow> addr \<Rightarrow> u32 \<Rightarrow> wave \<Rightarrow> memory \<Rightarrow> memory" where
  "debug_memory A ps n q reading undef m =
     (if p_enable_debug_output ps \<and> of_nat n = p_debug_wid ps
      then fill 4 enc_u32 q (\<lambda>j. debug_row A reading undef (j div 64) (j mod 64)) 1024 m else m)"

lemma gds_code_straight:
  "list_all straight (debug_setup ps @ gds_count @ fst (dump_fvgpr (gds_symbols ps) 2 3 0) @ dbg_store (gds_symbols ps))"
proof -
  have "list_all straight (rept_stores s k i)" for s k i by (induction k arbitrary: i) simp_all
  moreover have "list_all straight (fst (rept_rows k (\<lambda>i t. V_cvt_f32_i32 (b + t) (Vgpr (a + i))) i d))" for k b a i d
    by (induction k arbitrary: i d) (simp_all add: rept_rows_Suc del: rept_rows.simps(2))
  then have "list_all straight (fst (dump_fvgpr s a k d))" for s a k d
    by (simp add: dump_fvgpr_def dump_rows_def save_exec_def restore_exec_def Let_def split_beta)
  ultimately show ?thesis
    by (simp add: debug_setup_def gds_count_def dbg_store_def save_exec_def restore_exec_def Let_def del: rept_stores.simps)
qed

lemma run_gds_debug:
  assumes "p_enable_debug_output ps" and "n < 2 ^ 20"
  shows "\<exists>w. run_code A (debug_setup ps @ gds_count @ fst (dump_fvgpr (gds_symbols ps) 2 3 0) @ dbg_store (gds_symbols ps))
      (gds_wave n p m g t undef) = Some w \<and> gds w = counted 64 g \<and>
    gmem w = debug_memory A ps n (debug_buffer p m) (g (- 1) 0 + 64) undef m"
proof -
  let ?s = "gds_symbols ps"
  note s = gds_symbols_fields [OF assms(1)]
  obtain w1 where w1: "run_code A (debug_setup ps) (gds_wave n p m g t undef) = Some w1" "exec_mask w1 = mask 64" "pend_lgkm w1 = []"
      "pend_flat w1 = []" "gmem w1 = m" "gds w1 = g"
    and v1: "\<And>l. l < 64 \<Longrightarrow> vreg w1 23 l = of_nat n \<and> flat_addr (vreg w1) 5 l = elem_addr 4 (debug_buffer p m) l"
      "\<And>x. x \<notin> {0, 5, 6, 23} \<Longrightarrow> vreg w1 x = vreg undef x"
    using run_debug_setup [OF assms, of A p m g t undef] by blast
  obtain v2 r where w2: "run_code A gds_count w1 = Some (w1\<lparr>m0 := - 1, vreg := v2, gds := counted 64 g, recent := r, pend_lgkm := [V 4]\<rparr>)"
    and v2: "\<And>l. l < 64 \<Longrightarrow> v2 2 l = 1 \<and> v2 3 l = 0 \<and> v2 4 l = g (- 1) 0 + 64" "\<And>x. x \<notin> {2, 3, 4} \<Longrightarrow> v2 x = vreg w1 x"
    using run_gds_count [OF w1(2-4), of A] unfolding w1(6) by blast
  let ?w2 = "w1\<lparr>m0 := - 1, vreg := v2, gds := counted 64 g, recent := r, pend_lgkm := [V 4]\<rparr>"
  have dumped: "dumps A ?s 0 3 (\<lambda>k. alu_cvt_f32_i32 A \<circ> src_value (Vgpr (2 + k)) ?w2) ?w2 (dump_fvgpr ?s 2 3 0)"
    unfolding dump_fvgpr_def by (rule run_dump_rows) (auto simp: copies_def s kept_def no_row_def)
  obtain v3 where w3: "run_code A (fst (dump_fvgpr ?s 2 3 0)) ?w2 = Some (saved ?s ?w2\<lparr>exec_mask := exec_mask ?w2, vreg := v3\<rparr>)"
    and v3: "\<And>k l. k < 3 \<Longrightarrow> l < 64 \<Longrightarrow> v3 (7 + k) l = alu_cvt_f32_i32 A (v2 (2 + k) l)" "\<And>x. x \<notin> {7, 8, 9} \<Longrightarrow> v3 x = v2 x"
  proof -
    have "row ?s 0 k = 7 + k" if "k < 3" for k using that by (simp add: row_def s)
    moreover from this have "row ?s 0 ` {..<3} = {7, 8, 9}" by (auto simp: lessThan_nat_numeral lessThan_Suc)
    ultimately show ?thesis using that dumped by (auto simp: dumps_def)
  qed
  let ?w3 = "saved ?s ?w2\<lparr>exec_mask := exec_mask ?w2, vreg := v3\<rparr>"
  obtain v c where w4: "run_code A (dbg_store ?s) ?w3 = Some (saved ?s ?w3\<lparr>exec_mask := exec_mask ?w3, vreg := v, vcc := c, gmem := stored ?s ?w3\<rparr>)"
    using run_dbg_store [of ?s A ?w3] by (auto simp: s)
  have stored: "stored ?s ?w3 = debug_memory A ps n (debug_buffer p m) (g (- 1) 0 + 64) undef m"
  proof -
    have lane: "v3 23 l = of_nat n" "flat_addr v3 5 l = elem_addr 4 (debug_buffer p m) l" if "l < 64" for l
      using v1(1) [OF that] v2(2) v3(2) by (simp_all add: flat_addr_def)
    have held: "v3 (7 + k) l = debug_row A (g (- 1) 0 + 64) undef k l" if "k < 16" "l < 64" for k l
    proof (cases "k < 3")
      case True
      then consider "k = 0" | "k = 1" | "k = 2" by linarith
      then show ?thesis using v3(1) [of k l] v2(1) [OF that(2)] that(2) by cases (simp_all add: debug_row_def eval_nat_numeral)
    next
      case False
      then show ?thesis using that v3(2) [of "7 + k"] v2(2) [of "7 + k"] v1(2) [of "7 + k"] by (auto simp: debug_row_def)
    qed
    have "stored ?s ?w3 = fold (store_row (flat_addr v3 5) (if of_nat n = p_debug_wid ps then [0..<64] else []) (\<lambda>k. v3 (7 + k))) [0..<16] m"
    proof -
      have "filter (\<lambda>l. v3 23 l = p_debug_wid ps) [0..<64] = (if of_nat n = p_debug_wid ps then [0..<64] else [])"
        using lane(1) by (simp add: filter_empty_conv del: upt_rec_numeral)
      then show ?thesis by (simp add: stored_def s saved_def w1(5) del: upt_rec_numeral)
    qed
    also have "\<dots> = debug_memory A ps n (debug_buffer p m) (g (- 1) 0 + 64) undef m"
    proof (cases "of_nat n = p_debug_wid ps")
      case True
      have "fold (store_row (flat_addr v3 5) [0..<64] (\<lambda>k. v3 (7 + k))) [0..<16] m =
          fold (store_row (elem_addr 4 (debug_buffer p m)) [0..<64] (debug_row A (g (- 1) 0 + 64) undef)) [0..<16] m"
        by (intro fold_cong refl ext store_row_cong) (simp_all add: lane(2) held del: upt_rec_numeral)
      with True show ?thesis using assms(1) by (simp add: rows_fill debug_memory_def del: upt_rec_numeral)
    next
      case False
      have "fold (store_row q [] x) ks m = m" for q x ks by (induction ks) (simp_all add: store_row_def)
      with False show ?thesis by (simp add: debug_memory_def del: upt_rec_numeral)
    qed
    finally show ?thesis .
  qed
  let ?w4 = "saved ?s ?w3\<lparr>exec_mask := exec_mask ?w3, vreg := v, vcc := c, gmem := stored ?s ?w3\<rparr>"
  have "run_code A (debug_setup ps @ gds_count @ fst (dump_fvgpr ?s 2 3 0) @ dbg_store ?s) (gds_wave n p m g t undef) = Some ?w4"
    by (simp only: run_code_append w1(1) bind.bind_lunit w2 w3 w4)
  moreover have "gds ?w4 = counted 64 g" by (simp add: saved_def)
  moreover have "gmem ?w4 = debug_memory A ps n (debug_buffer p m) (g (- 1) 0 + 64) undef m"
    unfolding stored by simp
  ultimately show ?thesis by blast
qed

lemma run_gds_test:
  assumes "n < 2 ^ 20"
  shows "\<exists>w. run_wave A (gds_test_program ps) (gds_wave n p m g t undef) = Some w \<and> gds w = counted 64 g \<and>
    gmem w = debug_memory A ps n (debug_buffer p m) (g (- 1) 0 + 64) undef m"
proof -
  let ?code = "debug_setup ps @ gds_count @ fst (dump_fvgpr (gds_symbols ps) 2 3 0) @ dbg_store (gds_symbols ps)"
  have "\<exists>w. run_code A ?code (gds_wave n p m g t undef) = Some w \<and> gds w = counted 64 g \<and>
      gmem w = debug_memory A ps n (debug_buffer p m) (g (- 1) 0 + 64) undef m"
  proof (cases "p_enable_debug_output ps")
    case True
    then show ?thesis using run_gds_debug [OF _ assms] by blast
  next
    case False
    then have "?code = gds_count" "debug_memory A ps n q c undef m = m" for q c
      using gds_symbols_off [OF False] by (simp_all add: debug_setup_def dump_fvgpr_def dump_rows_def dbg_store_def debug_memory_def)
    moreover have "exec_mask (gds_wave n p m g t undef) = mask 64" "pend_lgkm (gds_wave n p m g t undef) = []"
        "pend_flat (gds_wave n p m g t undef) = []" "gds (gds_wave n p m g t undef) = g" "gmem (gds_wave n p m g t undef) = m"
      by (simp_all add: gds_wave_def wave_start_def)
    ultimately show ?thesis using run_gds_count [of "gds_wave n p m g t undef" A] by auto
  qed
  then obtain w where w: "run_code A ?code (gds_wave n p m g t undef) = Some w" "gds w = counted 64 g"
      "gmem w = debug_memory A ps n (debug_buffer p m) (g (- 1) 0 + 64) undef m"
    by blast
  have "pc (gds_wave n p m g t undef) = 0" by (simp add: gds_wave_def wave_start_def)
  from run_wave_code [OF gds_code_straight this w(1)] w(2,3) show ?thesis by (simp add: gds_test_program_def)
qed

section \<open>A workgroup\<close>

text \<open>The wavefronts of a workgroup one after another, in any order.\<close>

fun gds_group :: "alu \<Rightarrow> params \<Rightarrow> addr \<Rightarrow> (nat \<Rightarrow> wave) \<Rightarrow> nat list \<Rightarrow> memory \<times> (u32 \<Rightarrow> u32 \<Rightarrow> u32) \<Rightarrow>
    (memory \<times> (u32 \<Rightarrow> u32 \<Rightarrow> u32)) option" where
  "gds_group A ps p undef [] s = Some s"
| "gds_group A ps p undef (n # ns) (m, g) =
     (case run_wave A (gds_test_program ps) (gds_wave n p m g 0 (undef n)) of
        None \<Rightarrow> None | Some w \<Rightarrow> gds_group A ps p undef ns (gmem w, gds w))"

definition selected :: "params \<Rightarrow> nat \<Rightarrow> bool" where
  "selected ps n \<longleftrightarrow> p_enable_debug_output ps \<and> of_nat n = p_debug_wid ps"

lemma selected_unique: "selected ps n \<Longrightarrow> selected ps k \<Longrightarrow> n < 2 ^ 20 \<Longrightarrow> k < 2 ^ 20 \<Longrightarrow> n = k"
proof -
  assume s: "selected ps n" "selected ps k" "n < 2 ^ 20" "k < 2 ^ 20"
  then have "(of_nat n :: u32) = of_nat k" by (simp add: selected_def)
  then have "unat (of_nat n :: u32) = unat (of_nat k :: u32)" by (rule arg_cong)
  moreover have "unat (of_nat n :: u32) = n" "unat (of_nat k :: u32) = k" using s(3,4) by (auto intro!: unat_of_nat_lt)
  ultimately show ?thesis by (simp only:)
qed

lemma gds_group_step:
  assumes "n < 2 ^ 20"
  shows "gds_group A ps p undef (n # ns) (m, g) = gds_group A ps p undef ns
    (if selected ps n then fill 4 enc_u32 (debug_buffer p m) (\<lambda>j. debug_row A (g (- 1) 0 + 64) (undef n) (j div 64) (j mod 64)) 1024 m
     else m, counted 64 g)"
  using run_gds_test [OF assms, of A ps p m g 0 "undef n"] by (auto simp: debug_memory_def selected_def)

lemma gds_group_others:
  "(\<And>n. n \<in> set ns \<Longrightarrow> n < 2 ^ 20 \<and> \<not> selected ps n) \<Longrightarrow> gds_group A ps p undef ns (m, g) = Some (m, counted (64 * length ns) g)"
proof (induction ns arbitrary: g)
  case (Cons n ns)
  then have "n < 2 ^ 20" "\<not> selected ps n" by simp_all
  with Cons show ?case unfolding gds_group_step [OF \<open>n < 2 ^ 20\<close>] by (simp add: counted_counted)
qed (simp add: counted_0)

lemma gds_group_selected:
  "distinct ns \<Longrightarrow> (\<And>n. n \<in> set ns \<Longrightarrow> n < 2 ^ 20) \<Longrightarrow> i < length ns \<Longrightarrow> selected ps (ns ! i) \<Longrightarrow>
    gds_group A ps p undef ns (m, g) = Some (fill 4 enc_u32 (debug_buffer p m)
      (\<lambda>j. debug_row A (g (- 1) 0 + of_nat (64 * (i + 1))) (undef (ns ! i)) (j div 64) (j mod 64)) 1024 m, counted (64 * length ns) g)"
proof (induction ns arbitrary: g i)
  case (Cons n ns)
  have n: "n < 2 ^ 20" using Cons.prems(2) by simp
  show ?case
  proof (cases i)
    case 0
    have "k < 2 ^ 20 \<and> \<not> selected ps k" if "k \<in> set ns" for k
      using Cons.prems that 0 selected_unique [of ps n k] n by auto
    from gds_group_others [OF this] show ?thesis
      unfolding gds_group_step [OF n] using Cons.prems(4) 0 by (simp add: counted_counted)
  next
    case (Suc k)
    have "ns ! k \<in> set ns" using Cons.prems(3) Suc by simp
    then have "\<not> selected ps n" using Cons.prems(1,2,4) Suc selected_unique [of ps n "ns ! k"] n by auto
    moreover have reading: "counted 64 g (- 1) 0 + of_nat (64 * (k + 1)) = g (- 1) 0 + of_nat (64 * (i + 1))"
      by (simp add: counted_def Suc)
    moreover have "distinct ns" "\<And>n. n \<in> set ns \<Longrightarrow> n < 2 ^ 20" "k < length ns" "selected ps (ns ! k)"
      using Cons.prems Suc by auto
    note Cons.IH [OF this, of "counted 64 g", unfolded reading counted_counted]
    ultimately show ?thesis
      unfolding gds_group_step [OF n] using Suc by (simp del: of_nat_mult of_nat_add upt_rec_numeral)
  qed
qed simp

section \<open>The registers it uses\<close>

definition within :: "instr \<Rightarrow> bool" where
  "within i \<longleftrightarrow> list_all (\<lambda>r. case r of S x \<Rightarrow> x < 80 | V x \<Rightarrow> x < 24) (operands i)"

lemma within_rept_stores: "dbg_ptr s + 1 < 24 \<Longrightarrow> dbg s + i + n \<le> 24 \<Longrightarrow> list_all within (rept_stores s n i)"
  by (induction n arbitrary: i) (simp_all add: within_def)

lemma within_rept_rows:
  "(\<And>i t. i < b \<Longrightarrow> t < 16 \<Longrightarrow> within (body i t)) \<Longrightarrow> d < 16 \<Longrightarrow> i + n \<le> b \<Longrightarrow> list_all within (fst (rept_rows n body i d))"
  by (induction n arbitrary: i d) (simp_all add: rept_rows_Suc del: rept_rows.simps(2))

lemma gds_program_within: "list_all within (gds_test_program ps)"
proof -
  have count: "list_all within gds_count" "within S_endpgm" by (simp_all add: gds_count_def within_def dst_regs_def)
  show ?thesis
  proof (cases "p_enable_debug_output ps")
    case True
    note s = gds_symbols_fields [OF True]
    have save: "list_all within (save_exec (gds_symbols ps))" "list_all within (restore_exec (gds_symbols ps))"
      by (simp_all add: save_exec_def restore_exec_def within_def dst_regs_def s)
    have "list_all within (debug_setup ps)"
      by (simp add: debug_setup_def s Let_def within_def dst_regs_def kernarg_sgpr_def gid_x_def gid_y_def gid_z_def)
    moreover have "list_all within (fst (dump_fvgpr (gds_symbols ps) 2 3 0))"
      using save within_rept_rows [of 3 "\<lambda>i t. V_cvt_f32_i32 (dbg (gds_symbols ps) + t) (Vgpr (2 + i))" 0 0 3]
      by (simp add: dump_fvgpr_def dump_rows_def Let_def split_beta within_def s)
    moreover have "list_all within (dbg_store (gds_symbols ps))"
      using save within_rept_stores [of "gds_symbols ps" 0 16] by (simp add: dbg_store_def within_def s del: rept_stores.simps)
    ultimately show ?thesis using count by (simp add: gds_test_program_def)
  next
    case False
    then show ?thesis using count gds_symbols_off [OF False]
      by (simp add: gds_test_program_def debug_setup_def dump_fvgpr_def dump_rows_def dbg_store_def)
  qed
qed

section \<open>The claims\<close>

text \<open>
  C13. gds_test.s with its parameters: the wavefronts of a workgroup, in any order, each of 64 work-items, all run
  to their end, and the word at address 0 of the global data share has grown by the number of work-items. With debug output off, or on
  and the selected wavefront not among them, the memory is as before; otherwise its sixteen rows fill the debug buffer, and
  the third of them shows in every lane, as a float, the word as the wavefront left it.
\<close>

theorem gds_test_counts:
  assumes "distinct ns" and "\<forall>n\<in>set ns. n < 2 ^ 20"
  shows "\<exists>m'. gds_group A ps p undef ns (m, g) = Some (m', counted (64 * length ns) g) \<and>
    ((\<exists>n\<in>set ns. selected ps n) \<or> m' = m) \<and>
    (\<forall>i<length ns. selected ps (ns ! i) \<longrightarrow>
      (\<forall>k<16. \<forall>l<64. dec_u32 (load_bytes (elem_addr 4 (debug_buffer p m) (64 * k + l)) 4 m') =
        debug_row A (g (- 1) 0 + of_nat (64 * (i + 1))) (undef (ns ! i)) k l))"
proof (cases "\<exists>i<length ns. selected ps (ns ! i)")
  case True
  then obtain i where i: "i < length ns" "selected ps (ns ! i)" by blast
  have run: "gds_group A ps p undef ns (m, g) = Some (fill 4 enc_u32 (debug_buffer p m)
      (\<lambda>j. debug_row A (g (- 1) 0 + of_nat (64 * (i + 1))) (undef (ns ! i)) (j div 64) (j mod 64)) 1024 m, counted (64 * length ns) g)"
    using assms i by (intro gds_group_selected) auto
  have only: "j = i" if "j < length ns" "selected ps (ns ! j)" for j
    using selected_unique [OF that(2) i(2)] assms that(1) i(1) by (simp add: nth_eq_iff_index_eq)
  have shown: "dec_u32 (load_bytes (elem_addr 4 q (64 * k + l)) 4 (fill 4 enc_u32 q (\<lambda>j. f (j div 64) (j mod 64)) 1024 m)) = f k l"
    if "k < 16" "l < 64" for q k l and f :: "nat \<Rightarrow> nat \<Rightarrow> u32"
    using that u32_codec.load_fill [of "64 * k + l" 1024 q "\<lambda>j. f (j div 64) (j mod 64)" m] by (simp add: fill_def del: upt_rec_numeral)
  show ?thesis
  proof (intro exI conjI, rule run)
    show "(\<exists>n\<in>set ns. selected ps n) \<or> fill 4 enc_u32 (debug_buffer p m)
        (\<lambda>j. debug_row A (g (- 1) 0 + of_nat (64 * (i + 1))) (undef (ns ! i)) (j div 64) (j mod 64)) 1024 m = m"
      using i by auto
  qed (intro allI impI, drule (1) only, simp only: shown)
next
  case False
  then have "n < 2 ^ 20 \<and> \<not> selected ps n" if "n \<in> set ns" for n
    using that assms(2) by (auto simp: in_set_conv_nth)
  from gds_group_others [OF this] show ?thesis using False by auto
qed

definition sample_params :: params where
  "sample_params = \<lparr>p_enable_debug_output = True, p_debug_wid = 0, p_debug_gid_x = 0, p_debug_gid_y = 0, p_debug_gid_z = 0\<rparr>"

theorem gds_test_counts_witness:
  "\<exists>m'. gds_group ref_alu sample_params 0x1000 (\<lambda>n. blank_wave) [1, 0, 2] (\<lambda>_. 0, \<lambda>_ _. 0) = Some (m', counted 192 (\<lambda>_ _. 0)) \<and>
     (\<forall>l<64. dec_u32 (load_bytes (elem_addr 4 0 (128 + l)) 4 m') = f32_of_nat 128)"
proof -
  have buffer: "debug_buffer 0x1000 (\<lambda>_. 0) = 0" by (simp add: debug_buffer_def load_bytes_def dec_u64_def eval_nat_numeral)
  have third: "debug_row ref_alu (0 + of_nat (64 * (1 + 1))) blank_wave 2 l = f32_of_nat 128" for l
    by (simp add: debug_row_def ref_alu_def)
  have "distinct [1, 0, 2 :: nat]" "\<forall>n\<in>set [1, 0, 2 :: nat]. n < 2 ^ 20" by simp_all
  from gds_test_counts [OF this, of ref_alu sample_params "0x1000" "\<lambda>n. blank_wave" "\<lambda>_. 0" "\<lambda>_ _. 0"]
  obtain m' where m': "gds_group ref_alu sample_params 0x1000 (\<lambda>n. blank_wave) [1, 0, 2] (\<lambda>_. 0, \<lambda>_ _. 0) = Some (m', counted 192 (\<lambda>_ _. 0))"
    "\<And>i. i < 3 \<Longrightarrow> selected sample_params ([1, 0, 2] ! i) \<Longrightarrow> \<forall>k<16. \<forall>l<64. dec_u32 (load_bytes (elem_addr 4 0 (64 * k + l)) 4 m') =
      debug_row ref_alu (0 + of_nat (64 * (i + 1))) blank_wave k l"
    unfolding buffer by (auto simp del: gds_group.simps of_nat_mult of_nat_add)
  have "selected sample_params ([1, 0, 2] ! 1)" by (simp add: selected_def sample_params_def)
  note shown = m'(2) [OF _ this, rule_format, of 2, unfolded third]
  have "dec_u32 (load_bytes (elem_addr 4 0 (128 + l)) 4 m') = f32_of_nat 128" if "l < 64" for l
    using shown [of l] that by simp
  then show ?thesis using m'(1) by blast
qed

text \<open>
  The registers that gds_test.s declares by the allocation macros: assembly reports no error, and every scalar and
  vector register that an instruction of the kernel names, those of the debug macros included, is below the count
  in the header of the kernel.
\<close>

theorem gds_test_registers:
  "errors (gds_test_alloc (p_enable_debug_output ps)) = [] \<and>
   (\<forall>i\<in>set (gds_test_program ps). \<forall>r\<in>set (operands i).
      case r of S x \<Rightarrow> int x < auto_sgpr_count (gds_test_alloc (p_enable_debug_output ps))
      | V x \<Rightarrow> int x < auto_vgpr_count (gds_test_alloc (p_enable_debug_output ps)))"
proof -
  have "case r of S x \<Rightarrow> int x < 80 | V x \<Rightarrow> int x < 24" if "i \<in> set (gds_test_program ps)" "r \<in> set (operands i)" for i r
  proof -
    have "case r of S x \<Rightarrow> x < 80 | V x \<Rightarrow> x < 24" using gds_program_within [of ps] that by (simp add: list_all_iff within_def)
    then show ?thesis by (cases r) simp_all
  qed
  then show ?thesis unfolding gds_test_alloc_counts by simp
qed

end
