(* ===== verification/Gcn_Typing.thy ===== *)
theory Gcn_Typing
  imports Gds_Test S_Memrealtime_Kernel
begin

text \<open>
  A type system for programs of the machine: it assigns to each instruction the loads that may be under way
  and the registers that may just have been written when it is reached. A typed program never stops
  before its end, whatever the data and however time passes; that a program
  is typed is decided by one pass over its instructions.
\<close>

section \<open>Contexts\<close>

text \<open>The targets of the loads on the two counters, and the results of the last two instructions.\<close>

type_synonym ctx = "reg list \<times> reg list \<times> nat option \<times> nat option"

fun lgkm_targets :: "instr \<Rightarrow> reg list" where
  "lgkm_targets (S_load_dwordx2 d b off) = [S d, S (d + 1)]"
| "lgkm_targets (S_load_dwordx4 d b off) = [S d, S (d + 1), S (d + 2), S (d + 3)]"
| "lgkm_targets (S_memrealtime d) = [S d, S (d + 1)]"
| "lgkm_targets (Ds_bpermute_b32 d a b) = [V d]"
| "lgkm_targets (Ds_read_b32_gds d a) = [V d]"
| "lgkm_targets i = []"

fun flat_targets :: "instr \<Rightarrow> reg list" where
  "flat_targets (Flat_load_dword d a) = [V d]"
| "flat_targets (Flat_load_ushort d a) = [V d]"
| "flat_targets i = []"

fun next_ctx :: "instr \<Rightarrow> ctx \<Rightarrow> ctx" where
  "next_ctx (S_waitcnt vm lgkm) (l, f, r) =
     (if lgkm then [] else l, if vm \<and> lgkm then [] else f, None, fst r)"
| "next_ctx i (l, f, r) = (lgkm_targets i @ l, flat_targets i @ f, alu_writes i, fst r)"

text \<open>What an instruction needs of the context.\<close>

fun admits :: "ctx \<Rightarrow> instr \<Rightarrow> bool" where
  "admits (l, f, r1, r2) i \<longleftrightarrow>
     list_all (\<lambda>x. x \<notin> set l \<and> x \<notin> set f) (operands i) \<and>
     (case dpp_reads i of None \<Rightarrow> True | Some a \<Rightarrow> r1 \<noteq> Some a \<and> r2 \<noteq> Some a)"

text \<open>A context that allows for more.\<close>

fun below :: "ctx \<Rightarrow> ctx \<Rightarrow> bool" where
  "below (l, f, r1, r2) (l', f', r1', r2') \<longleftrightarrow>
     set l \<subseteq> set l' \<and> set f \<subseteq> set f' \<and> (r1 = None \<or> r1 = r1') \<and> (r2 = None \<or> r2 = r2')"

definition ctx_of :: "wave \<Rightarrow> ctx" where
  "ctx_of w = (pend_lgkm w, pend_flat w, recent w)"

lemma below_refl: "below c c"
  by (cases c) simp

lemma below_trans: "below c d \<Longrightarrow> below d e \<Longrightarrow> below c e"
  by (cases c; cases d; cases e) auto

lemma next_ctx_mono: "below c d \<Longrightarrow> below (next_ctx i c) (next_ctx i d)"
  by (cases c; cases d; cases i) auto

lemma admits_below: "below c d \<Longrightarrow> admits d i \<Longrightarrow> admits c i"
  by (cases c; cases d) (auto simp: list_all_iff split: option.splits)

section \<open>Typed programs\<close>

fun successors :: "instr \<Rightarrow> nat \<Rightarrow> nat list" where
  "successors (S_cbranch_scc1 t) n = [t, Suc n]"
| "successors i n = [Suc n]"

definition typed_at :: "instr list \<Rightarrow> ctx list \<Rightarrow> nat \<Rightarrow> bool" where
  "typed_at prog cs n \<longleftrightarrow>
     prog ! n = S_endpgm \<or>
     admits (cs ! n) (prog ! n) \<and>
     list_all (\<lambda>n'. n' < length prog \<and> below (next_ctx (prog ! n) (cs ! n)) (cs ! n')) (successors (prog ! n) n)"

text \<open>The contexts along the program text.\<close>

primrec flow :: "instr list \<Rightarrow> ctx \<Rightarrow> ctx list" where
  "flow [] c = []"
| "flow (i # is) c = c # flow is (next_ctx i c)"

definition typed :: "instr list \<Rightarrow> bool" where
  "typed prog \<longleftrightarrow> prog \<noteq> [] \<and>
     list_all (typed_at prog (flow prog ([], [], None, None))) [0..<length prog]"

definition follows :: "instr list \<Rightarrow> wave \<Rightarrow> bool" where
  "follows prog w \<longleftrightarrow> pc w < length prog \<and> below (ctx_of w) (flow prog ([], [], None, None) ! pc w)"

text \<open>A wavefront that is about to begin, with any lanes, registers and memory.\<close>

definition fresh :: "wave \<Rightarrow> bool" where
  "fresh w \<longleftrightarrow> pc w = 0 \<and> pend_lgkm w = [] \<and> pend_flat w = [] \<and> recent w = (None, None)"

lemma fresh_start: "fresh (wave_start lanes p m t undef)" "fresh (gds_wave n p m g t undef)"
  by (simp_all add: fresh_def gds_wave_def wave_start_def)

lemma follows_start: "typed prog \<Longrightarrow> fresh w \<Longrightarrow> follows prog w"
  by (cases prog) (simp_all add: typed_def follows_def fresh_def ctx_of_def)

text \<open>What the machine does to the context.\<close>

lemma effect_ctx:
  assumes "i \<noteq> S_endpgm"
  shows "ctx_of (effect A i (w\<lparr>pc := Suc (pc w), recent := (alu_writes i, fst (recent w))\<rparr>)) = next_ctx i (ctx_of w)"
    and "pc (effect A i (w\<lparr>pc := Suc (pc w), recent := (alu_writes i, fst (recent w))\<rparr>)) \<in> set (successors i (pc w))"
proof -
  show "ctx_of (effect A i (w\<lparr>pc := Suc (pc w), recent := (alu_writes i, fst (recent w))\<rparr>)) = next_ctx i (ctx_of w)"
    by (cases i) (simp_all add: ctx_of_def set_dst_def alu_writes_def split: dst.split)
  show "pc (effect A i (w\<lparr>pc := Suc (pc w), recent := (alu_writes i, fst (recent w))\<rparr>)) \<in> set (successors i (pc w))"
    using assms by (cases i) (simp_all add: set_dst_def split: dst.split)
qed

lemma admits_ready: "admits (ctx_of w) i \<longleftrightarrow> \<not> busy w (operands i) \<and> \<not> hazard w i"
  by (cases "recent w") (auto simp: ctx_of_def busy_def hazard_def list_all_iff list_ex_iff split: option.splits)

section \<open>Soundness\<close>

lemma progress:
  assumes "typed prog" and "follows prog w" and "\<not> halted prog w"
  shows "\<exists>w'. step A prog w = Some w'"
proof -
  have n: "pc w < length prog" "prog ! pc w \<noteq> S_endpgm" using assms(2,3) by (simp_all add: follows_def halted_def)
  then have "admits (flow prog ([], [], None, None) ! pc w) (prog ! pc w)"
    using assms(1) by (auto simp: typed_def list_all_iff typed_at_def)
  then have "admits (ctx_of w) (prog ! pc w)" using assms(2) admits_below unfolding follows_def by blast
  then show ?thesis using n by (simp add: admits_ready step_def Let_def)
qed

lemma preservation:
  assumes "typed prog" and "follows prog w" and "step A prog w = Some w'"
  shows "follows prog w'"
proof -
  let ?cs = "flow prog ([], [], None, None)" and ?i = "prog ! pc w"
  have n: "pc w < length prog" "?i \<noteq> S_endpgm" and w': "w' = effect A ?i (w\<lparr>pc := Suc (pc w), recent := (alu_writes ?i, fst (recent w))\<rparr>)"
    using assms(2,3) by (auto simp: follows_def step_def Let_def split: if_splits)
  note ctx = effect_ctx [OF n(2), of A w, folded w']
  have "typed_at prog ?cs (pc w)" using assms(1) n(1) by (simp add: typed_def list_all_iff)
  then have next_: "pc w' < length prog" "below (next_ctx ?i (?cs ! pc w)) (?cs ! pc w')"
    using n(2) ctx(2) by (auto simp: typed_at_def list_all_iff)
  have "below (next_ctx ?i (ctx_of w)) (next_ctx ?i (?cs ! pc w))"
    using assms(2) by (intro next_ctx_mono) (simp add: follows_def)
  from below_trans [OF this next_(2)] next_(1) show ?thesis by (simp add: follows_def ctx(1))
qed

lemma follows_reachable:
  assumes "(wave_step A prog)\<^sup>*\<^sup>* w w'" and "typed prog" and "follows prog w"
  shows "follows prog w'"
  using assms
proof (induction rule: rtranclp_induct)
  case (step v v')
  from step.hyps(2) obtain u d where "step A prog v = Some u" "v' = u\<lparr>rtc := rtc u + d\<rparr>" by (auto elim: wave_stepE)
  with preservation [OF step.prems(1) step.IH [OF step.prems]] show ?case by (simp add: follows_def ctx_of_def)
qed

lemma type_sound:
  assumes "typed prog" and "fresh w" and "(wave_step A prog)\<^sup>*\<^sup>* w w'" and "\<not> halted prog w'"
  shows "\<exists>w''. step A prog w' = Some w''"
  using progress [OF assms(1) follows_reachable [OF assms(3,1) follows_start [OF assms(1,2)]] assms(4)] .

section \<open>Straight programs\<close>

text \<open>For code without branches one pass from the first context decides.\<close>

primrec admitted :: "ctx \<Rightarrow> instr list \<Rightarrow> bool" where
  "admitted c [] \<longleftrightarrow> True"
| "admitted c (i # is) \<longleftrightarrow> admits c i \<and> admitted (next_ctx i c) is"

lemma admitted_append: "admitted c (is @ js) \<longleftrightarrow> admitted c is \<and> admitted (fold next_ctx is c) js"
  by (induction "is" arbitrary: c) simp_all

lemma length_flow [simp]: "length (flow is c) = length is"
  by (induction "is" arbitrary: c) simp_all

lemma flow_nth: "n < length is \<Longrightarrow> flow is c ! n = fold next_ctx (take n is) c"
proof (induction "is" arbitrary: c n)
  case (Cons i "is")
  then show ?case by (cases n) simp_all
qed simp

lemma admitted_nth: "admitted c is \<Longrightarrow> n < length is \<Longrightarrow> admits (fold next_ctx (take n is) c) (is ! n)"
proof (induction "is" arbitrary: c n)
  case (Cons i "is")
  then show ?case by (cases n) simp_all
qed simp

lemma straight_successors: "straight i \<Longrightarrow> successors i n = [Suc n]"
  by (cases i) simp_all

lemma typed_straight:
  assumes "list_all straight is" and "admitted ([], [], None, None) is"
  shows "typed (is @ [S_endpgm])"
proof -
  let ?c = "([], [], None, None) :: ctx"
  have "typed_at (is @ [S_endpgm]) (flow (is @ [S_endpgm]) ?c) n" if "n < length (is @ [S_endpgm])" for n
  proof (cases "n = length is")
    case False
    then have n: "n < length is" using that by simp
    have "straight (is ! n)" using assms(1) n by (simp add: list_all_length)
    then show ?thesis
      using n admitted_nth [OF assms(2) n]
      by (simp add: typed_at_def nth_append flow_nth straight_successors take_Suc_conv_app_nth below_refl)
  qed (simp add: typed_at_def)
  then show ?thesis by (simp add: typed_def list_all_iff)
qed

section \<open>The kernels\<close>

definition kernel_programs :: "params \<Rightarrow> instr list list" where
  "kernel_programs ps = [asm_kernel_program, ds_bpermute_program, dpp_reduce_program, fp16_storage_program,
     fp16_native_program, s_memrealtime_program, gds_test_program ps]"

text \<open>Instructions that only need the loads before them to be complete.\<close>

definition calm :: "instr \<Rightarrow> bool" where
  "calm i \<longleftrightarrow> lgkm_targets i = [] \<and> flat_targets i = [] \<and> dpp_reads i = None"

lemma calm_next: "calm i \<Longrightarrow> \<exists>a' b'. next_ctx i ([], [], a, b) = ([], [], a', b')"
  by (cases i) (simp_all add: calm_def)

lemma admitted_calm:
  "(\<And>a b. admitted ([], [], a, b) js) \<Longrightarrow> list_all calm is \<Longrightarrow> admitted ([], [], a, b) (is @ js)"
proof (induction "is" arbitrary: a b)
  case (Cons i "is")
  obtain a' b' where "next_ctx i ([], [], a, b) = ([], [], a', b')" using calm_next Cons.prems(2) by fastforce
  then show ?case using Cons by (simp add: calm_def list_all_iff)
qed simp

lemma gds_test_typed: "typed (gds_test_program ps)"
proof -
  let ?s = "gds_symbols ps"
  let ?output = "fst (dump_fvgpr ?s 2 3 0) @ dbg_store ?s"
  have "list_all calm (rept_stores s k i)" for s k i
    by (induction k arbitrary: i) (simp_all add: calm_def dpp_reads_def)
  moreover have "list_all calm (fst (rept_rows k (\<lambda>i t. V_cvt_f32_i32 (b + t) (Vgpr (a + i))) i d))" for k b a i d
    by (induction k arbitrary: i d) (simp_all add: rept_rows_Suc calm_def dpp_reads_def del: rept_rows.simps(2))
  moreover have "list_all calm (save_exec s)" "list_all calm (restore_exec s)" for s
    by (simp_all add: save_exec_def restore_exec_def calm_def dpp_reads_def)
  moreover from calculation have "list_all calm (fst (dump_fvgpr s a k d))" for s a k d
    by (simp add: dump_fvgpr_def dump_rows_def Let_def split_beta)
  ultimately have calm: "list_all calm ?output"
    by (simp add: dbg_store_def calm_def dpp_reads_def del: rept_stores.simps)
  have dumped: "admitted ([V 4], [], a, b) ?output" for a b
  proof (cases "p_enable_debug_output ps")
    case True
    then obtain "is" where "?output = S_waitcnt True True # is"
      by (simp add: dump_fvgpr_def dump_rows_def save_exec_def gds_symbols_fields(1) Let_def split_beta)
    with calm admitted_calm [of "[]" "is" None a] show ?thesis by (simp add: dpp_reads_def)
  next
    case False
    then show ?thesis by (simp add: dump_fvgpr_def dump_rows_def dbg_store_def gds_symbols_off)
  qed
  have count: "admitted ([], [], a, b) (gds_count @ ?output)" for a b
    by (simp add: gds_count_def dumped dpp_reads_def dst_regs_def del: append_assoc)
  have "admitted ([], [], None, None) (debug_setup ps @ gds_count @ ?output)"
  proof (cases "p_enable_debug_output ps")
    case True
    then obtain "is" where "debug_setup ps = S_load_dwordx2 6 0 0x38 # V_lshrrev_b32 23 6 0 # S_waitcnt True True # is" "list_all calm is"
      by (simp add: debug_setup_def gds_symbols_fields kernarg_sgpr_def dbg_ptr_off_def Let_def calm_def dpp_reads_def)
    then show ?thesis using admitted_calm [OF count, of "is"] by (simp add: dpp_reads_def del: append_assoc)
  next
    case False
    then show ?thesis using count by (simp add: debug_setup_def del: append_assoc)
  qed
  from typed_straight [OF gds_code_straight this] show ?thesis by (simp add: gds_test_program_def)
qed

lemma kernels_typed: "list_all typed (kernel_programs ps)"
  by (simp add: kernel_programs_def gds_test_typed)
    (simp add: typed_def typed_at_def asm_kernel_program_def ds_bpermute_program_def dpp_reduce_program_def alu_writes_def
      dpp_reads_def dst_regs_def fp16_storage_program_def fp16_native_program_def s_memrealtime_program_def upt_rec)

text \<open>
  C12. The kernels of the examples, gds_test.s with any parameters included: each is typed, so no wavefront
  of any size gets stuck in it. Whatever the arguments, the memory and the registers hold, whatever the floating point arithmetic is and however
  time passes, a wavefront in any state that it reaches is at the end of its kernel or executes the next
  instruction: no register is touched while a load to it is under way, no data parallel primitive comes too early,
  and no branch leaves the program.
\<close>

theorem kernels_never_stuck:
  assumes "prog \<in> set (kernel_programs ps)" and "fresh w" and "(wave_step A prog)\<^sup>*\<^sup>* w w'"
  shows "typed prog \<and> (halted prog w' \<or> (\<exists>w''. wave_step A prog w' w''))"
proof -
  have "typed prog" using assms(1) kernels_typed by (simp add: list_all_iff)
  then show ?thesis using type_sound [OF _ assms(2,3)] wave_step.intros by blast
qed

theorem kernels_never_stuck_witness:
  "\<exists>w. (wave_step ref_alu dpp_reduce_program)\<^sup>*\<^sup>* (wave_start 64 0 (\<lambda>_. 0) 0 blank_wave) w \<and> pc w = 11 \<and>
     (\<exists>w'. wave_step ref_alu dpp_reduce_program w w')"
proof -
  obtain w where w: "steps ref_alu dpp_reduce_program 11 (wave_start 64 0 (\<lambda>_. 0) 0 blank_wave) = Some w" "pc w = 11"
    using dpp_reduce_loads [of ref_alu 0 "\<lambda>_. 0" 0 blank_wave] by blast
  have reach: "(wave_step ref_alu dpp_reduce_program)\<^sup>*\<^sup>* (wave_start 64 0 (\<lambda>_. 0) 0 blank_wave) w"
    using steps_wave_steps [OF w(1)] by (rule relpowp_imp_rtranclp)
  have "dpp_reduce_program \<in> set (kernel_programs sample_params)" by (simp add: kernel_programs_def)
  moreover have "\<not> halted dpp_reduce_program w" using w(2) by (simp add: halted_def dpp_reduce_program_def)
  ultimately show ?thesis using reach kernels_never_stuck [OF _ fresh_start(1) reach, of sample_params] w(2) by blast
qed

end
