(* ===== verification/Gds_Interleaving.thy ===== *)
theory Gds_Interleaving
  imports Gcn_Typing
begin

text \<open>
  The wavefronts of a workgroup at the same time: they share the memory and the global data share, and take turns
  in any order, one instruction each. What this order cannot change for gds_test.s: no wavefront gets stuck, all of
  them end, and no addition is lost.
\<close>

section \<open>A group of wavefronts\<close>

record group =
  waves :: "wave list"
  g_mem :: memory
  g_gds :: "u32 \<Rightarrow> u32 \<Rightarrow> u32"

text \<open>A wavefront whose turn it is sees what the others have left in the memory and in the share.\<close>

definition focus :: "group \<Rightarrow> nat \<Rightarrow> wave" where
  "focus s i = (waves s ! i)\<lparr>gmem := g_mem s, gds := g_gds s\<rparr>"

inductive group_step :: "alu \<Rightarrow> instr list \<Rightarrow> group \<Rightarrow> group \<Rightarrow> bool" for A prog where
  turn: "i < length (waves s) \<Longrightarrow> step A prog (focus s i) = Some w \<Longrightarrow>
    group_step A prog s (s\<lparr>waves := (waves s)[i := w], g_mem := gmem w, g_gds := gds w\<rparr>)"

inductive_cases group_stepE: "group_step A prog s s'"

definition all_halted :: "instr list \<Rightarrow> group \<Rightarrow> bool" where
  "all_halted prog s \<longleftrightarrow> list_all (halted prog) (waves s)"

definition progress_sum :: "group \<Rightarrow> nat" where
  "progress_sum s = sum_list (map pc (waves s))"

lemma sum_list_update: "i < length xs \<Longrightarrow> f x = Suc (f (xs ! i)) \<Longrightarrow> sum_list (map f (xs[i := x])) = Suc (sum_list (map f xs))"
  for f :: "'a \<Rightarrow> nat"
  by (induction xs arbitrary: i) (auto split: nat.split)

lemma sum_list_update_same: "i < length xs \<Longrightarrow> f x = f (xs ! i) \<Longrightarrow> sum_list (map f (xs[i := x])) = sum_list (map f xs)"
  for f :: "'a \<Rightarrow> nat"
  by (induction xs arbitrary: i) (auto split: nat.split)

lemma sum_list_bound: "\<forall>x\<in>set xs. f x \<le> b \<Longrightarrow> sum_list (map f xs) \<le> length xs * b"
  for f :: "'a \<Rightarrow> nat"
  by (induction xs) auto

section \<open>Kernels without branches\<close>

text \<open>What is promised of a typed kernel without branches, whatever it does to the memory and the share.\<close>

locale straight_kernel =
  fixes code :: "instr list"
  assumes straight_code: "list_all straight code"
    and typed_code: "typed (code @ [S_endpgm])"
begin

lemma step_straight:
  assumes "step A (code @ [S_endpgm]) w = Some w'"
  shows "pc w < length code" and "w' = effect A (code ! pc w) (w\<lparr>pc := Suc (pc w), recent := (alu_writes (code ! pc w), fst (recent w))\<rparr>)"
    and "pc w' = Suc (pc w)"
proof -
  have "pc w < Suc (length code)" "(code @ [S_endpgm]) ! pc w \<noteq> S_endpgm" using assms by (auto simp: step_def Let_def split: if_splits)
  then show n: "pc w < length code" by (cases "pc w = length code") auto
  then show w': "w' = effect A (code ! pc w) (w\<lparr>pc := Suc (pc w), recent := (alu_writes (code ! pc w), fst (recent w))\<rparr>)"
    using assms by (auto simp: step_def Let_def nth_append split: if_splits)
  have "straight (code ! pc w)" using straight_code n by (simp add: list_all_length)
  moreover from this have "code ! pc w \<noteq> S_endpgm" by auto
  ultimately show "pc w' = Suc (pc w)" using effect_ctx(2) [of "code ! pc w" A w] unfolding w' by (simp add: straight_successors)
qed

definition all_follow :: "group \<Rightarrow> bool" where
  "all_follow s \<longleftrightarrow> (\<forall>i<length (waves s). follows (code @ [S_endpgm]) (waves s ! i))"

lemma follows_focus: "follows prog (focus s i) \<longleftrightarrow> follows prog (waves s ! i)"
  by (simp add: follows_def focus_def ctx_of_def)

lemma all_follow_step:
  assumes "group_step A (code @ [S_endpgm]) s s'" and "all_follow s"
  shows "all_follow s'" and "progress_sum s' = Suc (progress_sum s)" and "length (waves s') = length (waves s)"
proof -
  obtain i w where i: "i < length (waves s)" and w: "step A (code @ [S_endpgm]) (focus s i) = Some w"
    and s': "s' = s\<lparr>waves := (waves s)[i := w], g_mem := gmem w, g_gds := gds w\<rparr>"
    using assms(1) by (rule group_stepE) blast
  have "follows (code @ [S_endpgm]) w"
    using preservation [OF typed_code _ w] assms(2) i by (simp add: all_follow_def follows_focus)
  then show "all_follow s'" using assms(2) i by (auto simp: s' all_follow_def nth_list_update)
  have "pc w = Suc (pc (waves s ! i))" using step_straight(3) [OF w] by (simp add: focus_def)
  then show "progress_sum s' = Suc (progress_sum s)" using i by (simp add: s' progress_sum_def sum_list_update)
  show "length (waves s') = length (waves s)" by (simp add: s')
qed

lemma all_follow_steps:
  "(group_step A (code @ [S_endpgm]) ^^ k) s s' \<Longrightarrow> all_follow s \<Longrightarrow>
    all_follow s' \<and> progress_sum s' = progress_sum s + k \<and> length (waves s') = length (waves s)"
proof (induction k arbitrary: s')
  case (Suc k)
  then obtain u where u: "(group_step A (code @ [S_endpgm]) ^^ k) s u" "group_step A (code @ [S_endpgm]) u s'" by auto
  from Suc.IH [OF u(1) Suc.prems(2)] all_follow_step [OF u(2)] show ?case by simp
qed simp

text \<open>Some wavefront can take its turn unless all are at their end, which happens after a bounded number of turns.\<close>

lemma group_progress:
  assumes "all_follow s"
  shows "all_halted (code @ [S_endpgm]) s \<or> (\<exists>s'. group_step A (code @ [S_endpgm]) s s')"
proof (rule disjCI)
  assume "\<nexists>s'. group_step A (code @ [S_endpgm]) s s'"
  then have stuck: "step A (code @ [S_endpgm]) (focus s i) = None" if "i < length (waves s)" for i
    using that turn by (metis option.exhaust)
  have "halted (code @ [S_endpgm]) (waves s ! i)" if i: "i < length (waves s)" for i
  proof -
    have "halted (code @ [S_endpgm]) (focus s i)"
      using progress [OF typed_code, of "focus s i" A] stuck [OF i] assms i by (auto simp: all_follow_def follows_focus)
    then show ?thesis by (simp add: halted_def focus_def)
  qed
  then show "all_halted (code @ [S_endpgm]) s" by (simp add: all_halted_def list_all_length)
qed

lemma progress_bound:
  assumes "all_follow s"
  shows "progress_sum s \<le> length (waves s) * length code"
proof -
  have "\<forall>w\<in>set (waves s). pc w \<le> length code"
    using assms by (auto simp: all_follow_def follows_def in_set_conv_nth less_Suc_eq_le)
  then show ?thesis unfolding progress_sum_def by (rule sum_list_bound)
qed

lemma halted_pc: "all_halted (code @ [S_endpgm]) s \<Longrightarrow> w \<in> set (waves s) \<Longrightarrow> pc w = length code"
proof -
  assume "all_halted (code @ [S_endpgm]) s" "w \<in> set (waves s)"
  then have "halted (code @ [S_endpgm]) w" by (simp add: all_halted_def list_all_iff)
  moreover have "code ! k \<noteq> S_endpgm" if "k < length code" for k
    using straight_code that by (auto simp: list_all_length)
  ultimately show ?thesis by (cases "pc w < length code") (auto simp: halted_def nth_append)
qed

lemma group_ends:
  assumes "all_follow s"
  shows "all_halted (code @ [S_endpgm]) s \<longleftrightarrow> progress_sum s = length (waves s) * length code"
proof
  assume "all_halted (code @ [S_endpgm]) s"
  then have "map pc (waves s) = map (\<lambda>_. length code) (waves s)" by (intro map_cong refl halted_pc)
  then show "progress_sum s = length (waves s) * length code" unfolding progress_sum_def by (simp only: sum_list_triv of_nat_id)
next
  assume full: "progress_sum s = length (waves s) * length code"
  show "all_halted (code @ [S_endpgm]) s"
  proof (rule ccontr)
    assume "\<not> all_halted (code @ [S_endpgm]) s"
    then obtain A s' where "group_step A (code @ [S_endpgm]) s s'" using group_progress [OF assms] by blast
    from all_follow_step [OF this assms] progress_bound [of s'] full show False by simp
  qed
qed

lemma group_completes:
  "all_follow s \<Longrightarrow> progress_sum s + k = length (waves s) * length code \<Longrightarrow> \<exists>s'. (group_step A (code @ [S_endpgm]) ^^ k) s s'"
proof (induction k arbitrary: s)
  case (Suc k)
  then have "\<not> all_halted (code @ [S_endpgm]) s" using group_ends [of s] by simp
  then obtain u where u: "group_step A (code @ [S_endpgm]) s u" using group_progress [OF Suc.prems(1)] by blast
  from Suc.IH [of u] all_follow_step [OF u Suc.prems(1)] Suc.prems(2)
  show ?case using relpowp_Suc_I2 [of "group_step A (code @ [S_endpgm])", OF u] by fastforce
qed simp

end

section \<open>The kernel gds_test.s\<close>

definition gds_code :: "params \<Rightarrow> instr list" where
  "gds_code ps = debug_setup ps @ gds_count @ fst (dump_fvgpr (gds_symbols ps) 2 3 0) @ dbg_store (gds_symbols ps)"

lemma gds_program: "gds_test_program ps = gds_code ps @ [S_endpgm]"
  by (simp add: gds_test_program_def gds_code_def)

interpretation gds: straight_kernel "gds_code ps" for ps
proof
  show "list_all straight (gds_code ps)" unfolding gds_code_def by (rule gds_code_straight)
  show "typed (gds_code ps @ [S_endpgm])" unfolding gds_program [symmetric] by (rule gds_test_typed)
qed

text \<open>The place of the addition.\<close>

definition add_at :: "params \<Rightarrow> nat" where
  "add_at ps = length (debug_setup ps) + 3"

lemma add_at_code: "add_at ps < length (gds_code ps)" "gds_code ps ! add_at ps = Ds_add_u32_gds 3 2"
  "take (add_at ps) (gds_code ps) = debug_setup ps @ take 3 gds_count"
  by (simp_all add: add_at_def gds_code_def gds_count_def nth_append)

text \<open>No other instruction changes the share.\<close>

fun adds :: "instr \<Rightarrow> bool" where
  "adds (Ds_add_u32_gds a b) = True"
| "adds i = False"

lemma effect_gds: "\<not> adds i \<Longrightarrow> gds (effect A i w) = gds w"
  by (cases i) (simp_all add: set_dst_def split: dst.split)

lemma one_addition:
  assumes "k < length (gds_code ps)" and "k \<noteq> add_at ps"
  shows "\<not> adds (gds_code ps ! k)"
proof -
  have "list_all (\<lambda>i. \<not> adds i) (debug_setup ps)" by (simp add: debug_setup_def Let_def)
  moreover have "list_all (\<lambda>i. \<not> adds i) (fst (rept_rows n (\<lambda>i t. V_cvt_f32_i32 (b + t) (Vgpr (a + i))) i d))" for n b a i d
    by (induction n arbitrary: i d) (simp_all add: rept_rows_Suc del: rept_rows.simps(2))
  then have "list_all (\<lambda>i. \<not> adds i) (fst (dump_fvgpr s a n d))" for s a n d
    by (simp add: dump_fvgpr_def dump_rows_def save_exec_def restore_exec_def Let_def split_beta)
  moreover have "list_all (\<lambda>i. \<not> adds i) (rept_stores s n i)" for s n i
    by (induction n arbitrary: i) simp_all
  then have "list_all (\<lambda>i. \<not> adds i) (dbg_store s)" for s
    by (simp add: dbg_store_def save_exec_def restore_exec_def del: rept_stores.simps)
  ultimately have "list_all (\<lambda>i. \<not> adds i) (take (add_at ps) (gds_code ps))" "list_all (\<lambda>i. \<not> adds i) (drop (Suc (add_at ps)) (gds_code ps))"
    by (simp_all add: add_at_def gds_code_def gds_count_def)
  then show ?thesis
    using assms by (cases "k < add_at ps") (auto simp: list_all_length dest: spec [of _ k] spec [of _ "k - Suc (add_at ps)"])
qed

section \<open>Up to the addition\<close>

text \<open>Instructions that read and write registers only, and what they see of a wavefront.\<close>

fun registers_only :: "instr \<Rightarrow> bool" where
  "registers_only (S_load_dwordx2 d b off) = False"
| "registers_only (S_load_dwordx4 d b off) = False"
| "registers_only (Flat_load_dword d a) = False"
| "registers_only (Flat_store_dword a b) = False"
| "registers_only (Flat_load_ushort d a) = False"
| "registers_only (Flat_store_short a b) = False"
| "registers_only (Ds_add_u32_gds a b) = False"
| "registers_only (Ds_read_b32_gds d a) = False"
| "registers_only i = True"

definition core :: "wave \<Rightarrow> wave" where
  "core w = w\<lparr>pc := 0, gmem := \<lambda>_. 0, gds := \<lambda>_ _. 0\<rparr>"

lemma core_fields:
  assumes "core u = core w"
  shows "exec_mask u = exec_mask w" "vreg u = vreg w" "sreg u = sreg w" "m0 u = m0 w" "pend_lgkm u = pend_lgkm w"
    "pend_flat u = pend_flat w" "recent u = recent w"
  using arg_cong [OF assms, of exec_mask] arg_cong [OF assms, of vreg] arg_cong [OF assms, of sreg] arg_cong [OF assms, of m0]
    arg_cong [OF assms, of pend_lgkm] arg_cong [OF assms, of pend_flat] arg_cong [OF assms, of recent]
  by (simp_all add: core_def)

lemma effect_registers_only: "registers_only i \<Longrightarrow> effect A i (w\<lparr>gmem := m, gds := g\<rparr>) = effect A i w\<lparr>gmem := m, gds := g\<rparr>"
proof -
  have "src_value x (w\<lparr>gmem := m, gds := g\<rparr>) = src_value x w" for x by (cases x) simp_all
  then show "registers_only i \<Longrightarrow> ?thesis" by (cases i) (simp_all add: set_dst_def split: dst.split)
qed

lemma core_effect:
  assumes "registers_only i" and "straight i"
  shows "core (effect A i w) = core (effect A i (core w))"
proof -
  have "effect A i (core w) = effect A i (w\<lparr>pc := 0\<rparr>)\<lparr>gmem := \<lambda>_. 0, gds := \<lambda>_ _. 0\<rparr>"
    unfolding core_def by (rule effect_registers_only [OF assms(1)])
  then show ?thesis by (simp add: effect_pc [OF assms(2)] core_def)
qed

lemma effect_load: "core (effect A (S_load_dwordx2 d b off) (w\<lparr>pc := k, gds := g\<rparr>)) = core (effect A (S_load_dwordx2 d b off) w)"
  by (simp add: core_def)

text \<open>
  Alone with some memory, a wavefront would be in the same state: the only thing it reads before the addition is its
  argument, by its first instruction.
\<close>

definition alone :: "alu \<Rightarrow> params \<Rightarrow> addr \<Rightarrow> nat \<Rightarrow> wave \<Rightarrow> wave \<Rightarrow> bool" where
  "alone A ps p n undef w \<longleftrightarrow> (\<exists>m u. run_code A (take (pc w) (gds_code ps)) (gds_wave n p m (\<lambda>_ _. 0) 0 undef) = Some u \<and> core u = core w)"

lemma before_addition:
  assumes "0 < k" and "k < add_at ps"
  shows "registers_only (gds_code ps ! k)"
proof -
  have "list_all registers_only (tl (debug_setup ps)) \<and> list_all registers_only (take 3 gds_count)"
    by (simp add: debug_setup_def Let_def gds_count_def)
  then have "list_all registers_only (tl (debug_setup ps @ take 3 gds_count))"
    by (cases "debug_setup ps") (simp_all add: gds_count_def)
  moreover have "gds_code ps ! k = (debug_setup ps @ take 3 gds_count) ! k"
    using assms(2) nth_take [of k "add_at ps" "gds_code ps"] by (simp add: add_at_code(3) del: nth_take)
  moreover have "length (debug_setup ps @ take 3 gds_count) = add_at ps" by (simp add: add_at_def gds_count_def)
  ultimately show ?thesis
    using assms by (cases "debug_setup ps @ take 3 gds_count"; cases k) (auto simp: list_all_length)
qed

lemma first_instruction: "gds_code ps ! 0 = (if p_enable_debug_output ps then S_load_dwordx2 6 0 0x38 else S_mov_b32 To_m0 (Literal (- 1)))"
  by (simp add: gds_code_def debug_setup_def gds_count_def kernarg_sgpr_def dbg_ptr_off_def Let_def)

lemma core_start: "core (gds_wave n p m g t undef) = core (gds_wave n p m' g' t undef)"
  by (simp add: gds_wave_def wave_start_def core_def)

lemma alone_start: "alone A ps p n undef (gds_wave n p m g 0 undef)"
proof -
  have "pc (gds_wave n p m g 0 undef) = 0" by (simp add: gds_wave_def wave_start_def)
  then show ?thesis unfolding alone_def using core_start [of n p m "\<lambda>_ _. 0" 0 undef m g] by auto
qed

lemma alone_focus: "alone A ps p n undef (w\<lparr>gmem := m, gds := g\<rparr>) \<longleftrightarrow> alone A ps p n undef w"
  by (simp add: alone_def core_def)

lemma alone_step:
  assumes "alone A ps p n undef w" and step: "step A (gds_test_program ps) w = Some w'" and "pc w < add_at ps"
  shows "alone A ps p n undef w'"
proof -
  let ?k = "pc w" and ?i = "gds_code ps ! pc w"
  note w' = gds.step_straight(2,3) [OF step [unfolded gds_program]]
  have k: "?k < length (gds_code ps)" using assms(3) add_at_code(1) [of ps] by simp
  have i: "straight ?i" using gds.straight_code [of ps] k by (simp add: list_all_length)
  have ready: "\<not> busy w (operands ?i)" "\<not> hazard w ?i"
    using step k by (auto simp: step_def gds_program nth_append Let_def split: if_splits)
  have take: "take (pc w') (gds_code ps) = take ?k (gds_code ps) @ [?i]" unfolding w'(2) by (rule take_Suc_conv_app_nth [OF k])
  \<comment> \<open>one more instruction alone\<close>
  have more: "alone A ps p n undef w'"
    if u: "run_code A (take ?k (gds_code ps)) (gds_wave n p m (\<lambda>_ _. 0) 0 undef) = Some u" "core u = core w"
      and e: "core (effect A ?i (u\<lparr>recent := (alu_writes ?i, fst (recent u))\<rparr>)) = core w'" for m u
  proof -
    have "\<not> busy u (operands ?i)" "\<not> hazard u ?i"
      using ready core_fields [OF u(2)] by (simp_all add: busy_def hazard_def)
    then have "run_code A (take (pc w') (gds_code ps)) (gds_wave n p m (\<lambda>_ _. 0) 0 undef) =
        Some (effect A ?i (u\<lparr>recent := (alu_writes ?i, fst (recent u))\<rparr>))"
      by (simp add: take run_code_append u(1))
    then show ?thesis using e unfolding alone_def by blast
  qed
  obtain m u where u: "run_code A (take ?k (gds_code ps)) (gds_wave n p m (\<lambda>_ _. 0) 0 undef) = Some u" "core u = core w"
    using assms(1) unfolding alone_def by blast
  note same = core_fields(7) [OF u(2)]
  show ?thesis
  proof (cases "registers_only ?i")
    case True
    have "core (v\<lparr>recent := r\<rparr>) = core v\<lparr>recent := r\<rparr>" "core (v\<lparr>pc := j, recent := r\<rparr>) = core v\<lparr>recent := r\<rparr>" for v r j
      by (simp_all add: core_def)
    then have "core (effect A ?i (u\<lparr>recent := (alu_writes ?i, fst (recent u))\<rparr>)) = core w'"
      unfolding w'(1) core_effect [OF True i, of A "u\<lparr>recent := _\<rparr>"] core_effect [OF True i, of A "w\<lparr>pc := _, recent := _\<rparr>"] same by (simp add: u(2))
    then show ?thesis by (rule more [OF u])
  next
    case False
    then have "?k = 0" using before_addition [of ?k ps] assms(3) by auto
    then have i0: "?i = S_load_dwordx2 6 0 0x38" using False first_instruction [of ps] by (auto split: if_splits)
    let ?u = "gds_wave n p (gmem w) (\<lambda>_ _. 0) 0 undef"
    have same_core: "core ?u = core w" using u core_start [of n p "gmem w" "\<lambda>_ _. 0" 0 undef m "\<lambda>_ _. 0"] \<open>?k = 0\<close> by simp
    moreover have "?u = core ?u\<lparr>gmem := gmem w\<rparr>" by (simp add: core_def gds_wave_def wave_start_def)
    ultimately have start: "?u = w\<lparr>pc := 0, gds := \<lambda>_ _. 0\<rparr>" by (simp add: core_def)
    show ?thesis
    proof (rule more)
      show "run_code A (take ?k (gds_code ps)) ?u = Some ?u" using \<open>?k = 0\<close> by simp
      show "core ?u = core w" by (rule same_core)
      show "core (effect A ?i (?u\<lparr>recent := (alu_writes ?i, fst (recent ?u))\<rparr>)) = core w'"
        unfolding w'(1) i0 by (subst start)+ (simp add: core_def)
    qed
  qed
qed

text \<open>At the addition every lane adds one to the same word.\<close>

lemma run_prefix:
  assumes "n < 2 ^ 20"
  shows "\<exists>u. run_code A (take (add_at ps) (gds_code ps)) (gds_wave n p m g 0 undef) = Some u \<and>
    exec_mask u = mask 64 \<and> m0 u = - 1 \<and> (\<forall>l<64. vreg u 2 l = 1 \<and> vreg u 3 l = 0)"
proof -
  have rest: "\<exists>u. run_code A (take 3 gds_count) w = Some u \<and> exec_mask u = mask 64 \<and> m0 u = - 1 \<and> (\<forall>l<64. vreg u 2 l = 1 \<and> vreg u 3 l = 0)"
    if "exec_mask w = mask 64" "pend_lgkm w = []" "pend_flat w = []" for w
    using that by (simp add: gds_count_def busy_def hazard_def alu_writes_def dpp_reads_def dst_regs_def set_dst_def set_lanes_def lane_map_def)
  have "\<exists>w. run_code A (debug_setup ps) (gds_wave n p m g 0 undef) = Some w \<and> exec_mask w = mask 64 \<and> pend_lgkm w = [] \<and> pend_flat w = []"
  proof (cases "p_enable_debug_output ps")
    case True
    then show ?thesis using run_debug_setup [OF True assms, of A p m g 0 undef] by blast
  qed (simp add: debug_setup_def gds_wave_def wave_start_def)
  then obtain w where w: "run_code A (debug_setup ps) (gds_wave n p m g 0 undef) = Some w"
    "exec_mask w = mask 64" "pend_lgkm w = []" "pend_flat w = []" by blast
  from rest [OF w(2-4)] show ?thesis by (simp only: add_at_code(3) run_code_append w(1) bind.bind_lunit)
qed

lemma alone_addition:
  assumes "alone A ps p n undef w" and "n < 2 ^ 20" and "step A (gds_test_program ps) w = Some w'" and "pc w = add_at ps"
  shows "gds w' = counted 64 (gds w)"
proof -
  obtain m u where u: "run_code A (take (add_at ps) (gds_code ps)) (gds_wave n p m (\<lambda>_ _. 0) 0 undef) = Some u" "core u = core w"
    using assms(1,4) unfolding alone_def by auto
  with run_prefix [OF assms(2), of A ps p m "\<lambda>_ _. 0" undef]
  have w: "exec_mask w = mask 64" "m0 w = - 1" "\<And>l. l < 64 \<Longrightarrow> vreg w 2 l = 1 \<and> vreg w 3 l = 0"
    unfolding core_fields [OF u(2), symmetric] by auto
  have "gds w' = gds_add (m0 w) (vreg w 3) (vreg w 2) (lanes_of (exec_mask w)) (gds w)"
    unfolding gds.step_straight(2) [OF assms(3) [unfolded gds_program]] assms(4) add_at_code(2) by simp
  also have "\<dots> = counted (length (lanes_of (mask 64))) (gds w)"
    unfolding w(1,2) by (rule gds_add_ones) (use w(3) in \<open>simp add: lanes_of_64 del: upt_rec_numeral\<close>)
  finally show ?thesis by (simp add: lanes_of_64 del: upt_rec_numeral)
qed

section \<open>The invariant of a group\<close>

definition gds_start :: "addr \<Rightarrow> memory \<Rightarrow> (u32 \<Rightarrow> u32 \<Rightarrow> u32) \<Rightarrow> (nat \<Rightarrow> wave) \<Rightarrow> nat list \<Rightarrow> group" where
  "gds_start p m g undef ns = \<lparr>waves = map (\<lambda>n. gds_wave n p m g 0 (undef n)) ns, g_mem = m, g_gds = g\<rparr>"

text \<open>The wavefronts that are past the addition.\<close>

definition added :: "params \<Rightarrow> group \<Rightarrow> nat" where
  "added ps s = sum_list (map (\<lambda>w. of_bool (add_at ps < pc w)) (waves s))"

definition counting :: "alu \<Rightarrow> params \<Rightarrow> addr \<Rightarrow> (u32 \<Rightarrow> u32 \<Rightarrow> u32) \<Rightarrow> (nat \<Rightarrow> wave) \<Rightarrow> nat list \<Rightarrow> group \<Rightarrow> bool" where
  "counting A ps p g undef ns s \<longleftrightarrow> length (waves s) = length ns \<and> g_gds s = counted (64 * added ps s) g \<and>
     (\<forall>i<length ns. pc (waves s ! i) \<le> add_at ps \<longrightarrow> alone A ps p (ns ! i) (undef (ns ! i)) (waves s ! i))"

lemma counting_start: "counting A ps p g undef ns (gds_start p m g undef ns)"
proof -
  have "pc (gds_wave n p m g 0 u) = 0" for n u by (simp add: gds_wave_def wave_start_def)
  then show ?thesis by (simp add: counting_def gds_start_def added_def alone_start counted_0 o_def)
qed

lemma counting_step:
  assumes "group_step A (gds_test_program ps) s s'" and s: "counting A ps p g undef ns s" and small: "\<forall>n\<in>set ns. n < 2 ^ 20"
  shows "counting A ps p g undef ns s'"
proof -
  obtain i w where i: "i < length (waves s)" and w: "step A (gds_test_program ps) (focus s i) = Some w"
    and s': "s' = s\<lparr>waves := (waves s)[i := w], g_mem := gmem w, g_gds := gds w\<rparr>"
    using assms(1) by (rule group_stepE) blast
  have len: "length (waves s) = length ns" using s by (simp add: counting_def)
  let ?k = "pc (waves s ! i)" and ?n = "ns ! i"
  note step = gds.step_straight [OF w [unfolded gds_program]]
  have pc: "pc w = Suc ?k" "?k < length (gds_code ps)" using step(1,3) by (simp_all add: focus_def)
  have al: "alone A ps p ?n (undef ?n) (focus s i)" if "?k \<le> add_at ps"
    using s that i len by (simp add: counting_def focus_def alone_focus)
  have "g_gds s' = counted (64 * added ps s') g"
  proof (cases "?k = add_at ps")
    case True
    have "g_gds s' = counted 64 (g_gds s)"
      using alone_addition [OF al _ w] True small i len by (simp add: focus_def s')
    moreover have "added ps s' = Suc (added ps s)"
      unfolding added_def s' using i pc True by (simp add: sum_list_update)
    ultimately show ?thesis using s by (simp add: counting_def counted_counted add.commute)
  next
    case False
    have "g_gds s' = g_gds s"
      unfolding s' by (simp, subst step(2)) (simp add: effect_gds focus_def one_addition [OF pc(2) False])
    moreover have "(add_at ps < pc w) = (add_at ps < ?k)" using pc(1) False by auto
    then have "added ps s' = added ps s"
      unfolding added_def s' using i by (simp add: sum_list_update_same)
    ultimately show ?thesis using s by (simp add: counting_def)
  qed
  moreover have "alone A ps p (ns ! j) (undef (ns ! j)) (waves s' ! j)" if "j < length ns" "pc (waves s' ! j) \<le> add_at ps" for j
  proof (cases "j = i")
    case True
    then show ?thesis using that i pc(1) alone_step [OF al w] by (simp add: s' focus_def)
  next
    case False
    then show ?thesis using that s by (simp add: s' counting_def)
  qed
  ultimately show ?thesis using len by (simp add: counting_def s')
qed

lemma counting_steps:
  "(group_step A (gds_test_program ps) ^^ k) s s' \<Longrightarrow> counting A ps p g undef ns s \<Longrightarrow> \<forall>n\<in>set ns. n < 2 ^ 20 \<Longrightarrow>
    counting A ps p g undef ns s'"
  by (induction k arbitrary: s') (auto intro: counting_step)

lemma gds_start_follows:
  "gds.all_follow ps (gds_start p m g undef ns)" "progress_sum (gds_start p m g undef ns) = 0" "length (waves (gds_start p m g undef ns)) = length ns"
  using follows_start [OF gds_test_typed fresh_start(2)]
  by (simp_all add: gds.all_follow_def gds_start_def gds_program progress_sum_def o_def) (simp add: gds_wave_def wave_start_def)

section \<open>The claim\<close>

text \<open>
  C14. gds_test.s on the wavefronts of a workgroup at the same time, one instruction of one wavefront after another in any order: the word in the
  global data share has at every moment grown by 64 for each wavefront past its addition, so no addition is
  lost; some wavefront can go on unless all are at their end; and this they reach, whatever the order, after
  exactly as many turns as they have instructions, when the word counts every work-item.
\<close>

theorem gds_additions_atomic:
  assumes "\<forall>n\<in>set ns. n < 2 ^ 20" and "(group_step A (gds_test_program ps) ^^ k) (gds_start p m g undef ns) s"
  shows "g_gds s = counted (64 * added ps s) g \<and>
    (all_halted (gds_test_program ps) s \<or> (\<exists>s'. group_step A (gds_test_program ps) s s')) \<and>
    k \<le> length ns * length (gds_code ps) \<and>
    (k = length ns * length (gds_code ps) \<longleftrightarrow> all_halted (gds_test_program ps) s) \<and>
    (all_halted (gds_test_program ps) s \<longrightarrow> g_gds s = counted (64 * length ns) g)"
proof -
  have s: "gds.all_follow ps s" "progress_sum s = k" "length (waves s) = length ns"
    using gds.all_follow_steps [OF assms(2) [unfolded gds_program] gds_start_follows(1)] gds_start_follows(2,3) by simp_all
  have counts: "g_gds s = counted (64 * added ps s) g"
    using counting_steps [OF assms(2) counting_start assms(1)] by (simp add: counting_def)
  have "added ps s = length ns" if "all_halted (gds_test_program ps) s"
  proof -
    have "map (\<lambda>w. of_bool (add_at ps < pc w)) (waves s) = map (\<lambda>_. 1 :: nat) (waves s)"
      using gds.halted_pc [OF that [unfolded gds_program]] add_at_code(1) by (intro map_cong refl) simp
    then show ?thesis unfolding added_def by (simp only: sum_list_triv s(3)) simp
  qed
  then show ?thesis
    using counts gds.group_progress [OF s(1)] gds.progress_bound [OF s(1)] gds.group_ends [OF s(1)] s(2,3)
    by (auto simp: gds_program)
qed

theorem gds_additions_atomic_witness:
  "\<exists>s. (group_step ref_alu (gds_test_program sample_params) ^^ (2 * length (gds_code sample_params)))
      (gds_start 0 (\<lambda>_. 0) (\<lambda>_ _. 0) (\<lambda>n. blank_wave) [0, 1]) s \<and>
     all_halted (gds_test_program sample_params) s \<and> g_gds s (- 1) 0 = 128"
proof -
  let ?s = "gds_start 0 (\<lambda>_. 0) (\<lambda>_ _. 0) (\<lambda>n. blank_wave) [0, 1]"
  obtain s where s: "(group_step ref_alu (gds_test_program sample_params) ^^ (2 * length (gds_code sample_params))) ?s s"
    using gds.group_completes [OF gds_start_follows(1) [of sample_params 0 "\<lambda>_. 0" "\<lambda>_ _. 0" "\<lambda>n. blank_wave" "[0, 1]"],
        where k = "2 * length (gds_code sample_params)" and A = ref_alu]
    unfolding gds_program gds_start_follows(2,3) by auto
  have "\<forall>n\<in>set [0, 1 :: nat]. n < 2 ^ 20" by simp
  from gds_additions_atomic [OF this s] have "all_halted (gds_test_program sample_params) s"
    "all_halted (gds_test_program sample_params) s \<longrightarrow> g_gds s = counted (64 * length [0, 1 :: nat]) (\<lambda>_ _. 0)" by auto
  then have "all_halted (gds_test_program sample_params) s" "g_gds s (- 1) 0 = 128" by (simp_all add: counted_def)
  with s show ?thesis by blast
qed

end
