(* ===== verification/Perl_Match.thy ===== *)
theory Perl_Match
  imports Prelude "HOL-Library.Sublist"
begin

text \<open>
  The part of Perl's regular expressions that the converter of sp3 sources uses: matching from the left, with greedy
  repetition of a class of characters, backtracking and captured groups, and the substitution operators.
\<close>

section \<open>Patterns\<close>

type_synonym cls = "char \<Rightarrow> bool"

datatype re =
    Lit string
  | One cls
  | Many nat cls
  | Seq re re
  | Group re
  | Line_end

text \<open>The classes \<open>\w\<close>, \<open>\s\<close> and \<open>.\<close>, on bytes.\<close>

definition word :: cls where
  "word c = (let n = of_char c :: nat in 48 \<le> n \<and> n \<le> 57 \<or> 65 \<le> n \<and> n \<le> 90 \<or> n = 95 \<or> 97 \<le> n \<and> n \<le> 122)"

definition space :: cls where
  "space c = (let n = of_char c :: nat in 9 \<le> n \<and> n \<le> 13 \<or> n = 32)"

definition dot :: cls where
  "dot c = (c \<noteq> CHR 0x0A)"

text \<open>A sequence of patterns.\<close>

primrec seqs :: "re list \<Rightarrow> re" where
  "seqs [] = Lit []"
| "seqs (r # rs) = (if rs = [] then r else Seq r (seqs rs))"

lemma seqs_unfold: "seqs [r] = r" "seqs (r # s # rs) = Seq r (seqs (s # rs))"
  by simp_all

section \<open>Matching\<close>

text \<open>
  The ways to match a pattern at the front of a string, in the order in which Perl tries them: the captured groups in
  the order of their opening brackets, and what is left of the string. A repetition first takes as much as it can.
\<close>

primrec ways :: "re \<Rightarrow> string \<Rightarrow> (string list \<times> string) list" where
  "ways (Lit w) s = (if take (length w) s = w then [([], drop (length w) s)] else [])"
| "ways (One p) s = (case s of [] \<Rightarrow> [] | c # cs \<Rightarrow> if p c then [([], cs)] else [])"
| "ways (Many n p) s = map (\<lambda>k. ([], drop k s)) (rev [n..<Suc (length (takeWhile p s))])"
| "ways (Seq r1 r2) s = concat (map (\<lambda>(c1, t). map (\<lambda>(c2, u). (c1 @ c2, u)) (ways r2 t)) (ways r1 s))"
| "ways (Group r) s = map (\<lambda>(cs, t). (take (length s - length t) s # cs, t)) (ways r s)"
| "ways Line_end s = (if s = [] \<or> s = newline then [([], s)] else [])"

text \<open>The first match from the left: what is before it, the groups, and what is after it.\<close>

fun search :: "re \<Rightarrow> string \<Rightarrow> (string \<times> string list \<times> string) option" where
  "search r s = (case ways r s of
       (cs, t) # _ \<Rightarrow> Some ([], cs, t)
     | [] \<Rightarrow> (case s of [] \<Rightarrow> None | c # s' \<Rightarrow> map_option (\<lambda>(b, x). (c # b, x)) (search r s')))"

declare search.simps [simp del]

definition matches :: "re \<Rightarrow> string \<Rightarrow> bool" where
  "matches r s \<longleftrightarrow> search r s \<noteq> None"

text \<open>
  Substitution of the first match, and of every match. All patterns of the converter take at least one character, so
  that the last case does not arise.
\<close>

definition subst_first :: "re \<Rightarrow> (string list \<Rightarrow> string) \<Rightarrow> string \<Rightarrow> string" where
  "subst_first r f s = (case search r s of None \<Rightarrow> s | Some (b, cs, t) \<Rightarrow> b @ f cs @ t)"

function subst_all :: "re \<Rightarrow> (string list \<Rightarrow> string) \<Rightarrow> string \<Rightarrow> string" where
  "subst_all r f s = (case search r s of
       None \<Rightarrow> s
     | Some (b, cs, t) \<Rightarrow> b @ f cs @ (if length t < length s then subst_all r f t else t))"
  by pat_completeness auto
termination by (relation "measure (\<lambda>(r, f, s). length s)") auto

declare subst_all.simps [simp del]

section \<open>What a match is\<close>

text \<open>A text spells a pattern, followed by another text, with these groups.\<close>

inductive spells :: "re \<Rightarrow> string \<Rightarrow> string \<Rightarrow> string list \<Rightarrow> bool" where
  spells_Lit: "spells (Lit w) w u []"
| spells_One: "p c \<Longrightarrow> spells (One p) [c] u []"
| spells_Many: "n \<le> length t \<Longrightarrow> list_all p t \<Longrightarrow> spells (Many n p) t u []"
| spells_Seq: "spells r1 t1 (t2 @ u) c1 \<Longrightarrow> spells r2 t2 u c2 \<Longrightarrow> spells (Seq r1 r2) (t1 @ t2) u (c1 @ c2)"
| spells_Group: "spells r t u cs \<Longrightarrow> spells (Group r) t u (t # cs)"
| spells_end: "u \<in> {[], newline} \<Longrightarrow> spells Line_end [] u []"

inductive_cases spells_LitE: "spells (Lit w) t u cs"
inductive_cases spells_OneE: "spells (One p) t u cs"
inductive_cases spells_ManyE: "spells (Many n p) t u cs"
inductive_cases spells_SeqE: "spells (Seq r1 r2) t u cs"
inductive_cases spells_GroupE: "spells (Group r) t u cs"
inductive_cases spells_endE: "spells Line_end t u cs"

text \<open>The ways are exactly the matches.\<close>

lemma ways_sound: "(cs, u) \<in> set (ways r s) \<Longrightarrow> \<exists>t. s = t @ u \<and> spells r t u cs"
proof (induction r arbitrary: s cs u)
  case (Lit w)
  then show ?case by (auto split: if_splits intro!: exI [of _ w] spells_Lit) (metis append_take_drop_id)
next
  case (One p)
  then show ?case by (auto split: list.splits if_splits intro!: spells_One)
next
  case (Many n p)
  then obtain k where k: "n \<le> k" "k \<le> length (takeWhile p s)" "cs = []" "u = drop k s" by auto
  have "take k s = take k (takeWhile p s)" using k(2) by (metis takeWhile_eq_take take_take min.absorb1)
  then have "list_all p (take k s)" by (metis in_set_takeD list_all_iff set_takeWhileD)
  moreover have "k \<le> length s" using k(2) length_takeWhile_le [of p s] by simp
  ultimately show ?case using k by (intro exI [of _ "take k s"]) (auto intro: spells_Many)
next
  case (Seq r1 r2)
  then obtain c1 t c2 where 1: "(c1, t) \<in> set (ways r1 s)" and 2: "(c2, u) \<in> set (ways r2 t)" and cs: "cs = c1 @ c2" by auto
  from Seq.IH(1) [OF 1] Seq.IH(2) [OF 2] show ?case unfolding cs by (metis append.assoc spells_Seq)
next
  case (Group r)
  then obtain cs' where "(cs', u) \<in> set (ways r s)" "cs = take (length s - length u) s # cs'" by auto
  with Group.IH [of cs' u s] show ?case by (auto intro: spells_Group)
next
  case Line_end
  then show ?case by (auto split: if_splits intro: spells_end)
qed

lemma ways_complete: "spells r t u cs \<Longrightarrow> (cs, u) \<in> set (ways r (t @ u))"
proof (induction rule: spells.induct)
  case (spells_Many n t p u)
  have "takeWhile p (t @ u) = t @ takeWhile p u" using spells_Many(2) by (simp add: list_all_iff)
  then show ?case using spells_Many(1) by (auto intro!: image_eqI [of _ _ "length t"])
next
  case (spells_Seq r1 t1 t2 u c1 r2 c2)
  then show ?case by (auto intro!: bexI [of _ "(c1, t2 @ u)"] image_eqI [of _ _ "(c2, u)"])
next
  case (spells_Group r t u cs)
  then show ?case by (auto intro!: image_eqI [of _ _ "(cs, u)"])
qed auto

lemma ways_iff: "(cs, u) \<in> set (ways r s) \<longleftrightarrow> (\<exists>t. s = t @ u \<and> spells r t u cs)"
  using ways_sound ways_complete by blast

section \<open>Searching\<close>

text \<open>The first way, which decides the match; it is composed from the first ways of the parts where none has to backtrack.\<close>

definition first :: "re \<Rightarrow> string \<Rightarrow> string list \<Rightarrow> string \<Rightarrow> bool" where
  "first r s cs u \<longleftrightarrow> (\<exists>ws. ways r s = (cs, u) # ws)"

lemma first_Lit: "s = w @ u \<Longrightarrow> first (Lit w) s [] u"
  by (simp add: first_def)

lemma first_One: "s = c # u \<Longrightarrow> p c \<Longrightarrow> first (One p) s [] u"
  by (simp add: first_def)

lemma first_Many:
  assumes "s = t @ u" and "list_all p t" and "u = [] \<or> \<not> p (hd u)" and "n \<le> length t"
  shows "first (Many n p) s [] u"
proof -
  have "takeWhile p u = []" using assms(3) by (cases u) auto
  then have "takeWhile p (t @ u) = t" using assms(2) by (simp add: list_all_iff)
  then show ?thesis using assms(1,4) by (simp add: first_def)
qed

lemma first_Seq:
  assumes "first r1 s c1 t" and "first r2 t c2 u"
  shows "first (Seq r1 r2) s (c1 @ c2) u"
  using assms by (auto simp: first_def)

lemma first_Group: "first r s cs u \<Longrightarrow> s = t @ u \<Longrightarrow> first (Group r) s (t # cs) u"
  by (auto simp: first_def)

lemma first_end: "u \<in> {[], newline} \<Longrightarrow> first Line_end u [] u"
  by (auto simp: first_def)

text \<open>Where a greedy repetition has to give back, the longest text that lets the rest match.\<close>

lemma ways_Many_Lit:
  assumes t: "list_all p t" and c: "p c" and u: "u = [] \<or> \<not> p (hd u)" and cu: "c \<notin> set u"
  shows "first (Seq (Group (Many 0 p)) (Lit [c])) (t @ c # u) [t] u"
proof -
  have "takeWhile p u = []" using u by (cases u) auto
  then have *: "takeWhile p (t @ c # u) = t @ [c]" using t c by (simp add: list_all_iff)
  have "rev [0..<Suc (length (t @ [c]))] = Suc (length t) # length t # rev [0..<length t]" by simp
  then have "ways (Many 0 p) (t @ c # u) = ([], u) # ([], c # u) # map (\<lambda>k. ([], drop k (t @ c # u))) (rev [0..<length t])"
    by (simp only: ways.simps * list.map) simp
  then have "\<exists>ws. ways (Group (Many 0 p)) (t @ c # u) = ([t @ [c]], u) # ([t], c # u) # ws" by simp
  moreover have "ways (Lit [c]) u = []" using cu by (cases u) auto
  ultimately show ?thesis unfolding first_def by (auto simp only: ways.simps(4) list.map concat.simps prod.case append.simps) auto
qed

lemma search_first: "first r s cs u \<Longrightarrow> search r s = Some ([], cs, u)"
  by (auto simp: first_def search.simps)

lemma search_skip: "ways r (c # s) = [] \<Longrightarrow> search r (c # s) = map_option (\<lambda>(b, x). (c # b, x)) (search r s)"
  by (simp add: search.simps)

lemma search_none_iff: "search r s = None \<longleftrightarrow> (\<forall>b u. s = b @ u \<longrightarrow> ways r u = [])"
proof (induction s)
  case Nil
  then show ?case by (simp add: search.simps split: list.splits)
next
  case (Cons c s)
  have "search r (c # s) = None \<longleftrightarrow> ways r (c # s) = [] \<and> search r s = None"
    by (auto simp: search.simps split: list.splits)
  then show ?case unfolding Cons.IH by (auto simp: Cons_eq_append_conv)
qed

lemma matches_iff: "matches r s \<longleftrightarrow> (\<exists>b t u cs. s = b @ t @ u \<and> spells r t u cs)"
proof -
  have "matches r s \<longleftrightarrow> (\<exists>b u. s = b @ u \<and> ways r u \<noteq> [])" by (auto simp: matches_def search_none_iff)
  also have "\<dots> \<longleftrightarrow> (\<exists>b u cs t. s = b @ u \<and> (cs, t) \<in> set (ways r u))" by (metis last_in_set list.set_cases neq_Nil_conv surj_pair)
  finally show ?thesis unfolding ways_iff by blast
qed

lemma search_found: "search r s = Some (b, cs, u) \<Longrightarrow> \<exists>t. s = b @ t @ u \<and> spells r t u cs"
proof (induction s arbitrary: b)
  case Nil
  then show ?case using ways_sound [of cs u r "[]"] by (auto simp: search.simps split: list.splits)
next
  case (Cons c s)
  show ?case
  proof (cases "ways r (c # s)")
    case Nil
    then obtain b' where "search r s = Some (b', cs, u)" "b = c # b'" using Cons.prems by (auto simp: search_skip)
    with Cons.IH [of b'] show ?thesis by auto
  next
    case (Cons x ws)
    then have "x = (cs, u)" "b = []" using Cons.prems by (auto simp: search.simps split: prod.splits)
    then show ?thesis using ways_sound [of cs u r "c # s"] Cons by auto
  qed
qed

text \<open>A text without one of the literals of a pattern has no match.\<close>

primrec literals :: "re \<Rightarrow> string set" where
  "literals (Lit w) = {w}"
| "literals (One p) = {}"
| "literals (Many n p) = {}"
| "literals (Seq r1 r2) = literals r1 \<union> literals r2"
| "literals (Group r) = literals r"
| "literals Line_end = {}"

lemma spells_literals: "spells r t u cs \<Longrightarrow> w \<in> literals r \<Longrightarrow> \<exists>x y. t = x @ w @ y"
proof (induction rule: spells.induct)
  case (spells_Seq r1 t1 t2 u c1 r2 c2)
  then consider x y where "t1 = x @ w @ y" | x y where "t2 = x @ w @ y" by auto
  then show ?case by cases (simp, metis append.assoc)+
qed (auto intro: exI [of _ "[]"])

lemma no_match: "w \<in> literals r \<Longrightarrow> \<not> sublist w s \<Longrightarrow> \<not> matches r s"
  unfolding matches_iff sublist_def by (metis append.assoc spells_literals)

lemma matches_Lit: "matches (Lit w) s \<longleftrightarrow> sublist w s"
  unfolding matches_iff sublist_def by (blast elim: spells_LitE intro: spells_Lit)

section \<open>Substituting\<close>

lemma subst_all_none: "\<not> matches r s \<Longrightarrow> subst_all r f s = s"
  by (subst subst_all.simps) (simp add: matches_def del: not_None_eq)

lemma subst_all_first: "first r s cs u \<Longrightarrow> length u < length s \<Longrightarrow> subst_all r f s = f cs @ subst_all r f u"
  by (subst subst_all.simps) (simp add: search_first)

lemma subst_first_first: "first r s cs u \<Longrightarrow> subst_first r f s = f cs @ u"
  by (simp add: subst_first_def search_first)

lemma subst_first_skip: "ways r (c # s) = [] \<Longrightarrow> subst_first r f (c # s) = c # subst_first r f s"
  by (auto simp: subst_first_def search_skip split: option.splits)

text \<open>A pattern that takes at least one character.\<close>

primrec takes :: "re \<Rightarrow> bool" where
  "takes (Lit w) \<longleftrightarrow> w \<noteq> []"
| "takes (One p) \<longleftrightarrow> True"
| "takes (Many n p) \<longleftrightarrow> 0 < n"
| "takes (Seq r1 r2) \<longleftrightarrow> takes r1 \<or> takes r2"
| "takes (Group r) \<longleftrightarrow> takes r"
| "takes Line_end \<longleftrightarrow> False"

lemma spells_takes: "spells r t u cs \<Longrightarrow> takes r \<Longrightarrow> t \<noteq> []"
  by (induction rule: spells.induct) auto

lemma subst_all_skip:
  assumes "takes r" and "ways r (c # s) = []"
  shows "subst_all r f (c # s) = c # subst_all r f s"
proof (cases "search r s")
  case None
  then show ?thesis using assms by (simp add: subst_all_none matches_def search_skip)
next
  case (Some x)
  then obtain b cs u where x: "search r s = Some (b, cs, u)" by (cases x) auto
  from search_found [OF x] obtain t where "s = b @ t @ u" "t \<noteq> []" using spells_takes [OF _ assms(1)] by blast
  then have "length u < length s" by (cases t) auto
  then have "subst_all r f s = b @ f cs @ subst_all r f u" "subst_all r f (c # s) = c # b @ f cs @ subst_all r f u"
    by (subst subst_all.simps, simp add: assms search_skip x)+
  then show ?thesis by simp
qed

text \<open>Text in front of a match that no match can begin in.\<close>

lemma search_skips: "\<forall>k<length b. ways r (drop k b @ s) = [] \<Longrightarrow> search r (b @ s) = map_option (\<lambda>(b', x). (b @ b', x)) (search r s)"
proof (induction b)
  case Nil
  then show ?case by (cases "search r s") auto
next
  case (Cons c b)
  have "\<forall>k<length b. ways r (drop k b @ s) = []" using Cons.prems by auto
  moreover have "ways r (c # b @ s) = []" using Cons.prems by force
  ultimately show ?case using Cons.IH by (cases "search r s") (auto simp: search_skip)
qed

lemma subst_all_skips:
  "takes r \<Longrightarrow> \<forall>k<length b. ways r (drop k b @ s) = [] \<Longrightarrow> subst_all r f (b @ s) = b @ subst_all r f s"
proof (induction b)
  case (Cons c b)
  have "\<forall>k<length b. ways r (drop k b @ s) = []" using Cons.prems by auto
  moreover have "ways r (c # b @ s) = []" using Cons.prems by force
  ultimately show ?case using Cons by (simp add: subst_all_skip)
qed simp

lemma subst_first_skips:
  "\<forall>k<length b. ways r (drop k b @ s) = [] \<Longrightarrow> subst_first r f (b @ s) = b @ subst_first r f s"
  by (auto simp: subst_first_def search_skips split: option.splits)

text \<open>In particular characters that a match does not begin with.\<close>

primrec begins :: "re \<Rightarrow> char \<Rightarrow> bool" where
  "begins (Lit w) c \<longleftrightarrow> w = [] \<or> c = hd w"
| "begins (One p) c \<longleftrightarrow> p c"
| "begins (Many n p) c \<longleftrightarrow> n = 0 \<or> p c"
| "begins (Seq r1 r2) c \<longleftrightarrow> (if takes r1 then begins r1 c else True)"
| "begins (Group r) c \<longleftrightarrow> begins r c"
| "begins Line_end c \<longleftrightarrow> True"

lemma spells_begins: "spells r t u cs \<Longrightarrow> begins r (hd t) \<or> t = []"
proof (induction rule: spells.induct)
  case (spells_Seq r1 t1 t2 u c1 r2 c2)
  then show ?case using spells_takes [OF spells_Seq(1)] by (cases t1) auto
next
  case (spells_Many n t p u)
  then show ?case by (cases t) auto
qed auto

lemma not_begins: "takes r \<Longrightarrow> \<not> begins r c \<Longrightarrow> ways r (c # s) = []"
proof (rule ccontr)
  assume r: "takes r" "\<not> begins r c" and "ways r (c # s) \<noteq> []"
  then obtain cs u where "(cs, u) \<in> set (ways r (c # s))" by (metis list.set_intros(1) neq_Nil_conv surj_pair)
  then obtain t where t: "c # s = t @ u" "spells r t u cs" using ways_sound by blast
  then have "t \<noteq> []" using r spells_takes by blast
  then show False using t spells_begins [OF t(2)] r by (cases t) auto
qed

lemma skips_begins: "takes r \<Longrightarrow> list_all (\<lambda>c. \<not> begins r c) b \<Longrightarrow> \<forall>k<length b. ways r (drop k b @ s) = []"
  by (auto simp: list_all_length not_begins simp flip: Cons_nth_drop_Suc)

lemmas search_blanks = search_skips [OF skips_begins]
lemmas subst_all_blanks = subst_all_skips [OF _ skips_begins]
lemmas subst_first_blanks = subst_first_skips [OF skips_begins]

end
