(* ===== verification/Sp3_To_Mc.thy ===== *)
theory Sp3_To_Mc
  imports Perl_Match
begin

text \<open>
  bin/sp3_to_mc.pl, the converter from sp3 assembler syntax to that of LLVM, as a function from the lines of a source to
  the text printed. The loop over the lines carries the stack \<open>@scope\<close> of open blocks and the list
  \<open>@args\<close> of the names to escape.
\<close>

section \<open>The state\<close>

datatype block = For | If | Function

text \<open>
  \<open>@args = []\<close> makes the list one that holds a reference to an empty array, which reads as
  \<open>ARRAY(0x...)\<close> where it is interpolated.
\<close>

datatype argument = Name string | Array_ref string

record sp3 =
  scope :: "block list"
  args :: "argument list"

text \<open>
  What the script takes from Perl beside matching: the digits of an address, and the pattern that an interpolated
  text stands for if it contains characters with a meaning in patterns.
\<close>

record perl =
  address :: string
  interpolate :: "string \<Rightarrow> re"

definition plain_word :: "string \<Rightarrow> bool" where
  "plain_word w \<longleftrightarrow> list_all word w"

primrec arg_re :: "perl \<Rightarrow> argument \<Rightarrow> re" where
  "arg_re P (Name a) = (if plain_word a then Lit a else interpolate P a)"
| "arg_re P (Array_ref h) = Seq (Lit ''ARRAY'') (Group (Lit (''0x'' @ h)))"

section \<open>Numbers\<close>

text \<open>
  Perl takes a word for a number by its leading digits, and for 0 if it has none. Such a number is an
  integer as long as it fits into 64 bits. The words that are floating point numbers, those that begin like infinity or
  nan in any case of letters, digits with an exponent, and larger numbers, are outside of the model: they have no
  number here, and a loop over them has no other outcome than \<open>Floating\<close>.
\<close>

definition digit :: cls where
  "digit c = (let n = of_char c :: nat in 48 \<le> n \<and> n \<le> 57)"

definition digits_value :: "string \<Rightarrow> nat" where
  "digits_value = foldl (\<lambda>v c. 10 * v + (of_char c - 48)) 0"

definition lower :: "char \<Rightarrow> char" where
  "lower c = (let n = of_char c :: nat in if 65 \<le> n \<and> n \<le> 90 then char_of (n + 32) else c)"

definition fits :: "nat \<Rightarrow> bool" where
  "fits n \<longleftrightarrow> int n < 2 ^ 64"

definition floating :: "string \<Rightarrow> bool" where
  "floating w \<longleftrightarrow> prefix ''inf'' (map lower w) \<or> prefix ''nan'' (map lower w) \<or>
     (case (takeWhile digit w, dropWhile digit w) of (_ # _, e # d # _) \<Rightarrow> lower e = CHR ''e'' \<and> digit d | _ \<Rightarrow> False)"

definition number :: "string \<Rightarrow> nat option" where
  "number w = (let n = digits_value (takeWhile digit w) in if floating w \<or> \<not> fits n then None else Some n)"

text \<open>How a piece of the script ends: with a result, never, or in floating point arithmetic, which is not modelled.\<close>

datatype 'a outcome = Done 'a | Endless | Floating

primrec andthen :: "'a outcome \<Rightarrow> ('a \<Rightarrow> 'b outcome) \<Rightarrow> 'b outcome" where
  "andthen (Done x) f = f x"
| "andthen Endless f = Endless"
| "andthen Floating f = Floating"

section \<open>One line\<close>

definition for_re :: re where
  "for_re = seqs [Lit ''for var '', Group (Many 1 word), Lit '' = '', Group (Many 1 word), Lit ''; '',
     Group (Many 1 word), Lit '' < '', Group (Many 1 word), Lit ''; '', Group (Many 1 word), Lit '' += '', Group (Many 1 word)]"

text \<open>
  The values of the loop variable; the loop does not end if it does not move. The values listed are below the
  limit, and so fit into 64 bits when the limit does.
\<close>

partial_function (option) for_values :: "nat \<Rightarrow> nat \<Rightarrow> nat \<Rightarrow> string option" where
  "for_values v limit incr =
     (if v < limit
      then Option.bind (for_values (v + incr) limit incr) (\<lambda>s. Some ('','' @ decimal v @ s))
      else Some [])"

text \<open>The first value is printed the way it is written.\<close>

definition for_line :: "string list \<Rightarrow> string outcome" where
  "for_line c =
     (case (number (c ! 1), number (c ! 3), number (c ! 5)) of
        (Some v, Some limit, Some incr) \<Rightarrow>
          if v < limit
          then (case for_values (v + incr) limit incr of
              Some s \<Rightarrow> Done (''.irp '' @ c ! 0 @ '','' @ c ! 1 @ s @ newline)
            | None \<Rightarrow> Endless)
          else Done (''.irp '' @ c ! 0 @ newline)
      | _ \<Rightarrow> Floating)"

definition var_re :: re where
  "var_re = seqs [Lit ''var'', Group (Many 1 space), Group (Many 1 word), Group (Many 1 space), Lit ''='', Group (Many 1 space),
     Group (Many 0 dot), Line_end]"

definition var_step :: "string \<Rightarrow> string" where
  "var_step = subst_all var_re (\<lambda>c. ''.set'' @ c ! 0 @ c ! 1 @ c ! 2 @ '','' @ c ! 3 @ c ! 4)"

definition if_step :: "string \<Rightarrow> sp3 \<Rightarrow> string \<times> sp3" where
  "if_step l s =
     (if matches (Lit ''if '') l
      then (subst_all (Lit ''if '') (\<lambda>c. ''.if '') l, s\<lparr>scope := If # scope s\<rparr>)
      else (l, s))"

definition function_re :: re where
  "function_re = seqs [Lit ''function'', Many 1 space, Group (Many 1 word), Many 0 space, Lit ''('', Group (Many 0 dot), Lit '')'']"

text \<open>\<open>split\<close> at a comma and a space, which drops empty fields at the end.\<close>

fun fields :: "string \<Rightarrow> string \<Rightarrow> string list" where
  "fields f (c # d # s) = (if c = CHR '','' \<and> d = CHR '' '' then f # fields [] s else fields (f @ [c]) (d # s))"
| "fields f s = [f @ s]"

definition split_args :: "string \<Rightarrow> string list" where
  "split_args s = rev (dropWhile (\<lambda>f. f = []) (rev (fields [] s)))"

text \<open>What ends an operand, and the pattern of an argument at the end of one.\<close>

definition separator :: cls where
  "separator c \<longleftrightarrow> space c \<or> c = CHR '',''"

definition operand_re :: "perl \<Rightarrow> argument \<Rightarrow> re" where
  "operand_re P a = Group (Seq (arg_re P a) (One separator))"

definition escape :: "perl \<Rightarrow> argument list \<Rightarrow> string \<Rightarrow> string" where
  "escape P as l = fold (\<lambda>a. subst_all (operand_re P a) (\<lambda>c. CHR 0x5C # c ! 0)) as l"

definition function_step :: "perl \<Rightarrow> string \<Rightarrow> sp3 \<Rightarrow> string \<times> sp3" where
  "function_step P l s =
     (case search function_re l of
       Some (b, c, t) \<Rightarrow>
         (subst_all function_re (\<lambda>c. ''.macro '' @ c ! 0 @ '' '' @ c ! 1) l,
          s\<lparr>scope := Function # scope s, args := map Name (split_args (c ! 1))\<rparr>)
     | None \<Rightarrow> (escape P (args s) l, s))"

definition else_step :: "string \<Rightarrow> string" where
  "else_step = subst_all (Lit ''else '') (\<lambda>c. ''.else '')"

definition end_re :: re where
  "end_re = seqs [Group (Many 0 space), Lit ''end'', Line_end]"

text \<open>\<open>pop\<close> of an empty stack gives an undefined value, which is none of the three.\<close>

definition end_step :: "perl \<Rightarrow> string \<Rightarrow> sp3 \<Rightarrow> string \<times> sp3" where
  "end_step P l s =
     (if \<not> matches end_re l then (l, s) else
      case scope s of
        [] \<Rightarrow> (l, s)
      | b # bs \<Rightarrow> (case b of
            If \<Rightarrow> (subst_all (Lit ''end'') (\<lambda>c. ''.endif'') l, s\<lparr>scope := bs\<rparr>)
          | Function \<Rightarrow> (subst_all (Lit ''end'') (\<lambda>c. ''.endm'') l, s\<lparr>scope := bs, args := [Array_ref (address P)]\<rparr>)
          | For \<Rightarrow> (subst_first (Lit ''end'') (\<lambda>c. ''.endr'') l, s\<lparr>scope := bs\<rparr>)))"

definition call_re :: re where
  "call_re = seqs [Group (Many 1 word), Lit ''('', Group (Many 0 dot), Lit '')'']"

definition call_step :: "string \<Rightarrow> string" where
  "call_step = subst_all call_re (\<lambda>c. c ! 0 @ '' '' @ c ! 1)"

definition convert_line :: "perl \<Rightarrow> string \<Rightarrow> sp3 \<Rightarrow> (string \<times> sp3) outcome" where
  "convert_line P l s =
     (case search for_re l of
       Some (b, c, t) \<Rightarrow> andthen (for_line c) (\<lambda>out. Done (out, s\<lparr>scope := For # scope s\<rparr>))
     | None \<Rightarrow>
         let l = var_step l;
             (l, s) = if_step l s;
             (l, s) = function_step P l s;
             l = else_step l;
             (l, s) = end_step P l s
         in Done (call_step l, s))"

section \<open>A source\<close>

text \<open>The lines in order, up to one that never comes to its end or leaves the integers.\<close>

fun convert :: "perl \<Rightarrow> string list \<Rightarrow> sp3 \<Rightarrow> (string \<times> sp3) outcome" where
  "convert P [] s = Done ([], s)"
| "convert P (l # ls) s =
     andthen (convert_line P l s) (\<lambda>(out, s'). map_outcome (\<lambda>(outs, t). (out @ outs, t)) (convert P ls s'))"

definition sp3_start :: sp3 where
  "sp3_start = \<lparr>scope = [], args = []\<rparr>"

definition sp3_to_mc :: "perl \<Rightarrow> string list \<Rightarrow> string outcome" where
  "sp3_to_mc P ls = map_outcome fst (convert P ls sp3_start)"

end
