(* ===== verification/Sp3_Args.thy ===== *)
theory Sp3_Args
  imports Sp3_To_Mc
begin

text \<open>
  The arguments of a function: the parameter list is read back, and a line is escaped operand by operand.
\<close>

section \<open>The parameter list\<close>

primrec commas :: "string list \<Rightarrow> string" where
  "commas [] = []"
| "commas (p # ps) = (if ps = [] then p else p @ '', '' @ commas ps)"

lemma fields_end: "CHR '','' \<notin> set p \<Longrightarrow> fields f p = [f @ p]"
  by (induction f p rule: fields.induct) auto

lemma fields_next: "CHR '','' \<notin> set p \<Longrightarrow> fields f (p @ '', '' @ s) = (f @ p) # fields [] s"
proof (induction p arbitrary: f)
  case (Cons c p)
  have "fields f (c # p @ '', '' @ s) = fields (f @ [c]) (p @ '', '' @ s)"
    using Cons.prems by (cases "p @ '', '' @ s") auto
  then show ?case using Cons by simp
qed simp

lemma fields_commas: "ps \<noteq> [] \<Longrightarrow> \<forall>p\<in>set ps. CHR '','' \<notin> set p \<Longrightarrow> fields [] (commas ps) = ps"
proof (induction ps)
  case (Cons p ps)
  then show ?case using fields_end [of p "[]"] fields_next [of p "[]" "commas ps"] by auto
qed simp

lemma split_commas:
  assumes "\<forall>p\<in>set ps. p \<noteq> [] \<and> CHR '','' \<notin> set p"
  shows "split_args (commas ps) = ps"
proof (cases ps rule: rev_cases)
  case Nil
  then show ?thesis by (simp add: split_args_def)
next
  case (snoc qs q)
  then show ?thesis using assms fields_commas [of ps] by (simp add: split_args_def)
qed

section \<open>Escaping\<close>

abbreviation solid :: "string \<Rightarrow> bool" where
  "solid \<equiv> list_all (\<lambda>c. \<not> separator c)"

text \<open>A line operand by operand; what follows the last separator is left alone.\<close>

fun per_operand :: "(string \<Rightarrow> string) \<Rightarrow> string \<Rightarrow> string \<Rightarrow> string" where
  "per_operand g t [] = t"
| "per_operand g t (c # s) = (if separator c then g t @ c # per_operand g [] s else per_operand g (t @ [c]) s)"

text \<open>An operand that ends in the name of an argument gets a backslash in front of the name.\<close>

definition mark :: "string list \<Rightarrow> string \<Rightarrow> string" where
  "mark as t = (case find (\<lambda>a. suffix a t) as of None \<Rightarrow> t | Some a \<Rightarrow> take (length t - length a) t @ CHR 0x5C # a)"

definition marks :: "string list \<Rightarrow> string \<Rightarrow> string" where
  "marks as = per_operand (mark as) []"

text \<open>The names the escaping is meant for: words, none of which ends in another.\<close>

definition names :: "string list \<Rightarrow> bool" where
  "names as \<longleftrightarrow> distinct as \<and> (\<forall>a\<in>set as. a \<noteq> [] \<and> plain_word a) \<and> (\<forall>a\<in>set as. \<forall>b\<in>set as. suffix a b \<longrightarrow> a = b)"

lemma word_solid: "word c \<Longrightarrow> \<not> separator c"
  by (auto simp: word_def separator_def space_def Let_def)

lemma plain_solid: "plain_word a \<Longrightarrow> solid a"
  by (auto simp: plain_word_def list_all_iff word_solid)

lemma plain_backslash: "plain_word a \<Longrightarrow> CHR 0x5C \<notin> set a"
  by (auto simp: plain_word_def list_all_iff word_def Let_def)

lemma per_operand_solid: "solid u \<Longrightarrow> per_operand g t u = t @ u"
  by (induction u arbitrary: t) auto

lemma per_operand_next: "solid u \<Longrightarrow> separator c \<Longrightarrow> per_operand g t (u @ c # s) = g (t @ u) @ c # per_operand g [] s"
  by (induction u arbitrary: t) auto

lemma operand_induct [case_names solid operand]:
  assumes "\<And>u. solid u \<Longrightarrow> Q u" and "\<And>u c s. solid u \<Longrightarrow> separator c \<Longrightarrow> Q s \<Longrightarrow> Q (u @ c # s)"
  shows "Q s"
proof (induction s rule: length_induct)
  case (1 s)
  show ?case
  proof (cases "solid s")
    case False
    then obtain c where "c \<in> set s" "separator c" by (auto simp: list_all_iff)
    then obtain u d t where "s = u @ d # t" "separator d" "solid u"
      using split_list_first_prop [of s separator] by (auto simp: list_all_iff)
    then show ?thesis using 1 assms(2) by auto
  qed (rule assms(1))
qed

lemma per_operand_compose:
  assumes "\<forall>t. solid t \<longrightarrow> solid (g t)"
  shows "per_operand h [] (per_operand g [] s) = per_operand (\<lambda>t. h (g t)) [] s"
  by (induction s rule: operand_induct) (use assms in \<open>auto simp: per_operand_solid per_operand_next\<close>)

text \<open>One argument.\<close>

lemma ways_operand:
  assumes "plain_word a" and "solid v" and "separator c"
  shows "ways (operand_re P (Name a)) (v @ c # s) = (if v = a then [([a @ [c]], s)] else [])"
proof (cases "v = a")
  case True
  then show ?thesis using assms(1,3) by (simp add: operand_re_def)
next
  case False
  show ?thesis
  proof (rule ccontr)
    assume "\<not> ?thesis"
    then obtain cs y where "(cs, y) \<in> set (ways (operand_re P (Name a)) (v @ c # s))"
      using False by (metis last_in_set surj_pair)
    then obtain t where "v @ c # s = t @ y" "spells (operand_re P (Name a)) t y cs" using ways_sound by blast
    then obtain d where d: "v @ c # s = a @ d # y" "separator d"
      using assms(1) by (auto simp: operand_re_def elim!: spells_GroupE spells_SeqE spells_OneE spells_LitE)
    have "takeWhile (\<lambda>c. \<not> separator c) (v @ c # s) = v" using assms(2,3) by (simp add: list_all_iff)
    moreover have "takeWhile (\<lambda>c. \<not> separator c) (a @ d # y) = a"
      using plain_solid [OF assms(1)] d(2) by (simp add: list_all_iff)
    ultimately show False using d(1) False by simp
  qed
qed

lemma takes_operand: "plain_word a \<Longrightarrow> takes (operand_re P (Name a))"
  by (simp add: operand_re_def)

abbreviation backslashed :: "string list \<Rightarrow> string" where
  "backslashed c \<equiv> CHR 0x5C # c ! 0"

lemma escape_one:
  assumes a: "plain_word a" "a \<noteq> []"
  shows "subst_all (operand_re P (Name a)) backslashed s = per_operand (mark [a]) [] s"
proof (induction s rule: operand_induct)
  case (solid u)
  have "\<not> matches (operand_re P (Name a)) u"
  proof
    assume "matches (operand_re P (Name a)) u"
    then have "\<exists>c\<in>set u. separator c"
      using a by (auto simp: matches_iff operand_re_def elim!: spells_GroupE spells_SeqE spells_OneE)
    then show False using solid by (auto simp: list_all_iff)
  qed
  then show ?case using solid by (simp add: subst_all_none per_operand_solid)
next
  case (operand t c s)
  have drop: "solid (drop k t)" for k using operand(1) by (auto simp: list_all_iff dest: in_set_dropD)
  show ?case
  proof (cases "suffix a t")
    case True
    then obtain p where t: "t = p @ a" by (auto simp: suffix_def)
    have "ways (operand_re P (Name a)) (drop k p @ a @ c # s) = []" if "k < length p" for k
      using ways_operand [OF a(1) drop [of k] operand(2), of P s] that by (simp add: t)
    moreover have "first (operand_re P (Name a)) (a @ c # s) [a @ [c]] s"
      using ways_operand [OF a(1) plain_solid [OF a(1)] operand(2)] by (simp add: first_def)
    moreover have "per_operand (mark [a]) [] ((p @ a) @ c # s) = p @ CHR 0x5C # a @ c # per_operand (mark [a]) [] s"
      using operand(1,2) by (subst per_operand_next) (auto simp: t mark_def suffix_def)
    ultimately show ?thesis using a operand(3) by (simp add: t subst_all_skips takes_operand subst_all_first)
  next
    case False
    have "ways (operand_re P (Name a)) (drop k (t @ [c]) @ s) = []" if "k < length (t @ [c])" for k
      using ways_operand [OF a(1) drop [of k] operand(2), of P s] that False by (auto simp: suffix_drop)
    then have "subst_all (operand_re P (Name a)) backslashed ((t @ [c]) @ s) = (t @ [c]) @ subst_all (operand_re P (Name a)) backslashed s"
      by (intro subst_all_skips) (auto simp: takes_operand a)
    then show ?thesis using False operand by (simp add: per_operand_next mark_def)
  qed
qed

lemma mark_Cons:
  assumes "names (a # as)"
  shows "mark as (mark [a] t) = mark (a # as) t"
proof (cases "suffix a t")
  case True
  then obtain p where t: "t = p @ a" by (auto simp: suffix_def)
  have "\<not> suffix b (p @ CHR 0x5C # a)" if "b \<in> set as" for b
  proof
    assume "suffix b (p @ CHR 0x5C # a)"
    then have "suffix b a \<or> CHR 0x5C \<in> set b" by (auto simp: suffix_append suffix_Cons)
    then show False using assms that by (auto simp: names_def plain_backslash)
  qed
  then have "find (\<lambda>b. suffix b (p @ CHR 0x5C # a)) as = None" by (simp add: find_None_iff)
  moreover have "suffix a (p @ a)" by (simp add: suffix_def)
  ultimately show ?thesis by (simp add: mark_def t)
qed (simp add: mark_def)

lemma mark_solid:
  assumes "names as" and "solid t"
  shows "solid (mark as t)"
proof (cases "find (\<lambda>a. suffix a t) as")
  case (Some a)
  then have "a \<in> set as" by (auto simp: find_Some_iff)
  then have "solid a" using assms(1) by (auto simp: names_def plain_solid)
  moreover have "\<not> separator (CHR 0x5C)" by (simp add: separator_def space_def)
  ultimately show ?thesis using Some assms(2) by (auto simp: mark_def list_all_iff dest: in_set_takeD)
qed (simp add: mark_def assms)

lemma names_Cons: "names (a # as) \<Longrightarrow> names as \<and> names [a]"
  by (auto simp: names_def)

lemma escape_names:
  assumes "names as"
  shows "escape P (map Name as) l = marks as l"
  using assms
proof (induction as arbitrary: l)
  case Nil
  have "per_operand (\<lambda>t. t) [] l = l" by (induction l rule: operand_induct) (auto simp: per_operand_solid per_operand_next)
  then show ?case by (simp add: escape_def marks_def mark_def [abs_def])
next
  case (Cons a as)
  note n = names_Cons [OF Cons.prems]
  have "escape P (map Name (a # as)) l = marks as (per_operand (mark [a]) [] l)"
    using Cons.IH n escape_one [of a P l] by (simp add: escape_def names_def)
  also have "\<dots> = per_operand (\<lambda>t. mark as (mark [a] t)) [] l"
    unfolding marks_def using n mark_solid by (intro per_operand_compose) blast
  finally show ?case by (simp add: mark_Cons [OF Cons.prems] marks_def)
qed

text \<open>
  C35. The arguments of a function in the lines of its body, if their names are words and none ends in another: the global
  substitutions, one for each argument, amount to one pass over the operands of the line, the texts between blanks and commas. An
  operand that ends in the name of an argument gets a backslash in front of that name; every other operand, the
  separators, and what follows the last separator stay as they are.
\<close>

theorem escape_marks:
  assumes "names as"
  shows "escape P (map Name as) l = marks as l"
  using assms by (rule escape_names)

theorem escape_marks_witness:
  "names [''Reg'', ''Value''] \<and>
   escape \<lparr>address = ''55d0'', interpolate = Lit\<rparr> (map Name [''Reg'', ''Value'']) (''v_mov_b32 Reg, Value'' @ newline) =
     ''v_mov_b32 '' @ CHR 0x5C # ''Reg, '' @ CHR 0x5C # ''Value'' @ newline"
proof -
  have n: "names [''Reg'', ''Value'']" by code_simp
  moreover have "marks [''Reg'', ''Value''] (''v_mov_b32 Reg, Value'' @ newline) =
      ''v_mov_b32 '' @ CHR 0x5C # ''Reg, '' @ CHR 0x5C # ''Value'' @ newline" by code_simp
  ultimately show ?thesis using escape_marks [OF n] by simp
qed

end
