(* ===== verification/Sp3_Loop.thy ===== *)
theory Sp3_Loop
  imports Sp3_To_Mc
begin

text \<open>
  The for loop of sp3, which the converter runs: the values that it lists, and when it comes to its end.
\<close>

section \<open>Numerals\<close>

lemma digits_value_snoc: "digits_value (w @ [c]) = 10 * digits_value w + (of_char c - 48)"
  by (simp add: digits_value_def)

lemma digit_of: "n < 10 \<Longrightarrow> digit (char_of (48 + n :: nat))"
  by (simp add: digit_def)

lemma decimal_digits: "decimal n \<noteq> [] \<and> list_all digit (decimal n)"
  by (induction n rule: decimal.induct) (subst (1 2) decimal.simps, auto simp: digit_of)

lemma digits_value_decimal: "digits_value (decimal n) = n"
proof (induction n rule: decimal.induct)
  case (1 n)
  show ?case
  proof (cases "n < 10")
    case True
    then show ?thesis by (subst decimal.simps) (simp add: digits_value_def)
  next
    case False
    then show ?thesis using 1 by (subst decimal.simps) (simp add: digits_value_snoc)
  qed
qed

lemma not_letter: "digit c \<Longrightarrow> lower c = c \<and> c \<notin> {CHR ''i'', CHR ''n''}"
  by (auto simp: digit_def lower_def Let_def)

lemma number_decimal [simp]: "fits n \<Longrightarrow> number (decimal n) = Some n"
proof -
  obtain c w where d: "decimal n = c # w" "digit c" and all: "takeWhile digit (c # w) = c # w" "dropWhile digit (c # w) = []"
    using decimal_digits [of n]
    by (cases "decimal n") (auto simp: takeWhile_eq_all_conv [THEN iffD2] dropWhile_eq_Nil_conv [THEN iffD2] list_all_iff)
  have "\<not> floating (c # w)" using not_letter [OF d(2)] all by (auto simp: floating_def)
  then show "fits n \<Longrightarrow> number (decimal n) = Some n"
    using digits_value_decimal [of n] all unfolding d(1) by (simp add: number_def)
qed

lemma decimal_plain: "plain_word (decimal n)"
  using decimal_digits [of n] by (auto simp: plain_word_def list_all_iff digit_def word_def Let_def)

section \<open>The values\<close>

text \<open>How often the loop runs.\<close>

definition rounds :: "nat \<Rightarrow> nat \<Rightarrow> nat \<Rightarrow> nat" where
  "rounds v limit incr = (limit - v + incr - 1) div incr"

definition listed :: "(nat \<Rightarrow> nat) \<Rightarrow> nat list \<Rightarrow> string" where
  "listed f ks = concat (map (\<lambda>k. '','' @ decimal (f k)) ks)"

lemma listed_simps [simp]:
  "listed f [] = []" "listed f (k # ks) = '','' @ decimal (f k) @ listed f ks"
  by (simp_all add: listed_def)

lemma listed_Suc: "listed f [Suc 0..<Suc n] = listed (\<lambda>k. f (Suc k)) [0..<n]"
  by (simp only: listed_def map_Suc_upt [symmetric] map_map comp_def)

lemma rounds_end: "limit \<le> v \<Longrightarrow> rounds v limit incr = 0"
  by (cases incr) (simp_all add: rounds_def)

lemma rounds_next: "v < limit \<Longrightarrow> 0 < incr \<Longrightarrow> rounds v limit incr = Suc (rounds (v + incr) limit incr)"
proof -
  assume v: "v < limit" "0 < incr"
  show ?thesis
  proof (cases "v + incr \<le> limit")
    case True
    have "limit - v + incr - 1 = (limit - (v + incr) + incr - 1) + incr" using True v by linarith
    then show ?thesis unfolding rounds_def using v(2) by (metis Suc_eq_plus1 div_add_self2 less_numeral_extra(3))
  next
    case False
    obtain e where e: "limit = v + Suc e" using less_imp_Suc_add [OF v(1)] by auto
    then have "e < incr" using False by simp
    then have "(e + incr) div incr = 1" using v(2) by (simp add: div_add_self2)
    moreover have "limit - v + incr - 1 = e + incr" using e by simp
    ultimately have "(limit - v + incr - 1) div incr = 1" by simp
    then show ?thesis using False v by (simp add: rounds_def rounds_end)
  qed
qed

text \<open>The values are those below the limit.\<close>

lemma rounds_iff: "0 < incr \<Longrightarrow> k < rounds v limit incr \<longleftrightarrow> v + k * incr < limit"
proof (induction k arbitrary: v)
  case 0
  then show ?case by (cases "v < limit") (auto simp: rounds_next rounds_end)
next
  case (Suc k)
  then show ?case by (cases "v < limit") (auto simp: rounds_next rounds_end add.assoc)
qed

lemma for_values_stuck: "for_values v limit 0 = Some s \<Longrightarrow> limit \<le> v"
proof -
  have "incr = 0 \<longrightarrow> limit \<le> v" if "for_values v limit incr = Some s" for incr
    using that by (rule for_values.raw_induct [where P = "\<lambda>v limit incr s. incr = 0 \<longrightarrow> limit \<le> v", rotated]) (auto split: if_splits Option.bind_splits, metis add_0_right gr0I not_less)
  then show "for_values v limit 0 = Some s \<Longrightarrow> limit \<le> v" by blast
qed

lemma for_values_listed: "0 < incr \<Longrightarrow> for_values v limit incr = Some (listed (\<lambda>k. v + k * incr) [0..<rounds v limit incr])"
proof (induction "limit - v" arbitrary: v rule: less_induct)
  case less
  show ?case
  proof (cases "v < limit")
    case True
    have "for_values (v + incr) limit incr = Some (listed (\<lambda>k. v + incr + k * incr) [0..<rounds (v + incr) limit incr])"
      using less True by auto
    then show ?thesis using True less.prems
      by (subst for_values.simps) (simp add: rounds_next upt_conv_Cons listed_Suc add.assoc del: upt_Suc)
  next
    case False
    then show ?thesis by (subst for_values.simps) (simp add: rounds_end)
  qed
qed

lemma for_line_values:
  assumes "number first_value = Some v" and "number limit = Some l" and "number incr = Some d"
  shows "for_line [x, first_value, y, limit, z, incr] =
     (if v < l \<and> d = 0 then Endless
      else Done (''.irp '' @ x @ (if v < l then '','' @ first_value else []) @ listed (\<lambda>k. v + k * d) [1..<rounds v l d] @ newline))"
proof (cases "v < l")
  case True
  show ?thesis
  proof (cases "d = 0")
    case True
    have "for_values v l 0 = None" using for_values_stuck [of v l] \<open>v < l\<close> by (cases "for_values v l 0") auto
    then show ?thesis using assms \<open>v < l\<close> True by (simp add: for_line_def)
  next
    case False
    then show ?thesis using assms True by (simp add: for_line_def for_values_listed rounds_next listed_Suc add.assoc del: upt_Suc)
  qed
qed (use assms in \<open>simp add: for_line_def rounds_end\<close>)



text \<open>Words that are floating point numbers.\<close>

lemma floating_words: "map number [''inf'', ''Infinity'', ''NaN'', ''1e3'', ''20000000000000000000''] = [None, None, None, None, None]"
proof -
  have "number ''inf'' = None" "number ''Infinity'' = None" "number ''NaN'' = None" "number ''1e3'' = None" by code_simp+
  moreover have "takeWhile digit ''20000000000000000000'' = ''20000000000000000000''" by code_simp
  moreover have "digits_value ''20000000000000000000'' = 20000000000000000000" by (simp add: digits_value_def)
  ultimately show ?thesis by (simp add: number_def fits_def)
qed

end
