(* ===== verification/Sp3_Lines.thy ===== *)
theory Sp3_Lines
  imports Sp3_Args Sp3_Loop
begin

text \<open>
  What each step of the converter does to the lines that a structured source is made of, and that the backslashes put
  in by the escaping neither hide nor make a keyword.
\<close>

section \<open>Backslashes\<close>

inductive marked :: "string \<Rightarrow> string \<Rightarrow> bool" where
  marked_Nil: "marked [] []"
| marked_Cons: "marked l m \<Longrightarrow> marked (c # l) (c # m)"
| marked_insert: "marked l m \<Longrightarrow> marked l (CHR 0x5C # m)"

inductive_cases marked_NilE: "marked l []"
inductive_cases marked_ConsE: "marked l (c # m)"

lemma marked_refl: "marked l l"
  by (induction l) (auto intro: marked.intros)

lemma marked_append: "marked l1 m1 \<Longrightarrow> marked l2 m2 \<Longrightarrow> marked (l1 @ l2) (m1 @ m2)"
  by (induction rule: marked.induct) (auto intro: marked.intros)

lemma marked_split: "marked l (m1 @ m2) \<Longrightarrow> \<exists>l1 l2. l = l1 @ l2 \<and> marked l1 m1 \<and> marked l2 m2"
proof (induction m1 arbitrary: l)
  case Nil
  then show ?case by (auto intro: marked_Nil)
next
  case (Cons c m1)
  from Cons.prems show ?case
    by (auto elim!: marked_ConsE dest!: Cons.IH) (metis append_Cons marked_Cons, metis marked_insert)
qed

lemma marked_clean: "marked l m \<Longrightarrow> CHR 0x5C \<notin> set m \<Longrightarrow> l = m"
  by (induction rule: marked.induct) auto

lemma marked_set: "marked l m \<Longrightarrow> set l \<subseteq> set m"
  by (induction rule: marked.induct) auto

lemma marked_set2: "marked l m \<Longrightarrow> set m \<subseteq> insert (CHR 0x5C) (set l)"
  by (induction rule: marked.induct) auto

text \<open>Patterns that a backslash cannot be part of, but for repetitions that may be empty.\<close>

primrec unslashed :: "re \<Rightarrow> bool" where
  "unslashed (Lit w) \<longleftrightarrow> CHR 0x5C \<notin> set w"
| "unslashed (One p) \<longleftrightarrow> \<not> p (CHR 0x5C)"
| "unslashed (Many n p) \<longleftrightarrow> n = 0 \<or> \<not> p (CHR 0x5C)"
| "unslashed (Seq r1 r2) \<longleftrightarrow> unslashed r1 \<and> unslashed r2"
| "unslashed (Group r) \<longleftrightarrow> unslashed r"
| "unslashed Line_end \<longleftrightarrow> True"

lemma spells_marked:
  "spells r t u cs \<Longrightarrow> unslashed r \<Longrightarrow> marked l t \<Longrightarrow> marked v u \<Longrightarrow> \<exists>ds. spells r l v ds"
proof (induction arbitrary: l v rule: spells.induct)
  case (spells_Lit w u)
  then have "l = w" using marked_clean by auto
  then show ?case by (blast intro: spells.spells_Lit)
next
  case (spells_One p c u)
  then have "l = [c]" using marked_clean by fastforce
  then show ?case using spells_One by (blast intro: spells.spells_One)
next
  case (spells_Many n t p u)
  show ?case
  proof (cases "n = 0")
    case True
    then have "spells (Many n p) l v []" using spells_Many marked_set [of l t] by (auto intro!: spells.spells_Many simp: list_all_iff subset_iff)
    then show ?thesis ..
  next
    case False
    then have "CHR 0x5C \<notin> set t" using spells_Many by (auto simp: list_all_iff)
    then have "l = t" using spells_Many marked_clean by blast
    then show ?thesis using spells_Many by (blast intro: spells.spells_Many)
  qed
next
  case (spells_Seq r1 t1 t2 u c1 r2 c2)
  obtain l1 l2 where l: "l = l1 @ l2" "marked l1 t1" "marked l2 t2"
    using marked_split [OF spells_Seq.prems(2)] by (elim exE conjE)
  have "marked (l2 @ v) (t2 @ u)" using spells_Seq.prems(3) l(3) by (rule marked_append [rotated])
  then obtain d1 where d1: "spells r1 l1 (l2 @ v) d1" using spells_Seq.IH(1) spells_Seq.prems(1) l(2) by auto
  obtain d2 where "spells r2 l2 v d2" using spells_Seq.IH(2) spells_Seq.prems(1,3) l(3) by auto
  with d1 show ?case unfolding l(1) by (blast intro: spells.spells_Seq)
next
  case (spells_Group r t u cs)
  then obtain ds where "spells r l v ds" by auto
  then show ?case by (blast intro: spells.spells_Group)
next
  case (spells_end u)
  then have "l = []" "v = u" by (auto elim: marked_NilE dest: marked_clean)
  then show ?case using spells_end by (blast intro: spells.spells_end)
qed

lemma matches_marked: "matches r m \<Longrightarrow> unslashed r \<Longrightarrow> marked l m \<Longrightarrow> matches r l"
  unfolding matches_iff by (elim exE conjE) (metis marked_split spells_marked)

lemma mark_marked: "marked t (mark as t)"
proof (cases "find (\<lambda>a. suffix a t) as")
  case (Some a)
  then have "suffix a t" by (auto simp: find_Some_iff)
  then obtain p where "t = p @ a" by (auto simp: suffix_def)
  then show ?thesis using Some by (auto simp: mark_def intro!: marked_append marked_insert marked_refl)
qed (simp add: mark_def marked_refl)

lemma marks_marked: "marked l (marks as l)"
  unfolding marks_def
proof (induction l rule: operand_induct)
  case (operand u c s)
  then show ?case by (auto simp: per_operand_next intro!: marked_append mark_marked marked_Cons)
qed (simp add: per_operand_solid marked_refl)

lemma marks_next: "solid u \<Longrightarrow> separator c \<Longrightarrow> marks as (u @ c # s) = mark as u @ c # marks as s"
  by (simp add: marks_def per_operand_next)

lemma marks_solid: "solid u \<Longrightarrow> marks as u = u"
  by (simp add: marks_def per_operand_solid)

lemma marks_nil [simp]: "marks [] l = l"
proof (induction l rule: operand_induct)
  case (operand u c s)
  then show ?case by (simp add: marks_next mark_def)
qed (simp add: marks_solid)

text \<open>Separators, and operands that end in no name, are passed over.\<close>

lemma mark_other: "\<forall>a\<in>set as. \<not> suffix a t \<Longrightarrow> mark as t = t"
  by (auto simp: mark_def find_Some_iff split: option.splits)

lemma names_suffix: "names as \<Longrightarrow> a \<in> set as \<Longrightarrow> suffix a (t @ [c]) \<Longrightarrow> word c"
  by (auto simp: names_def plain_word_def suffix_def list_all_iff) (metis last_in_set last_appendR last_snoc)

lemma marks_other: "solid u \<Longrightarrow> separator c \<Longrightarrow> \<forall>a\<in>set as. \<not> suffix a u \<Longrightarrow> marks as (u @ c # s) = u @ c # marks as s"
  by (simp add: marks_next mark_other)

abbreviation blanks :: "nat \<Rightarrow> string" where
  "blanks i \<equiv> replicate i (CHR '' '')"

lemma separator_blank: "separator (CHR '' '')"
  by (simp add: separator_def space_def)

lemma separator_newline: "separator (CHR 0x0A)"
  by (simp add: separator_def space_def)

lemma marks_blanks: "names as \<Longrightarrow> marks as (blanks i @ s) = blanks i @ marks as s"
proof (induction i)
  case (Suc i)
  have "\<forall>a\<in>set as. \<not> suffix a []" using Suc.prems by (auto simp: names_def)
  then show ?case using Suc marks_other [of "[]" "CHR '' ''" as "blanks i @ s"] separator_blank by simp
qed simp

text \<open>What follows an opening bracket is an operand of its own, and a closing bracket hides the last one.\<close>

lemma marks_bracket:
  assumes n: "names as" and u: "solid u" "\<not> word c" "\<not> separator c"
  shows "marks as (u @ c # s) = u @ c # marks as s"
proof (induction s rule: operand_induct)
  case (solid s)
  then show ?case using u by (simp add: marks_solid)
next
  case (operand v d s)
  have s: "solid (u @ c # v)" using u operand by simp
  have "mark as (u @ c # v) = u @ c # mark as v"
  proof (cases "find (\<lambda>a. suffix a v) as")
    case None
    have "\<not> suffix a (u @ c # v)" if a: "a \<in> set as" for a
    proof
      assume "suffix a (u @ c # v)"
      moreover have "\<not> suffix a v" using None a by (auto simp: find_None_iff)
      ultimately have "c \<in> set a \<or> a = []" by (auto simp: suffix_append suffix_Cons)
      then show False using n a u by (auto simp: names_def plain_word_def list_all_iff)
    qed
    then show ?thesis using None by (simp add: mark_other) (simp add: mark_def)
  next
    case (Some a)
    have "suffix b (u @ c # v) \<longleftrightarrow> suffix b v" if b: "b \<in> set as" for b
    proof -
      have "c \<notin> set b" "b \<noteq> []" using n b u by (auto simp: names_def plain_word_def list_all_iff)
      then show ?thesis by (auto simp: suffix_append suffix_Cons)
    qed
    then have "find (\<lambda>a. suffix a (u @ c # v)) as = Some a" using Some by (simp cong: find_cong)
    moreover have "suffix a v" using Some by (auto simp: find_Some_iff)
    then have "take (length (u @ c # v) - length a) (u @ c # v) = u @ c # take (length v - length a) v"
      by (auto simp: suffix_def)
    ultimately show ?thesis using Some by (simp add: mark_def)
  qed
  then show ?case using marks_next [OF s operand(2)] marks_next [OF operand(1,2)] by simp
qed

lemma marks_closed:
  assumes n: "names as" and c: "\<not> word c" "\<not> separator c" and d: "separator d"
  shows "marks as (s @ [c, d]) = marks as s @ [c, d]"
proof (induction s rule: operand_induct)
  case (solid u)
  then have "solid (u @ [c])" using c by simp
  moreover have "\<forall>a\<in>set as. \<not> suffix a (u @ [c])" using n c names_suffix by blast
  ultimately show ?case using marks_other [of "u @ [c]" d as "[]"] d solid by (simp add: marks_solid)
next
  case (operand u e s)
  then show ?case by (simp add: marks_next)
qed

section \<open>Matching the lines\<close>

lemma first_Seq_Lit: "first r s cs u \<Longrightarrow> first (Seq (Lit w) r) (w @ s) cs u"
  using first_Seq [OF first_Lit] by fastforce

lemma first_Seq_Many:
  "first r s cs u \<Longrightarrow> n \<le> length t \<Longrightarrow> list_all p t \<Longrightarrow> s = [] \<or> \<not> p (hd s) \<Longrightarrow> first (Seq (Many n p) r) (t @ s) cs u"
  using first_Seq [OF first_Many] by fastforce

lemma first_Seq_Group:
  "first r s cs u \<Longrightarrow> n \<le> length t \<Longrightarrow> list_all p t \<Longrightarrow> s = [] \<or> \<not> p (hd s) \<Longrightarrow>
    first (Seq (Group (Many n p)) r) (t @ s) (t # cs) u"
  using first_Seq [OF first_Group [OF first_Many]] by fastforce

lemma first_Group_Many:
  "n \<le> length t \<Longrightarrow> list_all p t \<Longrightarrow> u = [] \<or> \<not> p (hd u) \<Longrightarrow> first (Group (Many n p)) (t @ u) [t] u"
  using first_Group [OF first_Many] by fastforce

lemma first_Seq_none: "first r s cs u \<Longrightarrow> s = [] \<or> \<not> p (hd s) \<Longrightarrow> first (Seq (Many 0 p) r) s cs u"
  using first_Seq_Many [of r s cs u 0 "[]" p] by simp

lemmas first_intros = first_Seq_Lit first_Seq_Group first_Seq_Many first_Group_Many first_end

lemma plain_words: "plain_word n \<longleftrightarrow> list_all word n"
  by (simp add: plain_word_def)

lemma not_word [simp]: "\<not> word (CHR '' '')" "\<not> word (CHR '';'')" "\<not> word (CHR 0x0A)" "\<not> word (CHR ''('')"
    "\<not> word (CHR '')'')" "\<not> word (CHR '','')" "\<not> word (CHR ''='')" "\<not> word (CHR 0x5C)"
  by (simp_all add: word_def)

lemma not_space [simp]: "word c \<Longrightarrow> \<not> space c" "\<not> space (CHR ''('')" "\<not> space (CHR ''='')" "space (CHR '' '')"
  by (auto simp: word_def space_def Let_def)

lemma first_for:
  assumes "plain_word v" "v \<noteq> []" "plain_word y" "y \<noteq> []" "plain_word z" "z \<noteq> []"
  shows "first for_re (''for var '' @ v @ '' = '' @ decimal a @ ''; '' @ y @ '' < '' @ decimal l @ ''; '' @ z @ '' += '' @
    decimal d @ newline) [v, decimal a, y, decimal l, z, decimal d] newline"
  unfolding for_re_def using assms decimal_plain decimal_digits
  by (simp only: seqs_unfold)
    ((rule first_intros)+, auto simp: plain_words Suc_le_eq)

lemma first_var:
  assumes "plain_word n" "n \<noteq> []" "e \<noteq> []" "\<not> space (hd e)" "CHR 0x0A \<notin> set e"
  shows "first var_re (''var'' @ '' '' @ n @ '' '' @ ''='' @ '' '' @ e @ newline) ['' '', n, '' '', '' '', e] newline"
  unfolding var_re_def using assms
  by (simp only: seqs_unfold)
    ((rule first_intros)+, auto simp: plain_words Suc_le_eq list_all_iff dot_def neq_Nil_conv)

lemma first_call:
  assumes "plain_word n" "n \<noteq> []" "CHR 0x0A \<notin> set x"
  shows "first call_re (n @ ''('' @ x @ CHR '')'' # newline) [n, x] newline"
proof -
  have "first (Seq (Group (Many 0 dot)) (Lit '')'')) (x @ CHR '')'' # newline) [x] newline"
    using assms(3) by (intro ways_Many_Lit) (auto simp: list_all_iff dot_def)
  then show ?thesis unfolding call_re_def using assms
    by (simp only: seqs_unfold) (rule first_Seq_Group [OF first_Seq_Lit], auto simp: plain_words Suc_le_eq)
qed

lemma first_function:
  assumes "plain_word n" "n \<noteq> []" "CHR 0x0A \<notin> set x"
  shows "first function_re (''function'' @ '' '' @ n @ ''('' @ x @ CHR '')'' # newline) [n, x] newline"
proof -
  have "first (Seq (Group (Many 0 dot)) (Lit '')'')) (x @ CHR '')'' # newline) [x] newline"
    using assms(3) by (intro ways_Many_Lit) (auto simp: list_all_iff dot_def)
  then have "first (Seq (Many 0 space) (Seq (Lit ''('') (Seq (Group (Many 0 dot)) (Lit '')'')))) (''('' @ x @ CHR '')'' # newline) [x] newline"
    by (intro first_Seq_none first_Seq_Lit) auto
  then show ?thesis unfolding function_re_def using assms
    by (simp only: seqs_unfold) (rule first_Seq_Lit [OF first_Seq_Many [OF first_Seq_Group]], auto simp: plain_words Suc_le_eq neq_Nil_conv)
qed

lemma no_char: "w \<in> literals r \<Longrightarrow> c \<in> set w \<Longrightarrow> c \<notin> set l \<Longrightarrow> \<not> matches r l"
  by (rule no_match) (auto simp: sublist_def)

lemma matches_end: "matches end_re (l @ newline) \<longleftrightarrow> suffix ''end'' l"
proof
  assume "matches end_re (l @ newline)"
  then obtain b t u where *: "l @ newline = b @ t @ ''end'' @ u" "u \<in> {[], newline}"
    by (auto simp: matches_iff end_re_def elim!: spells_SeqE spells_GroupE spells_LitE spells_endE)
  then have "u = newline" using arg_cong [OF *(1), of last] by auto
  then show "suffix ''end'' l" using * by (auto simp: suffix_def)
next
  assume "suffix ''end'' l"
  then obtain b where "l = b @ ''end''" by (auto simp: suffix_def)
  moreover have "spells end_re ([] @ ''end'' @ []) newline ([[]] @ [] @ [])"
    unfolding end_re_def seqs_unfold
    by (intro spells_Seq spells_Group spells_Many spells_Lit spells_end) auto
  ultimately have "l @ newline = b @ ''end'' @ newline \<and> spells end_re ''end'' newline [[]]" by simp
  then show "matches end_re (l @ newline)" unfolding matches_iff by blast
qed

end
