(* ===== verification/Sp3_Program.thy ===== *)
theory Sp3_Program
  imports Sp3_Lines
begin

text \<open>
  Structured sp3 sources, and that the converter, which only looks at one line after the other, translates them block
  by block.
\<close>

section \<open>Sources and their translation\<close>

text \<open>The numbers in front are the blanks that a line is indented by; the text of a \<open>Line\<close> is given with its own. A loop names its
  variable three times, and the converter takes the first.\<close>

datatype stmt =
    Line string
  | Var nat string string
  | Call nat string string
  | Cond nat string "stmt list"
  | Cond_else nat string "stmt list" "stmt list"
  | Loop nat string nat string nat string nat "stmt list"
  | Func nat string "string list" "stmt list"

abbreviation line_of :: "nat \<Rightarrow> string \<Rightarrow> string" where
  "line_of i l \<equiv> blanks i @ l @ newline"

primrec source :: "stmt \<Rightarrow> string list" where
  "source (Line l) = [l @ newline]"
| "source (Var i n e) = [line_of i (''var '' @ n @ '' = '' @ e)]"
| "source (Call i n x) = [line_of i (n @ ''('' @ x @ '')'')]"
| "source (Cond i c b) = line_of i (''if '' @ c) # concat (map source b) @ [line_of i ''end'']"
| "source (Cond_else i c b1 b2) =
     line_of i (''if '' @ c) # concat (map source b1) @ line_of i ''else '' # concat (map source b2) @ [line_of i ''end'']"
| "source (Loop i v a y l z d b) =
     line_of i (''for var '' @ v @ '' = '' @ decimal a @ ''; '' @ y @ '' < '' @ decimal l @ ''; '' @ z @ '' += '' @ decimal d) #
     concat (map source b) @ [line_of i ''end'']"
| "source (Func i n ps b) = line_of i (''function '' @ n @ ''('' @ commas ps @ '')'') # concat (map source b) @ [line_of i ''end'']"

text \<open>The translation, with the names of the arguments of the function around.\<close>

primrec target :: "stmt \<Rightarrow> string list \<Rightarrow> string" where
  "target (Line l) as = marks as (l @ newline)"
| "target (Var i n e) as = marks as (line_of i (''.set '' @ n @ '' , '' @ e))"
| "target (Call i n x) as = line_of i (n @ '' '' @ marks as x)"
| "target (Cond i c b) as = blanks i @ ''.if '' @ marks as (c @ newline) @ concat (map (\<lambda>s. target s as) b) @ line_of i ''.endif''"
| "target (Cond_else i c b1 b2) as =
     blanks i @ ''.if '' @ marks as (c @ newline) @ concat (map (\<lambda>s. target s as) b1) @ line_of i ''.else '' @
     concat (map (\<lambda>s. target s as) b2) @ line_of i ''.endif''"
| "target (Loop i v a y l z d b) as =
     ''.irp '' @ v @ listed (\<lambda>k. a + k * d) [0..<rounds a l d] @ newline @ concat (map (\<lambda>s. target s as) b) @ line_of i ''.endr''"
| "target (Func i n ps b) as =
     line_of i (''.macro '' @ n @ '' '' @ commas ps) @ concat (map (\<lambda>s. target s ps) b) @ line_of i ''.endm''"

text \<open>
  What is asked of a source: the text of a line contains no other construct, the names are words, a loop ends, functions
  are not nested, and no argument has a name that a keyword of its body ends in.
\<close>

definition usable :: "string list \<Rightarrow> bool" where
  "usable as \<longleftrightarrow> names as \<and> (\<forall>a\<in>set as. \<forall>w\<in>{''.if'', ''else'', ''end''}. \<not> suffix a w)"

definition name_ok :: "string \<Rightarrow> bool" where
  "name_ok n \<longleftrightarrow> plain_word n \<and> n \<noteq> []"

definition none_of :: "re list \<Rightarrow> string \<Rightarrow> bool" where
  "none_of rs l \<longleftrightarrow> list_all (\<lambda>r. \<not> matches r l) rs"

abbreviation array :: re where
  "array \<equiv> Lit ''ARRAY''"

abbreviation after :: "re list" where
  "after \<equiv> [Lit ''else '', end_re, call_re]"

primrec convertible :: "stmt \<Rightarrow> string list \<Rightarrow> bool" where
  "convertible (Line l) as \<longleftrightarrow> none_of ([for_re, var_re, Lit ''if '', function_re, array] @ after) (l @ newline)"
| "convertible (Var i n e) as \<longleftrightarrow> name_ok n \<and> e \<noteq> [] \<and> \<not> space (hd e) \<and> CHR 0x0A \<notin> set e \<and>
     none_of [for_re] (line_of i (''var '' @ n @ '' = '' @ e)) \<and>
     none_of ([Lit ''if '', function_re, array] @ after) (line_of i (''.set '' @ n @ '' , '' @ e))"
| "convertible (Call i n x) as \<longleftrightarrow> name_ok n \<and> CHR 0x0A \<notin> set x \<and>
     none_of [for_re, var_re, Lit ''if '', function_re, array, Lit ''else ''] (line_of i (n @ ''('' @ x @ '')''))"
| "convertible (Cond i c b) as \<longleftrightarrow> none_of [for_re, var_re] (line_of i (''if '' @ c)) \<and> none_of [Lit ''if ''] (c @ newline) \<and>
     none_of ([function_re, array] @ after) (line_of i (''.if '' @ c)) \<and> list_all (\<lambda>s. convertible s as) b"
| "convertible (Cond_else i c b1 b2) as \<longleftrightarrow> none_of [for_re, var_re] (line_of i (''if '' @ c)) \<and> none_of [Lit ''if ''] (c @ newline) \<and>
     none_of ([function_re, array] @ after) (line_of i (''.if '' @ c)) \<and> list_all (\<lambda>s. convertible s as) b1 \<and> list_all (\<lambda>s. convertible s as) b2"
| "convertible (Loop i v a y l z d b) as \<longleftrightarrow> name_ok v \<and> name_ok y \<and> name_ok z \<and> (a < l \<longrightarrow> 0 < d) \<and>
     fits a \<and> fits l \<and> fits d \<and> list_all (\<lambda>s. convertible s as) b"
| "convertible (Func i n ps b) as \<longleftrightarrow> as = [] \<and> name_ok n \<and> usable ps \<and>
     none_of [Lit ''if ''] (line_of i (''function '' @ n @ ''('' @ commas ps @ '')'')) \<and>
     none_of [Lit ''else '', end_re] (line_of i (''.macro '' @ n @ '' '' @ commas ps)) \<and> list_all (\<lambda>s. convertible s ps) b"

section \<open>One line\<close>

text \<open>The state inside a function with these arguments, or outside of all functions.\<close>

definition in_scope :: "perl \<Rightarrow> string list \<Rightarrow> sp3 \<Rightarrow> bool" where
  "in_scope P as s \<longleftrightarrow> usable as \<and> (args s = map Name as \<or> as = [] \<and> args s = [Array_ref (address P)])"

lemma none_of_Cons [simp]: "none_of [] l" "none_of (r # rs) l \<longleftrightarrow> \<not> matches r l \<and> none_of rs l"
  by (simp_all add: none_of_def)

lemma usable_names: "usable as \<Longrightarrow> names as"
  by (simp add: usable_def)

lemma in_scope_escape:
  assumes "in_scope P as s" and "\<not> matches array l"
  shows "escape P (args s) l = marks as l"
proof -
  have "escape P [Array_ref h] l = l" for h
  proof -
    have "\<not> matches (operand_re P (Array_ref h)) l"
      using assms(2) no_match [of "''ARRAY''" "operand_re P (Array_ref h)" l] by (simp add: matches_Lit operand_re_def)
    then show ?thesis by (simp add: escape_def subst_all_none)
  qed
  then show ?thesis using assms(1) escape_names by (auto simp: in_scope_def usable_def)
qed

text \<open>What is done after the escaping.\<close>

definition after_escape :: "perl \<Rightarrow> string \<Rightarrow> sp3 \<Rightarrow> (string \<times> sp3) outcome" where
  "after_escape P l s = (let (l, s) = end_step P (else_step l) s in Done (call_step l, s))"

lemma convert_line_step:
  "\<not> matches for_re l \<Longrightarrow>
    convert_line P l s = (let (l, s) = if_step (var_step l) s; (l, s) = function_step P l s in after_escape P l s)"
  by (auto simp: convert_line_def after_escape_def matches_def Let_def split: prod.splits option.splits)

lemma after_escape_none: "none_of after l \<Longrightarrow> after_escape P l s = Done (l, s)"
  by (simp add: after_escape_def else_step_def end_step_def call_step_def subst_all_none)

lemma unslashed_after: "unslashed (Lit ''else '')" "unslashed end_re" "unslashed call_re"
  by (simp_all add: end_re_def call_re_def seqs_unfold)

lemma marks_matches: "\<not> matches r l \<Longrightarrow> unslashed r \<Longrightarrow> \<not> matches r (marks as l)"
  using matches_marked [OF _ _ marks_marked] by blast

lemma var_none: "\<not> matches var_re l \<Longrightarrow> var_step l = l"
  by (simp add: var_step_def subst_all_none)

lemma if_none: "\<not> matches (Lit ''if '') l \<Longrightarrow> if_step l s = (l, s)"
  by (simp add: if_step_def)

lemma function_none: "\<not> matches function_re l \<Longrightarrow> function_step P l s = (escape P (args s) l, s)"
  by (simp add: function_step_def matches_def del: not_None_eq)

lemmas none_steps = convert_line_step var_none if_none function_none in_scope_escape after_escape_none marks_matches unslashed_after

lemma convert_plain: "convertible (Line l) as \<Longrightarrow> in_scope P as s \<Longrightarrow> convert_line P (l @ newline) s = Done (marks as (l @ newline), s)"
  by (simp add: none_steps)

text \<open>Passing the indentation and what is left of the line.\<close>

lemma pass_blanks:
  assumes "takes r" and "\<not> begins r (CHR '' '')"
  shows "subst_all r f (blanks i @ l) = blanks i @ subst_all r f l"
    and "search r (blanks i @ l) = map_option (\<lambda>(b, x). (blanks i @ b, x)) (search r l)"
    and "subst_first r f (blanks i @ l) = blanks i @ subst_first r f l"
  using assms by (auto intro!: subst_all_blanks search_blanks subst_first_blanks simp: list_all_iff)

lemma begin_literals:
  "takes for_re" "takes var_re" "takes function_re" "takes call_re"
  "\<not> begins for_re (CHR '' '')" "\<not> begins var_re (CHR '' '')" "\<not> begins function_re (CHR '' '')" "\<not> begins call_re (CHR '' '')"
  by (simp_all add: for_re_def var_re_def function_re_def call_re_def seqs_unfold)

lemma literals_of:
  "''for var '' \<in> literals for_re" "''; '' \<in> literals for_re" "''var'' \<in> literals var_re" "''='' \<in> literals var_re"
  "''function'' \<in> literals function_re" "''('' \<in> literals function_re" "''('' \<in> literals call_re" "''end'' \<in> literals end_re"
  by (simp_all add: for_re_def var_re_def function_re_def call_re_def end_re_def seqs_unfold)

lemma newline_none: "\<not> matches var_re newline" "\<not> matches function_re newline" "\<not> matches call_re newline"
  "\<not> matches (Lit ''end'') newline" "\<not> matches (Lit ''if '') newline" "\<not> matches (Lit ''else '') newline"
  using literals_of(3,5,7) [THEN no_match, of newline] by (simp_all add: matches_Lit sublist_Cons_right)

lemma convert_var:
  assumes "convertible (Var i n e) as" and "in_scope P as s"
  shows "convert_line P (line_of i (''var '' @ n @ '' = '' @ e)) s = Done (target (Var i n e) as, s)"
proof -
  have "first var_re (''var '' @ n @ '' = '' @ e @ newline) ['' '', n, '' '', '' '', e] newline"
    using first_var [of n e] assms(1) by (simp add: name_ok_def)
  then have "var_step (line_of i (''var '' @ n @ '' = '' @ e)) = line_of i (''.set '' @ n @ '' , '' @ e)"
    by (simp add: var_step_def pass_blanks begin_literals subst_all_first subst_all_none newline_none)
  then show ?thesis using assms by (simp add: none_steps)
qed

lemma convert_call:
  assumes "convertible (Call i n x) as" and "in_scope P as s"
  shows "convert_line P (line_of i (n @ ''('' @ x @ '')'')) s = Done (target (Call i n x) as, s)"
proof -
  let ?l = "line_of i (n @ ''('' @ x @ '')'')" and ?m = "line_of i (n @ ''('' @ marks as x @ '')'')"
  have as: "names as" using assms(2) by (simp add: in_scope_def usable_def)
  have n: "plain_word n" "n \<noteq> []" and x: "CHR 0x0A \<notin> set x" using assms(1) by (auto simp: name_ok_def)
  have closed: "marks as (x @ CHR '')'' # newline) = marks as x @ CHR '')'' # newline"
    using as separator_newline by (intro marks_closed) (simp_all add: separator_def space_def)
  have "marks as ?l = blanks i @ marks as (n @ CHR ''('' # x @ CHR '')'' # newline)"
    using as by (simp add: marks_blanks)
  also have "\<dots> = ?m"
    using marks_bracket [OF as plain_solid [OF n(1)], of "CHR ''(''"] closed by (simp add: separator_def space_def)
  finally have m: "marks as ?l = ?m" .
  have "CHR 0x0A \<notin> set (marks as x)" using x marked_set2 [OF marks_marked, of as x] by auto
  then have "first call_re (n @ ''('' @ marks as x @ CHR '')'' # newline) [n, marks as x] newline"
    using n by (intro first_call)
  then have "call_step ?m = target (Call i n x) as"
    by (simp add: call_step_def pass_blanks begin_literals subst_all_first subst_all_none newline_none)
  moreover have "\<not> matches end_re ?m"
    using matches_end [of "blanks i @ n @ ''('' @ marks as x @ '')''"] by (simp add: suffix_def)
  moreover have "\<not> matches (Lit ''else '') ?m"
    using assms(1) marks_matches [of "Lit ''else ''" ?l as, unfolded m] unslashed_after(1) by simp
  ultimately have "after_escape P ?m s = Done (target (Call i n x) as, s)"
    by (simp add: after_escape_def else_step_def end_step_def subst_all_none)
  then show ?thesis using assms m by (simp add: none_steps)
qed

text \<open>Keywords at the front of a line are not escaped.\<close>

lemma marks_keyword:
  assumes "usable as" and "w \<in> {''.if'', ''else'', ''end''}" and "separator c"
  shows "marks as (blanks i @ w @ c # l) = blanks i @ w @ c # marks as l"
proof -
  have "solid w" using assms(2) by (auto simp: separator_def space_def)
  moreover have "\<forall>a\<in>set as. \<not> suffix a w" using assms(1,2) by (auto simp: usable_def)
  ultimately show ?thesis using assms by (simp add: marks_blanks usable_names marks_other)
qed

lemma marks_newline: "usable as \<Longrightarrow> marks as newline = newline"
  using marks_next [of "[]" "CHR 0x0A" as "[]"] separator_newline
  by (simp add: marks_solid) (auto simp: mark_def usable_def names_def find_Some_iff split: option.splits)

lemma convert_if:
  assumes "convertible (Cond i c b) as" and "in_scope P as s"
  shows "convert_line P (line_of i (''if '' @ c)) s = Done (blanks i @ ''.if '' @ marks as (c @ newline), s\<lparr>scope := If # scope s\<rparr>)"
proof -
  let ?l = "line_of i (''if '' @ c)" and ?m = "line_of i (''.if '' @ c)"
  have "first (Lit ''if '') (''if '' @ c @ newline) [] (c @ newline)" by (rule first_Lit) (rule refl)
  then have "subst_all (Lit ''if '') (\<lambda>c. ''.if '') ?l = ?m"
    using assms(1) by (simp add: pass_blanks subst_all_first subst_all_none)
  moreover have "matches (Lit ''if '') ?l" by (simp add: matches_Lit sublist_append)
  ultimately have "if_step ?l s = (?m, s\<lparr>scope := If # scope s\<rparr>)" by (simp add: if_step_def)
  moreover have "marks as ?m = blanks i @ ''.if '' @ marks as (c @ newline)"
    using marks_keyword [of as "''.if''" "CHR '' ''" i "c @ newline"] assms(2) separator_blank by (simp add: in_scope_def)
  ultimately show ?thesis using assms marks_matches [of _ ?m as] unslashed_after
    by (simp add: none_steps)
qed

lemma convert_else:
  assumes "in_scope P as s"
  shows "convert_line P (line_of i ''else '') s = Done (line_of i ''.else '', s)"
proof -
  let ?l = "line_of i ''else ''" and ?m = "line_of i ''.else ''"
  have none: "\<not> matches for_re ?l" "\<not> matches var_re ?l" "\<not> matches (Lit ''if '') ?l" "\<not> matches function_re ?l"
      "\<not> matches array ?l" "\<not> matches end_re ?m" "\<not> matches call_re ?m"
    by (rule no_char [OF literals_of(1), of "CHR ''f''"] no_char [OF literals_of(3), of "CHR ''v''"]
        no_char [of "''if ''" _ "CHR ''f''"] no_char [OF literals_of(5), of "CHR ''f''"] no_char [of "''ARRAY''" _ "CHR ''A''"]
        no_char [OF literals_of(8), of "CHR ''d''"] no_char [OF literals_of(7), of "CHR ''(''"]; simp)+
  have "marks as ?l = ?l"
    using marks_keyword [of as "''else''" "CHR '' ''" i newline] assms separator_blank marks_newline by (simp add: in_scope_def)
  moreover have "first (Lit ''else '') (''else '' @ newline) [] newline" by (rule first_Lit) (rule refl)
  then have "else_step ?l = ?m"
    by (simp add: else_step_def pass_blanks subst_all_first subst_all_none newline_none)
  then have "after_escape P ?l s = Done (?m, s)"
    using none by (simp add: after_escape_def end_step_def call_step_def subst_all_none)
  ultimately show ?thesis using assms none by (simp add: none_steps)
qed

primrec closing :: "block \<Rightarrow> string" where
  "closing For = ''.endr''"
| "closing If = ''.endif''"
| "closing Function = ''.endm''"

lemma convert_end:
  assumes "in_scope P as s" and "scope s = b # bs"
  shows "convert_line P (line_of i ''end'') s =
    Done (line_of i (closing b), if b = Function then s\<lparr>scope := bs, args := [Array_ref (address P)]\<rparr> else s\<lparr>scope := bs\<rparr>)"
proof -
  let ?l = "line_of i ''end''"
  have none: "\<not> matches for_re ?l" "\<not> matches var_re ?l" "\<not> matches (Lit ''if '') ?l" "\<not> matches function_re ?l"
      "\<not> matches array ?l" "\<not> matches (Lit ''else '') ?l"
    by (rule no_char [OF literals_of(1), of "CHR ''f''"] no_char [OF literals_of(3), of "CHR ''v''"]
        no_char [of "''if ''" _ "CHR ''f''"] no_char [OF literals_of(5), of "CHR ''f''"] no_char [of "''ARRAY''" _ "CHR ''A''"]
        no_char [of "''else ''" _ "CHR ''l''"]; simp)+
  have call: "\<not> matches call_re (line_of i (closing b))"
    by (cases b; rule no_char [OF literals_of(7), of "CHR ''(''"]; simp)
  have "marks as ?l = ?l"
    using marks_keyword [of as "''end''" "CHR 0x0A" i "[]"] assms(1) separator_newline by (simp add: in_scope_def marks_solid)
  moreover have "matches end_re ?l" using matches_end [of "blanks i @ ''end''"] by (simp add: suffix_def)
  moreover have f: "first (Lit ''end'') (''end'' @ newline) [] newline" by (rule first_Lit) (rule refl)
  have "subst_all (Lit ''end'') f ?l = blanks i @ f [] @ newline" for f
    using f by (simp add: pass_blanks subst_all_first subst_all_none newline_none)
  moreover have "subst_first (Lit ''end'') f ?l = blanks i @ f [] @ newline" for f
    using f by (simp add: pass_blanks subst_first_first)
  ultimately show ?thesis using assms none call
    by (cases b) (simp_all add: none_steps after_escape_def else_step_def end_step_def call_step_def subst_all_none)
qed

lemma convert_for:
  assumes "convertible (Loop i v a y l z d b) as"
  shows "convert_line P
      (line_of i (''for var '' @ v @ '' = '' @ decimal a @ ''; '' @ y @ '' < '' @ decimal l @ ''; '' @ z @ '' += '' @ decimal d)) s =
    Done (''.irp '' @ v @ listed (\<lambda>k. a + k * d) [0..<rounds a l d] @ newline, s\<lparr>scope := For # scope s\<rparr>)"
proof -
  have "search for_re (line_of i (''for var '' @ v @ '' = '' @ decimal a @ ''; '' @ y @ '' < '' @ decimal l @ ''; '' @ z @ '' += '' @ decimal d)) =
      Some (blanks i, [v, decimal a, y, decimal l, z, decimal d], newline)"
    using first_for [of v y z a l d] assms
    by (simp add: pass_blanks begin_literals search_first name_ok_def)
  moreover have "for_line [v, decimal a, y, decimal l, z, decimal d] =
      Done (''.irp '' @ v @ listed (\<lambda>k. a + k * d) [0..<rounds a l d] @ newline)"
    using assms by (auto simp: for_line_values rounds_next rounds_end upt_conv_Cons simp del: upt_Suc)
  ultimately show ?thesis by (simp add: convert_line_def)
qed

lemma set_commas: "set (commas ps) \<subseteq> {CHR '','', CHR '' ''} \<union> (\<Union>p\<in>set ps. set p)"
  by (induction ps) auto

lemma convert_function:
  assumes "convertible (Func i n ps b) as"
  shows "convert_line P (line_of i (''function '' @ n @ ''('' @ commas ps @ '')'')) s =
    Done (line_of i (''.macro '' @ n @ '' '' @ commas ps), s\<lparr>scope := Function # scope s, args := map Name ps\<rparr>)"
proof -
  let ?l = "line_of i (''function '' @ n @ ''('' @ commas ps @ '')'')" and ?m = "line_of i (''.macro '' @ n @ '' '' @ commas ps)"
  have n: "plain_word n" "n \<noteq> []" and ps: "names ps" using assms by (auto simp: name_ok_def usable_def)
  have chars: "c \<notin> set n" "c \<notin> set (commas ps)" if "\<not> word c" "c \<noteq> CHR '',''" "c \<noteq> CHR '' ''" for c
    using that n ps set_commas [of ps] by (auto simp: names_def plain_word_def list_all_iff)
  have none: "\<not> matches for_re ?l" "\<not> matches var_re ?l" "\<not> matches call_re ?m"
    by (rule no_char [OF literals_of(2), of "CHR '';''"] no_char [OF literals_of(4), of "CHR ''=''"]
        no_char [OF literals_of(7), of "CHR ''(''"]; simp add: chars)+
  have f: "first function_re (''function '' @ n @ ''('' @ commas ps @ CHR '')'' # newline) [n, commas ps] newline"
    using first_function [OF n, of "commas ps"] chars by simp
  then have "search function_re ?l = Some (blanks i, [n, commas ps], newline)"
    by (simp add: pass_blanks begin_literals search_first)
  moreover have "subst_all function_re (\<lambda>c. ''.macro '' @ c ! 0 @ '' '' @ c ! 1) ?l = ?m"
    using f by (simp add: pass_blanks begin_literals subst_all_first subst_all_none newline_none)
  moreover have "split_args (commas ps) = ps"
    using ps not_word(6) by (intro split_commas) (auto simp: names_def plain_word_def list_all_iff simp del: not_word)
  ultimately have "function_step P ?l s = (?m, s\<lparr>scope := Function # scope s, args := map Name ps\<rparr>)"
    by (simp add: function_step_def)
  then show ?thesis using assms none by (simp add: convert_line_step var_none if_none after_escape_none)
qed

section \<open>Blocks\<close>

lemma convert_append:
  "convert P (xs @ ys) s = andthen (convert P xs s) (\<lambda>(out, t). map_outcome (\<lambda>(outs, u). (out @ outs, u)) (convert P ys t))"
proof (induction xs arbitrary: s)
  case Nil
  then show ?case by (simp add: outcome.map_ident case_prod_unfold)
next
  case (Cons x xs)
  have "map_outcome f (andthen m g) = andthen m (\<lambda>x. map_outcome f (g x))" "andthen (map_outcome f m) g = andthen m (\<lambda>x. g (f x))"
    "andthen (andthen m g) h = andthen m (\<lambda>x. andthen (g x) h)" for f g h m by (cases m; simp)+
  note laws = this
  show ?case by (cases "convert_line P x s") (auto simp: Cons laws outcome.map_comp comp_def case_prod_unfold)
qed

text \<open>Lines that are translated and leave the open blocks as they are.\<close>

definition converts :: "perl \<Rightarrow> string list \<Rightarrow> string list \<Rightarrow> string \<Rightarrow> bool" where
  "converts P as ls out \<longleftrightarrow>
     (\<forall>s. in_scope P as s \<longrightarrow> (\<exists>t. convert P ls s = Done (out, t) \<and> in_scope P as t \<and> scope t = scope s))"

lemma converts_line: "(\<And>s. in_scope P as s \<Longrightarrow> convert_line P l s = Done (out, s)) \<Longrightarrow> converts P as [l] out"
  by (simp add: converts_def)

lemma converts_append: "converts P as ls out \<Longrightarrow> converts P as ms outs \<Longrightarrow> converts P as (ls @ ms) (out @ outs)"
  by (fastforce simp: converts_def convert_append)

lemma converts_concat: "\<forall>x\<in>set xs. converts P as (f x) (g x) \<Longrightarrow> converts P as (concat (map f xs)) (concat (map g xs))"
  by (induction xs) (auto intro: converts_append simp: converts_def [of P as "[]" "[]"])

text \<open>A line that opens a block, what is in it, and the line that closes it.\<close>

lemma converts_block:
  assumes opens: "\<And>s. in_scope P as s \<Longrightarrow> \<exists>t. convert_line P l s = Done (out, t) \<and> scope t = b # scope s \<and> in_scope P bs t"
    and inner: "converts P bs ls outs"
    and outer: "if b = Function then as = [] else bs = as"
  shows "converts P as (l # ls @ [line_of i ''end'']) (out @ outs @ line_of i (closing b))"
  unfolding converts_def
proof (intro allI impI)
  fix s
  assume "in_scope P as s"
  then obtain t where t: "convert_line P l s = Done (out, t)" "scope t = b # scope s" "in_scope P bs t" using opens by blast
  then obtain u where u: "convert P ls t = Done (outs, u)" "in_scope P bs u" "scope u = b # scope s"
    using inner by (auto simp: converts_def)
  define v where "v = (if b = Function then u\<lparr>scope := scope s, args := [Array_ref (address P)]\<rparr> else u\<lparr>scope := scope s\<rparr>)"
  have "convert_line P (line_of i ''end'') u = Done (line_of i (closing b), v)"
    using convert_end [OF u(2,3)] unfolding v_def by blast
  then have "convert P (l # ls @ [line_of i ''end'']) s = Done (out @ outs @ line_of i (closing b), v)"
    using t(1) u(1) by (simp add: convert_append)
  moreover have "in_scope P as v" using outer u(2) by (auto simp: v_def in_scope_def usable_def names_def split: if_splits)
  moreover have "scope v = scope s" by (simp add: v_def)
  ultimately show "\<exists>t. convert P (l # ls @ [line_of i ''end'']) s = Done (out @ outs @ line_of i (closing b), t) \<and>
      in_scope P as t \<and> scope t = scope s" by blast
qed

lemma in_scope_opened [simp]: "in_scope P as (s\<lparr>scope := bs\<rparr>) \<longleftrightarrow> in_scope P as s"
  by (simp add: in_scope_def)

lemma converts_stmt: "convertible st as \<Longrightarrow> converts P as (source st) (target st as)"
proof (induction st arbitrary: as)
  case (Line l)
  then show ?case using convert_plain by (auto intro: converts_line)
next
  case (Var i n e)
  then show ?case using convert_var by (auto intro: converts_line)
next
  case (Call i n x)
  then show ?case using convert_call by (auto intro: converts_line)
next
  case (Cond i c b)
  have "converts P as (concat (map source b)) (concat (map (\<lambda>s. target s as) b))"
    using Cond by (intro converts_concat) (auto simp: list_all_iff)
  then have "converts P as (source (Cond i c b)) ((blanks i @ ''.if '' @ marks as (c @ newline)) @
      concat (map (\<lambda>s. target s as) b) @ line_of i (closing If))"
    unfolding source.simps using convert_if [OF Cond.prems] by (intro converts_block [where bs = as]) auto
  then show ?case by simp
next
  case (Cond_else i c b1 b2)
  have "converts P as (concat (map source b1)) (concat (map (\<lambda>s. target s as) b1))"
      "converts P as (concat (map source b2)) (concat (map (\<lambda>s. target s as) b2))"
    using Cond_else by (auto intro!: converts_concat simp: list_all_iff)
  then have "converts P as (concat (map source b1) @ [line_of i ''else ''] @ concat (map source b2))
      (concat (map (\<lambda>s. target s as) b1) @ line_of i ''.else '' @ concat (map (\<lambda>s. target s as) b2))"
    by (intro converts_append converts_line convert_else)
  moreover have wf: "convertible (Cond i c []) as" using Cond_else.prems by simp
  ultimately have "converts P as
      (line_of i (''if '' @ c) # (concat (map source b1) @ [line_of i ''else ''] @ concat (map source b2)) @ [line_of i ''end''])
      ((blanks i @ ''.if '' @ marks as (c @ newline)) @
       (concat (map (\<lambda>s. target s as) b1) @ line_of i ''.else '' @ concat (map (\<lambda>s. target s as) b2)) @ line_of i (closing If))"
    using convert_if [OF wf] by (intro converts_block [where bs = as]) auto
  then show ?case by simp
next
  case (Loop i v a y l z d b)
  have "converts P as (concat (map source b)) (concat (map (\<lambda>s. target s as) b))"
    using Loop by (intro converts_concat) (auto simp: list_all_iff)
  then have "converts P as (source (Loop i v a y l z d b)) ((''.irp '' @ v @ listed (\<lambda>k. a + k * d) [0..<rounds a l d] @ newline) @
      concat (map (\<lambda>s. target s as) b) @ line_of i (closing For))"
    unfolding source.simps using convert_for [OF Loop.prems] by (intro converts_block [where bs = as]) auto
  then show ?case by simp
next
  case (Func i n ps b)
  have "converts P ps (concat (map source b)) (concat (map (\<lambda>s. target s ps) b))"
    using Func by (intro converts_concat) (auto simp: list_all_iff)
  moreover have "in_scope P ps (s\<lparr>scope := bs, args := map Name ps\<rparr>)" for s bs
    using Func.prems by (simp add: in_scope_def)
  ultimately have "converts P as (source (Func i n ps b)) (line_of i (''.macro '' @ n @ '' '' @ commas ps) @
      concat (map (\<lambda>s. target s ps) b) @ line_of i (closing Function))"
    unfolding source.simps using convert_function [OF Func.prems] Func.prems by (intro converts_block [where bs = ps]) auto
  then show ?case by simp
qed

definition program :: "stmt list \<Rightarrow> string list" where
  "program p = concat (map source p)"

definition translation :: "stmt list \<Rightarrow> string" where
  "translation p = concat (map (\<lambda>s. target s []) p)"

text \<open>
  C34. Structured sp3 sources are translated. For a source of plain lines, variable assignments, calls, conditions, loops and
  functions, each closed by \<open>end\<close>, the converter, which matches patterns in one line after another, comes to its end
  and prints the translation: \<open>.set\<close>, the call without its brackets, \<open>.if\<close> with \<open>.else\<close> and \<open>.endif\<close>,
  \<open>.irp\<close> with exactly the values of the loop variable and \<open>.endr\<close>, \<open>.macro\<close> with its parameters and
  \<open>.endm\<close>. Every \<open>end\<close> becomes the one of the block it closes, however deep the blocks are, and operands
  that are parameters of the function around them get a backslash. The source is convertible: no line holds a construct
  other than its own, names are words, loops end, functions are not nested, and no parameter is the end of a
  keyword of its body.
\<close>

theorem sp3_to_mc_program:
  assumes "list_all (\<lambda>s. convertible s []) p"
  shows "sp3_to_mc P (program p) = Done (translation p)"
proof -
  have "converts P [] (program p) (translation p)"
    unfolding program_def translation_def using assms by (intro converts_concat) (auto simp: list_all_iff converts_stmt)
  moreover have "in_scope P [] sp3_start" by (simp add: in_scope_def usable_def names_def sp3_start_def)
  ultimately show ?thesis by (auto simp: converts_def sp3_to_mc_def)
qed

text \<open>The three samples of examples/sp3, one after the other.\<close>

definition samples :: "stmt list" where
  "samples =
     [Func 0 ''WriteTo'' [''Reg'', ''Value''] [Line ''  v_and_b32 Reg, Reg, 0xF;'', Line ''  v_mov_b32 Reg, Value''],
      Line [],
      Call 0 ''WriteTo'' ''v1, 0xFFFF'',
      Loop 0 ''i'' 0 ''j'' 4 ''j'' 3 [Loop 2 ''j'' 0 ''j'' 3 ''j'' 2 [Line (''    v_mov_b32 v0, '' @ CHR 0x5C # ''i'')]],
      Var 0 ''ENABLE_DEBUGGING_CODE'' ''1'',
      Line [],
      Cond 0 ''(ENABLE_DEBUGGING_CODE)''
        [Line ''  v_mov_b32 v1, 0x3333'', Line ''  v_mov_b32 v2, 0x5555'', Line ''  v_mov_b32 v3, 0'',
         Line ''  flat_store_dword v[2:3], v1'']]"

lemma program_samples:
  "program samples = map (\<lambda>l. l @ newline)
     [''function WriteTo(Reg, Value)'', ''  v_and_b32 Reg, Reg, 0xF;'', ''  v_mov_b32 Reg, Value'', ''end'', [], ''WriteTo(v1, 0xFFFF)'',
      ''for var i = 0; j < 4; j += 3'', ''  for var j = 0; j < 3; j += 2'', ''    v_mov_b32 v0, '' @ CHR 0x5C # ''i'', ''  end'', ''end'',
      ''var ENABLE_DEBUGGING_CODE = 1'', [], ''if (ENABLE_DEBUGGING_CODE)'', ''  v_mov_b32 v1, 0x3333'', ''  v_mov_b32 v2, 0x5555'',
      ''  v_mov_b32 v3, 0'', ''  flat_store_dword v[2:3], v1'', ''end'']"
  by code_simp

lemma translation_samples:
  "translation samples = concat (map (\<lambda>l. l @ newline)
     [''.macro WriteTo Reg, Value'', ''  v_and_b32 '' @ CHR 0x5C # ''Reg, '' @ CHR 0x5C # ''Reg, 0xF;'',
      ''  v_mov_b32 '' @ CHR 0x5C # ''Reg, '' @ CHR 0x5C # ''Value'', ''.endm'', [], ''WriteTo v1, 0xFFFF'',
      ''.irp i,0,3'', ''.irp j,0,2'', ''    v_mov_b32 v0, '' @ CHR 0x5C # ''i'', ''  .endr'', ''.endr'',
      ''.set ENABLE_DEBUGGING_CODE , 1'', [], ''.if (ENABLE_DEBUGGING_CODE)'', ''  v_mov_b32 v1, 0x3333'', ''  v_mov_b32 v2, 0x5555'',
      ''  v_mov_b32 v3, 0'', ''  flat_store_dword v[2:3], v1'', ''.endif''])"
  by code_simp

lemma convertible_samples: "list_all (\<lambda>s. convertible s []) samples"
  by code_simp

theorem sp3_to_mc_program_witness:
  "list_all (\<lambda>s. convertible s []) samples \<and>
   sp3_to_mc \<lparr>address = ''55d0'', interpolate = Lit\<rparr> (program samples) = Done (translation samples)"
  using convertible_samples sp3_to_mc_program [OF convertible_samples] by blast

section \<open>Where lines go wrong\<close>

text \<open>Outside of what is asked of a convertible source. A parameter is found at the end of a longer word.\<close>

lemma argument_inside_word: "escape P [Name ''x''] (''s_mov max, y'' @ newline) = ''s_mov ma'' @ CHR 0x5C # ''x, y'' @ newline"
proof -
  have "escape P (map Name [''x'']) (''s_mov max, y'' @ newline) = marks [''x''] (''s_mov max, y'' @ newline)"
    by (rule escape_names) code_simp
  also have "\<dots> = ''s_mov ma'' @ CHR 0x5C # ''x, y'' @ newline" by code_simp
  finally show ?thesis by simp
qed

text \<open>The last argument of a call is followed by a bracket, and so not found.\<close>

lemma last_argument_of_call:
  assumes "in_scope P [''a'', ''b''] s"
  shows "convert_line P (''g(a, b)'' @ newline) s = Done (''g '' @ CHR 0x5C # ''a, b'' @ newline, s)"
proof -
  have "convertible (Call 0 ''g'' ''a, b'') [''a'', ''b'']" by code_simp
  moreover have "target (Call 0 ''g'' ''a, b'') [''a'', ''b''] = ''g '' @ CHR 0x5C # ''a, b'' @ newline" by code_simp
  ultimately show ?thesis using convert_call [of 0 "''g''" "''a, b''" "[''a'', ''b'']"] assms by simp
qed

text \<open>\<open>else\<close> at the end of a line is left as it is.\<close>

lemma else_without_blank:
  assumes "in_scope P as s"
  shows "convert_line P (''else'' @ newline) s = Done (''else'' @ newline, s)"
proof -
  have "marks as (''else'' @ newline) = ''else'' @ newline"
    using marks_keyword [of as "''else''" "CHR 0x0A" 0 "[]"] assms separator_newline by (simp add: in_scope_def marks_solid)
  moreover have "convertible (Line ''else'') as" unfolding convertible.simps by code_simp
  ultimately show ?thesis using convert_plain [of "''else''" as P s] assms by simp
qed

text \<open>A word that ends in \<open>end\<close> closes a block at the end of a line.\<close>

lemma end_of_word:
  "sp3_to_mc P [''if x'' @ newline, ''s_branch loop_end'' @ newline] = Done (''.if x'' @ newline @ ''s_branch loop_.endif'' @ newline)"
  by code_simp

text \<open>A function whose parameter is called \<open>d\<close> is never closed.\<close>

lemma parameter_in_keyword:
  "sp3_to_mc P [''function f(d)'' @ newline, ''end'' @ newline] = Done (''.macro f d'' @ newline @ ''en'' @ CHR 0x5C # ''d'' @ newline)"
  by code_simp

end
