(* ===== verification/Spec2Isabelle.thy ===== *)
theory Spec2Isabelle
  imports End_To_End Amdphdrs Disassemble Gds_Interleaving Sp3_Program
begin

text \<open>
  The programs of the repository, examples of running and inspecting AMD GPU machine code,
  as functions over explicit states, and what makes them correct.

  \<^bold>\<open>The program.\<close> Seven programs under src/examples run a kernel written in assembly
  on a GPU: gfx8/ds_bpermute, gfx8/dpp_reduce, gfx8/fp16_native, gfx8/fp16_storage,
  gfx8/s_memrealtime, gfx8/s_memrealtime_inline and asm-kernel. Each is a subclass of
  \<open>Dispatch\<close> (common/dispatch.hpp, dispatch.cpp), whose \<open>RunMain\<close> initialises the HSA runtime,
  claims a packet, loads the code object, calls the virtual \<open>Setup\<close>, publishes the packet, waits,
  calls the virtual \<open>Verify\<close>, and prints a verdict. common/half.cpp converts to and from half
  precision. amdphdrs/amdphdrs.c adds program headers to a kernel in ELF format. api/assemble and
  api/disassemble call LLVM on a source text and on machine code in memory. bin/sp3_to_mc.pl
  converts sources in the older sp3 syntax.

  \<^bold>\<open>The library.\<close> \<open>Prelude\<close>: a program is a function from a state to a fault or a result and
  a new state (\<open>prog\<close>), with sequencing, loops, symbolic execution by the collection \<open>exec\<close>, and
  the locale \<open>frame\<close> for relations between states that every step keeps. A fault is an assertion
  that fails, a null pointer, a division by zero, an access out of bounds, or a loop that does
  not end. \<open>Memory\<close>: the byte memory that host and
  device share, and the locale \<open>codec\<close> of the integers stored in it. \<open>Float32\<close>: the type \<open>float\<close>.
  \<open>Hsa\<close>: the interface to the runtime, the record \<open>'r hsa\<close>, a parameter of everything
  below, with the events that reach the device. \<open>Reference_Runtime\<close> and \<open>Reference_Run\<close>: a runtime
  that satisfies all hypotheses, for the witnesses only.

  \<^bold>\<open>The class \<open>Dispatch\<close>.\<close> \<open>Dispatch\<close> holds the state (the members, in the order of
  dispatch.hpp) and every operation of dispatch.cpp under its name. \<open>Discovery\<close> is about agents and
  regions, \<open>Packet\<close> about claiming and publishing a packet, \<open>Kernargs\<close> about the argument
  segment, \<open>Buffers\<close> about allocation and copies, \<open>Waiting\<close> about the wait loop, \<open>Running\<close> about the
  order of the stages and the exit code. What the base class needs of a subclass is the
  locale \<open>example\<close>, interpreted by each of the seven programs; the two theorems below follow
  from it for all of them. \<open>Staging\<close> holds what the \<open>Setup\<close> and \<open>Verify\<close> methods share.

  \<^bold>\<open>The examples.\<close> \<open>Ds_Bpermute\<close>, \<open>Dpp_Reduce\<close>, \<open>Fp16\<close>, \<open>S_Memrealtime\<close> and \<open>Asm_Kernel\<close> hold
  the subclasses and show what \<open>Setup\<close> leaves in memory, what \<open>Verify\<close> accepts, and that
  what the kernel does to the memory is accepted. \<open>Packet_Device\<close> says what a device is taken to do with a published
  packet: a one-dimensional packet of one work-group that fits into a wavefront, with system fences, runs the program of its
  kernel object on its argument address. \<open>End_To_End\<close> puts host program and kernel together over any runtime that
  keeps this contract: \<open>main\<close> of the five examples that compute a result returns 0. The two s_memrealtime examples inherit a
  \<open>Verify\<close> that accepts always, so for them the theorems are about the kernel.

  \<^bold>\<open>The kernels.\<close> \<open>Gcn\<close> is a machine for the instructions the kernels use: one wavefront with its
  execution mask, the memory, the global data share, and loads that complete in the background.
  \<open>Gcn_Kernels\<close> and \<open>S_Memrealtime_Kernel\<close> hold the kernels as its
  programs: they run to their end, and do to the memory what the examples
  assume. The kernel that watches the clock is a step relation in which time passes: it waits
  long enough, never gets stuck, and stops once the time is up. \<open>Gpr_Alloc\<close> models the macros of gfx8/gpr_alloc.inc as
  functions on the symbols of the assembler: what they hand out is disjoint, covered by the counts in the kernel header,
  and leaves room for the number of waves asked for. \<open>Debug_Output\<close> models those of gfx8/debug.inc as functions that yield
  instructions, and \<open>Gds_Test\<close> uses both for the kernel gfx8/gds_test.s: a workgroup counts its work-items.
  \<open>Gcn_Typing\<close> is a type system for programs of the machine, sound with respect to its steps, in which every kernel is typed.
  \<open>Gds_Interleaving\<close> lets the wavefronts of a workgroup take turns instruction by instruction: the locale
  \<open>straight_kernel\<close> says what holds of any typed kernel without branches, and its interpretation for gds_test.s
  that the count is right whatever the order.

  \<^bold>\<open>The tools.\<close> \<open>Half\<close>: both conversions on all bit patterns. \<open>Amdphdrs\<close>: the copy of the
  file, the layout of the segments and all error exits. \<open>Llvm_Examples\<close>, \<open>Assemble\<close>,
  \<open>Disassemble\<close>: the hexadecimal dump, the decoding loop against the relation
  \<open>decodes\<close>, and the outcome of every path. \<open>Perl_Match\<close> gives the part of Perl's
  patterns that sp3_to_mc.pl uses a meaning: the ways to match in Perl's order, shown to be exactly the matches of the relation
  \<open>spells\<close>. \<open>Sp3_To_Mc\<close> is the script, one definition per statement of its loop over the lines, on
  the stack \<open>scope\<close> and the list \<open>args\<close>. \<open>Sp3_Loop\<close> is about the for loops it runs, \<open>Sp3_Args\<close>
  about the parameters it escapes, \<open>Sp3_Lines\<close> about single lines, and \<open>Sp3_Program\<close> shows that it translates
  structured sources, the samples of examples/sp3 among them, and where it goes wrong on others.

  \<^bold>\<open>Loops.\<close> Loops that may not end (the wait loop, the copy loop, the decoding loop, the run of a
  kernel) have the fault \<open>Diverges\<close>, or the value \<open>None\<close>, when they do not end, and that they
  end is a theorem where it holds: the for loops of sp3 over integers whose step is not 0,
  \<open>Wait\<close> exactly if a round sees the signal at 0 or the clock beyond the limit, every kernel on the machine, the waiting
  kernel within 15 instructions of its time, the copy loop on a finite file.

  \<^bold>\<open>Not modelled.\<close> Outside the repository, and so parameters: the HSA runtime, the C
  clock and file system, libelf, and LLVM. The pointers the source keeps to objects of these
  libraries are words or options. The bodies of the floating point instructions of the
  device are parameters, of which the examples need that they add exactly where the sum is
  representable; the encoding of the instructions and the order in which loads return are not part of the machine, and
  wavefronts are interleaved for gds_test.s only, the kernel that runs more than one of them. amdphdrs is modelled for an output path that differs from the
  input path. gds_test.s has no host program, and the file params.inc that it includes is not in the repository: its symbols
  are the record \<open>params\<close>. The symbols of the assembler are unbounded integers here, 64 bits wide there. Of Perl, a for loop that
  computes in floating point (one of its words is inf or nan, has an exponent or exceeds 64 bits) has the outcome \<open>Floating\<close>
  and no values, and what a text that
  is not a plain word stands for inside a pattern is a parameter (\<open>interpolate\<close>), as is the address printed for a reference.
  The CMake files describe the build.
\<close>

section \<open>All examples\<close>

text \<open>
  C2. Every one of the seven dispatch examples publishes at most one packet: the events of a run hold at
  most one store of a packet header, to the claimed slot, directly followed by the doorbell
  with the claimed index, and exactly one when the run returns true. No \<open>Setup\<close>, no \<open>Verify\<close>
  and no error path rings the doorbell.
\<close>

theorem examples_publish_at_most_once:
  "publishes_at_most_once (Run H (SetupExecutable H (DsBPermute_SetupCodeObject H)) (DsBPermute_Setup H) (DsBPermute_Verify H)) \<and>
   publishes_at_most_once (Run H (SetupExecutable H (DppReduce_SetupCodeObject H)) (DppReduce_Setup H) (DppReduce_Verify H)) \<and>
   publishes_at_most_once (Run H (SetupExecutable H (fp16_native_SetupCodeObject H)) (HalfVectorAdd_Setup H) (HalfVectorAdd_Verify H)) \<and>
   publishes_at_most_once (Run H (SetupExecutable H (fp16_storage_SetupCodeObject H)) (fp16_storage_Setup H) (fp16_storage_Verify H)) \<and>
   publishes_at_most_once (Run H (SetupExecutable H (SMemRealtime_SetupCodeObject H)) (SMemRealtime_Setup H) Verify) \<and>
   publishes_at_most_once (Run H (SetupExecutable H (SMemRealtime_inline_SetupCodeObject H)) (SMemRealtime_inline_Setup H) Verify) \<and>
   publishes_at_most_once (Run H (SetupExecutable H (AsmKernel_SetupCodeObject H)) (AsmKernel_Setup H) (AsmKernel_Verify H))"
  by (intro conjI ds_bpermute.Run_publishes_at_most_once dpp_reduce.Run_publishes_at_most_once
      fp16_native.Run_publishes_at_most_once fp16_storage.Run_publishes_at_most_once
      s_memrealtime.Run_publishes_at_most_once s_memrealtime_inline.Run_publishes_at_most_once
      asm_kernel.Run_publishes_at_most_once)

lemma exits_with_verdict_main:
  assumes "exits_with_verdict m" and "\<And>s. cout (f s) = cout s"
  shows "exits_with_verdict (\<lambda>s. m (f s))"
  unfolding exits_with_verdict_def
proof
  fix s
  show "case m (f s) of (Inl e, t) \<Rightarrow> cout t = cout s
    | (Inr code, t) \<Rightarrow> (\<exists>res. code = (if res then 0 else 1) \<and> cout t = cout s @ verdict res (out_stream t))"
    using spec [OF assms(1) [unfolded exits_with_verdict_def], of "f s"] by (simp only: assms(2))
qed

lemma constructors_print_nothing:
  "cout (DsBPermuteDispatch bp) = cout bp"
  "cout (DppReduce dpp) = cout dpp"
  "cout (HalfVectorAdd hva) = cout hva"
  "cout (SMemRealtimeDispatch sm) = cout sm"
  "cout (AsmKernelDispatch ak) = cout ak"
  "cout (fp16_storage_HalfVectorAdd hva) = cout hva"
  "cout (SMemRealtime_inline sm) = cout sm"
  by (simp_all add: fp16_storage_class SMemRealtime_inline_class DsBPermuteDispatch_def DppReduce_def HalfVectorAdd_def SMemRealtimeDispatch_def AsmKernelDispatch_def Dispatch_Dispatch_def)

lemmas example_verdicts =
  exits_with_verdict_main [OF ds_bpermute.RunMain_exits_with_verdict, where f = DsBPermuteDispatch, OF constructors_print_nothing(1), folded DsBPermute_main_def]
  exits_with_verdict_main [OF dpp_reduce.RunMain_exits_with_verdict, where f = DppReduce, OF constructors_print_nothing(2), folded DppReduce_main_def]
  exits_with_verdict_main [OF fp16_native.RunMain_exits_with_verdict, where f = HalfVectorAdd, OF constructors_print_nothing(3), folded fp16_native_main_def]
  exits_with_verdict_main [OF fp16_storage.RunMain_exits_with_verdict, where f = fp16_storage_HalfVectorAdd, OF constructors_print_nothing(6), folded fp16_storage_main_def]
  exits_with_verdict_main [OF s_memrealtime.RunMain_exits_with_verdict, where f = SMemRealtimeDispatch, OF constructors_print_nothing(4), folded SMemRealtime_main_def]
  exits_with_verdict_main [OF s_memrealtime_inline.RunMain_exits_with_verdict, where f = SMemRealtime_inline, OF constructors_print_nothing(7), folded SMemRealtime_inline_main_def]
  exits_with_verdict_main [OF asm_kernel.RunMain_exits_with_verdict, where f = AsmKernelDispatch, OF constructors_print_nothing(5), folded AsmKernel_main_def]

text \<open>
  C3. The seven programs tell the truth: \<open>main\<close> returns 0 or 1, and what it printed is the object's own
  output and, as the last line, "Success" if the code is 0 and "Failed" if it is 1. If a
  fault ends the process instead, nothing has been printed.
\<close>

theorem examples_exit_with_verdict:
  "exits_with_verdict (DsBPermute_main H) \<and> exits_with_verdict (DppReduce_main H) \<and>
   exits_with_verdict (fp16_native_main H) \<and> exits_with_verdict (fp16_storage_main H) \<and>
   exits_with_verdict (SMemRealtime_main H) \<and> exits_with_verdict (SMemRealtime_inline_main H) \<and>
   exits_with_verdict (AsmKernel_main H)"
  by (intro conjI example_verdicts)

end
